(* ===== verification/Prelude.thy ===== *)
theory Prelude
  imports
    Main
    "HOL-Library.Word"
    "HOL-Library.AList"
    "HOL-Library.Char_ord"
    "HOL-Library.List_Lexorder"
    "HOL-Library.Multiset"
begin

text \<open>
  Shared vocabulary of the development.

  \<^item> The widths of Go's integers as words, instants and durations as integers (nanoseconds).
  \<^item> Go's \<^verbatim>\<open>strings\<close> package on byte strings: \<open>ToLower\<close>, \<open>TrimSpace\<close>, \<open>HasSuffix\<close>,
    \<open>Split\<close> and so on. A Go string is a byte sequence, here a list of \<^typ>\<open>char\<close>; letter case
    and white space are those of ASCII, which is what domain names and the texts the source
    compares are made of.
  \<^item> Go's maps as association lists with distinct keys. The list order stands for one of the
    orders in which \<^verbatim>\<open>range\<close> may visit the map; no property of the development depends on it.
  \<^item> The interface of such maps, the locale \<open>go_map\<close>, and its interpretation on
    association lists.
\<close>

section \<open>Integers, instants, errors\<close>

type_synonym u8 = "8 word"
type_synonym u16 = "16 word"
type_synonym u32 = "32 word"
type_synonym u64 = "64 word"
type_synonym time = int
type_synonym duration = int

definition second :: duration where
  "second = 1000000000"

section \<open>Go's strings package on byte strings\<close>

definition lower_char :: "char \<Rightarrow> char" where
  "lower_char c =
     (let n = (of_char c :: nat) in if 65 \<le> n \<and> n \<le> 90 then char_of (n + 32) else c)"

definition ToLower :: "string \<Rightarrow> string" where
  "ToLower s = map lower_char s"

definition is_space :: "char \<Rightarrow> bool" where
  "is_space c = ((of_char c :: nat) \<in> {9, 10, 11, 12, 13, 32})"

definition TrimSpace :: "string \<Rightarrow> string" where
  "TrimSpace s = rev (dropWhile is_space (rev (dropWhile is_space s)))"

definition HasPrefix :: "string \<Rightarrow> string \<Rightarrow> bool" where
  "HasPrefix s p = (length p \<le> length s \<and> take (length p) s = p)"

definition HasSuffix :: "string \<Rightarrow> string \<Rightarrow> bool" where
  "HasSuffix s t = (length t \<le> length s \<and> drop (length s - length t) s = t)"

definition TrimPrefix :: "string \<Rightarrow> string \<Rightarrow> string" where
  "TrimPrefix s p = (if HasPrefix s p then drop (length p) s else s)"

definition TrimSuffix :: "string \<Rightarrow> string \<Rightarrow> string" where
  "TrimSuffix s t = (if HasSuffix s t then take (length s - length t) s else s)"

definition TrimRight :: "string \<Rightarrow> char \<Rightarrow> string" where
  "TrimRight s c = rev (dropWhile (\<lambda>x. x = c) (rev s))"

definition EqualFold :: "string \<Rightarrow> string \<Rightarrow> bool" where
  "EqualFold s t = (ToLower s = ToLower t)"

fun Contains :: "string \<Rightarrow> string \<Rightarrow> bool" where
  "Contains [] t = (t = [])"
| "Contains (c # s) t = (HasPrefix (c # s) t \<or> Contains s t)"

text \<open>\<^verbatim>\<open>strings.Split\<close> with a separator of one byte; the empty string has one empty part.\<close>

fun Split :: "string \<Rightarrow> char \<Rightarrow> string list" where
  "Split [] c = [[]]"
| "Split (x # s) c =
     (if x = c then [] # Split s c
      else case Split s c of [] \<Rightarrow> [[x]] | p # ps \<Rightarrow> (x # p) # ps)"

text \<open>\<^verbatim>\<open>strings.SplitN\<close> with a separator of one byte and at most \<open>n\<close> parts.\<close>

fun SplitN :: "string \<Rightarrow> char \<Rightarrow> nat \<Rightarrow> string list" where
  "SplitN s c 0 = []"
| "SplitN s c (Suc 0) = [s]"
| "SplitN s c (Suc (Suc n)) =
     (let (a, b) = (takeWhile (\<lambda>x. x \<noteq> c) s, dropWhile (\<lambda>x. x \<noteq> c) s)
      in if b = [] then [a] else a # SplitN (tl b) c (Suc n))"

text \<open>\<^verbatim>\<open>strings.Fields\<close>: the maximal runs of bytes that are not white space.\<close>

definition Fields :: "string \<Rightarrow> string list" where
  "Fields s = filter (\<lambda>p. p \<noteq> []) (Split (map (\<lambda>c. if is_space c then CHR '' '' else c) s) CHR '' '')"

fun Join :: "string list \<Rightarrow> string \<Rightarrow> string" where
  "Join [] sep = []"
| "Join [p] sep = p"
| "Join (p # q # ps) sep = p @ sep @ Join (q # ps) sep"

text \<open>
  \<^verbatim>\<open>strconv.ParseUint(s, 10, bits)\<close>: decimal digits only, at least one, and the value fits.
\<close>

definition is_digit :: "char \<Rightarrow> bool" where
  "is_digit c = (48 \<le> (of_char c :: int) \<and> (of_char c :: int) \<le> 57)"

definition digit_val :: "char \<Rightarrow> int" where
  "digit_val c = of_char c - 48"

fun dec_val :: "int \<Rightarrow> string \<Rightarrow> int" where
  "dec_val acc [] = acc"
| "dec_val acc (c # s) = dec_val (10 * acc + digit_val c) s"

definition ParseUint :: "string \<Rightarrow> nat \<Rightarrow> int option" where
  "ParseUint s bits =
     (if s \<noteq> [] \<and> list_all is_digit s \<and> dec_val 0 s < 2 ^ bits then Some (dec_val 0 s) else None)"

text \<open>
  The verb \<^verbatim>\<open>%q\<close> of \<^verbatim>\<open>fmt\<close>: quotes and backslashes are escaped, control bytes are written
  as Go escapes them, every other byte stands for itself.
\<close>

definition hex_digit :: "nat \<Rightarrow> char" where
  "hex_digit n = (if n < 10 then char_of (n + 48) else char_of (n + 87))"

definition quote_char :: "char \<Rightarrow> string" where
  "quote_char c =
     (let n = (of_char c :: nat); bs = char_of (92 :: nat) in
      if n = 34 \<or> n = 92 then [bs, c]
      else if n = 7 then [bs, CHR ''a''] else if n = 8 then [bs, CHR ''b'']
      else if n = 12 then [bs, CHR ''f''] else if n = 10 then [bs, CHR ''n'']
      else if n = 13 then [bs, CHR ''r''] else if n = 9 then [bs, CHR ''t'']
      else if n = 11 then [bs, CHR ''v'']
      else if n < 32 \<or> n = 127 then [bs, CHR ''x'', hex_digit (n div 16), hex_digit (n mod 16)]
      else [c])"

definition Quote :: "string \<Rightarrow> string" where
  "Quote s = [char_of (34 :: nat)] @ concat (map quote_char s) @ [char_of (34 :: nat)]"

section \<open>Go maps\<close>

type_synonym ('k, 'v) gomap = "('k \<times> 'v) list"

definition map_put :: "'k \<Rightarrow> 'v \<Rightarrow> ('k, 'v) gomap \<Rightarrow> ('k, 'v) gomap" where
  "map_put k v m = AList.update k v m"

definition map_del :: "'k \<Rightarrow> ('k, 'v) gomap \<Rightarrow> ('k, 'v) gomap" where
  "map_del k m = AList.delete k m"

definition map_ok :: "('k, 'v) gomap \<Rightarrow> bool" where
  "map_ok m = distinct (map fst m)"


section \<open>Lemmas on strings\<close>

named_theorems go_strings \<open>characterisations of the string functions\<close>

lemma HasSuffix_iff [go_strings]: "HasSuffix s t \<longleftrightarrow> (\<exists>p. s = p @ t)"
proof
  assume "HasSuffix s t"
  then have "s = take (length s - length t) s @ t"
    by (metis HasSuffix_def append_take_drop_id)
  then show "\<exists>p. s = p @ t" ..
next
  assume "\<exists>p. s = p @ t"
  then show "HasSuffix s t"
    by (auto simp: HasSuffix_def)
qed

lemma HasPrefix_iff [go_strings]: "HasPrefix s p \<longleftrightarrow> (\<exists>t. s = p @ t)"
proof
  assume "HasPrefix s p"
  then have "s = p @ drop (length p) s"
    by (metis HasPrefix_def append_take_drop_id)
  then show "\<exists>t. s = p @ t" ..
next
  assume "\<exists>t. s = p @ t"
  then show "HasPrefix s p"
    by (auto simp: HasPrefix_def)
qed

lemma Split_not_Nil [simp]: "Split s c \<noteq> []"
  by (induction s) (auto split: list.splits)

lemma HasSuffix_refl [simp]: "HasSuffix s s"
  by (simp add: HasSuffix_def)

lemma HasSuffix_append [simp]: "HasSuffix (p @ t) t"
  by (auto simp: HasSuffix_iff)

lemma Contains_append_right: "Contains s t \<Longrightarrow> Contains (p @ s) t"
  by (induction p) auto

lemma Contains_here: "Contains (t @ q) t"
proof (cases "t @ q")
  case Nil
  then show ?thesis by simp
next
  case (Cons c s)
  then have "HasPrefix (c # s) t"
    by (metis HasPrefix_iff)
  with Cons show ?thesis by simp
qed

lemma Contains_iff [go_strings]: "Contains s t \<longleftrightarrow> (\<exists>p q. s = p @ t @ q)"
proof
  show "Contains s t \<Longrightarrow> \<exists>p q. s = p @ t @ q"
  proof (induction s)
    case Nil
    then show ?case by simp
  next
    case (Cons c s)
    then show ?case
      by (auto simp: HasPrefix_iff) (metis append_Nil append.assoc, metis append_Cons)
  qed
next
  assume "\<exists>p q. s = p @ t @ q"
  then show "Contains s t"
    by (auto intro: Contains_append_right Contains_here)
qed

lemma lower_char_idem [simp]: "lower_char (lower_char c) = lower_char c"
  by (auto simp: lower_char_def Let_def of_char_of)

lemma is_space_lower [simp]: "is_space (lower_char c) = is_space c"
  by (auto simp: lower_char_def is_space_def Let_def of_char_of)

lemma lower_dot_iff [simp]: "lower_char c = CHR ''.'' \<longleftrightarrow> c = CHR ''.''"
proof -
  have "(char_of (n + 32) :: char) \<noteq> CHR ''.''" if "65 \<le> n" "n \<le> 90" for n :: nat
  proof
    assume "char_of (n + 32) = CHR ''.''"
    then have "of_char (char_of (n + 32) :: char) = (of_char CHR ''.'' :: nat)"
      by simp
    with that show False
      by (simp add: of_char_of)
  qed
  then show ?thesis
    by (auto simp: lower_char_def Let_def)
qed

lemma ToLower_idem [simp]: "ToLower (ToLower s) = ToLower s"
  by (simp add: ToLower_def)

lemma ToLower_Nil [simp]: "ToLower [] = []"
  by (simp add: ToLower_def)

lemma ToLower_append [simp]: "ToLower (s @ t) = ToLower s @ ToLower t"
  by (simp add: ToLower_def)

lemma ToLower_eq_Nil [simp]: "ToLower s = [] \<longleftrightarrow> s = []"
  by (simp add: ToLower_def)

lemma length_ToLower [simp]: "length (ToLower s) = length s"
  by (simp add: ToLower_def)

lemma EqualFold_sym: "EqualFold s t = EqualFold t s"
  by (auto simp: EqualFold_def)

text \<open>A trimmed string neither starts nor ends with white space.\<close>

definition trimmed :: "string \<Rightarrow> bool" where
  "trimmed s = (s = [] \<or> (\<not> is_space (hd s) \<and> \<not> is_space (last s)))"

lemma TrimSpace_trimmed: "trimmed s \<Longrightarrow> TrimSpace s = s"
proof (cases "s = []")
  case True
  then show ?thesis by (simp add: TrimSpace_def)
next
  case False
  moreover assume "trimmed s"
  ultimately have "\<not> is_space (hd s)" and "\<not> is_space (last s)"
    by (auto simp: trimmed_def)
  moreover have "dropWhile is_space s = s"
    using False \<open>\<not> is_space (hd s)\<close> by (cases s) auto
  moreover have "dropWhile is_space (rev s) = rev s"
    using False \<open>\<not> is_space (last s)\<close>
    by (cases s rule: rev_cases) auto
  ultimately show ?thesis by (simp add: TrimSpace_def)
qed

lemma trimmed_TrimSpace [simp]: "trimmed (TrimSpace s)"
proof -
  let ?a = "dropWhile is_space s"
  let ?b = "dropWhile is_space (rev ?a)"
  have hd_b: "?b \<noteq> [] \<Longrightarrow> \<not> is_space (hd ?b)"
    by (rule hd_dropWhile)
  have "rev ?b \<noteq> [] \<Longrightarrow> \<not> is_space (hd (rev ?b))"
  proof -
    assume ne: "rev ?b \<noteq> []"
    obtain p where "rev ?a = p @ ?b"
      by (metis takeWhile_dropWhile_id)
    then have "?a = rev ?b @ rev p"
      by (metis rev_append rev_rev_ident)
    with ne have "hd (rev ?b) = hd ?a" and "?a \<noteq> []"
      by (metis hd_append2, metis Nil_is_append_conv)
    then show ?thesis
      by (metis hd_dropWhile)
  qed
  with hd_b show ?thesis
    by (auto simp: trimmed_def TrimSpace_def last_rev)
qed

lemma trimmed_ToLower [simp]: "trimmed (ToLower s) = trimmed s"
  by (cases "s = []") (auto simp: trimmed_def ToLower_def hd_map last_map)

section \<open>Sorting\<close>

lemma distinct_map_sort_key: "distinct (map f (sort_key f xs)) = distinct (map f xs)"
  by (simp add: distinct_map)

lemma sort_key_same_mset:
  assumes "mset xs = mset ys" and "distinct (map f xs)"
  shows "sort_key f xs = sort_key f ys"
  using assms by (intro sort_key_inj_key_eq) (auto simp: distinct_map)

section \<open>Results\<close>

lemma not_isl_Inr: "\<not> isl x \<Longrightarrow> \<exists>y. x = Inr y"
  by (cases x) auto

lemma triple_Inr: "\<not> isl (fst c) \<Longrightarrow> \<exists>r s b. c = (Inr r, s, b)"
  by (cases c) (auto dest: not_isl_Inr)

section \<open>The interface of a Go map\<close>

text \<open>
  What a client of a map relies on: a lookup after an assignment or a deletion, and that both
  keep the keys distinct.
\<close>

locale go_map =
  fixes get :: "'m \<Rightarrow> 'k \<Rightarrow> 'v option"
    and put :: "'k \<Rightarrow> 'v \<Rightarrow> 'm \<Rightarrow> 'm"
    and del :: "'k \<Rightarrow> 'm \<Rightarrow> 'm"
    and ok :: "'m \<Rightarrow> bool"
  assumes get_put: "ok m \<Longrightarrow> get (put k v m) = (get m)(k \<mapsto> v)"
    and get_del: "ok m \<Longrightarrow> get (del k m) = (get m)(k := None)"
    and ok_put: "ok m \<Longrightarrow> ok (put k v m)"
    and ok_del: "ok m \<Longrightarrow> ok (del k m)"
begin

lemma get_put_same: "ok m \<Longrightarrow> get (put k v m) k = Some v"
  by (simp add: get_put)

lemma get_put_other: "ok m \<Longrightarrow> j \<noteq> k \<Longrightarrow> get (put k v m) j = get m j"
  by (simp add: get_put)

lemma get_del_same: "ok m \<Longrightarrow> get (del k m) k = None"
  by (simp add: get_del)

lemma get_del_other: "ok m \<Longrightarrow> j \<noteq> k \<Longrightarrow> get (del k m) j = get m j"
  by (simp add: get_del)

lemma put_put: "ok m \<Longrightarrow> get (put k v (put k w m)) = get (put k v m)"
  by (simp add: get_put ok_put)

lemma put_preserves:
  assumes "ok m" and "\<And>j w. get m j = Some w \<Longrightarrow> P j w" and "P k v"
  shows "get (put k v m) j = Some w \<Longrightarrow> P j w"
  using assms by (auto simp: get_put split: if_splits)

lemma del_preserves:
  assumes "ok m" and "\<And>j w. get m j = Some w \<Longrightarrow> P j w"
  shows "get (del k m) j = Some w \<Longrightarrow> P j w"
  using assms by (auto simp: get_del split: if_splits)

end

lemma map_of_map_put [simp]: "map_of (map_put k v m) = (map_of m)(k \<mapsto> v)"
  by (simp add: map_put_def update_conv')

lemma map_of_map_del [simp]: "map_of (map_del k m) = (map_of m)(k := None)"
  by (simp add: map_del_def delete_conv')

interpretation gm: go_map map_of map_put map_del map_ok
  by unfold_locales
    (auto simp: map_ok_def map_put_def map_del_def update_conv' delete_conv'
      intro: distinct_update distinct_delete)

lemma map_ok_Nil [simp]: "map_ok []"
  by (simp add: map_ok_def)

lemma map_ok_put [simp]: "map_ok m \<Longrightarrow> map_ok (map_put k v m)"
  by (rule gm.ok_put)

lemma map_ok_del [simp]: "map_ok m \<Longrightarrow> map_ok (map_del k m)"
  by (rule gm.ok_del)

lemma map_ok_lookup: "map_ok m \<Longrightarrow> (k, v) \<in> set m \<longleftrightarrow> map_of m k = Some v"
  by (simp add: map_ok_def)

lemma map_put_fresh: "map_of m k = None \<Longrightarrow> map_put k v m = m @ [(k, v)]"
  unfolding map_put_def by (induction m) (auto split: if_splits)

lemma length_map_put:
  "length (map_put k v m) = (if map_of m k = None then Suc (length m) else length m)"
  unfolding map_put_def by (induction m) auto

lemma map_del_absent: "map_of m k = None \<Longrightarrow> map_del k m = m"
  unfolding map_del_def by (simp add: map_of_eq_None_iff)

lemma length_map_del:
  "map_ok m \<Longrightarrow> map_of m k \<noteq> None \<Longrightarrow> Suc (length (map_del k m)) = length m"
proof (induction m)
  case Nil
  then show ?case by simp
next
  case (Cons p m)
  obtain j w where [simp]: "p = (j, w)" by (cases p)
  show ?case
  proof (cases "j = k")
    case True
    with Cons.prems(1) have "map_of m k = None"
      by (auto simp: map_ok_def map_of_eq_None_iff)
    with True show ?thesis
      using map_del_absent [of m k] by (simp add: map_del_def)
  next
    case False
    with Cons have "Suc (length (map_del k m)) = length m"
      by (auto simp: map_ok_def)
    with False show ?thesis by (simp add: map_del_def)
  qed
qed

text \<open>Two maps with the same content have the same entries, whatever their visiting orders.\<close>

lemma map_ok_same_mset:
  assumes "map_ok m" and "map_ok n" and "map_of m = map_of n"
  shows "mset m = mset n"
proof -
  have "distinct m" "distinct n"
    using assms by (auto simp: map_ok_def distinct_map)
  moreover have "set m = set n"
    using assms by (metis map_of_inject_set map_ok_def)
  ultimately show ?thesis
    by (simp add: set_eq_iff_mset_eq_distinct)
qed

end
