(* ===== verification/Hanzo_Store.thy ===== *)
theory Hanzo_Store
  imports Prelude
begin

text \<open>
  The zone and record store of the \<^verbatim>\<open>hanzodns\<close> plugin: \<^verbatim>\<open>store.go\<close> and the bulk
  synchronisation of \<^verbatim>\<open>store_sync.go\<close>.

  A store is a map from zone names to zone data. Every operation that writes takes the store
  and returns three things: its result or error, the new store, and whether it called
  \<^verbatim>\<open>notify\<close> (the hook that rewrites the durable snapshot, see \<open>Hanzo_Snapshot\<close>). The instants
  of \<^verbatim>\<open>time.Now\<close> and the identifiers of \<^verbatim>\<open>uuid.New\<close> are arguments. The read-write lock makes each
  operation atomic, so an execution of the store is a sequence of operations.
\<close>

section \<open>Data\<close>

definition ValidRecordTypes :: "string \<Rightarrow> bool" where
  "ValidRecordTypes t =
     (t \<in> {''A'', ''AAAA'', ''CNAME'', ''MX'', ''TXT'', ''SRV'', ''NS'', ''SOA'', ''CAA''})"

record Record =
  r_ID :: string
  r_Name :: string
  r_Type :: string
  r_TTL :: u32
  r_Content :: string
  r_Priority :: u16
  r_Proxied :: bool
  r_CreatedAt :: time
  r_UpdatedAt :: time

record Zone =
  z_ID :: string
  z_Name :: string
  z_Org :: string
  z_Provider :: string
  z_Status :: string
  z_Nameservers :: "string list"
  z_RecordCount :: nat
  z_DNSSECEnabled :: bool
  z_CreatedAt :: time
  z_UpdatedAt :: time

record zoneData =
  zd_zone :: Zone
  zd_records :: "(string, Record) gomap"

record Store =
  s_zones :: "(string, zoneData) gomap"
  s_onChange :: bool

record ProviderRecord =
  pr_ID :: string
  pr_Name :: string
  pr_Type :: string
  pr_Content :: string
  pr_TTL :: u32
  pr_Proxied :: bool
  pr_Priority :: u16

record RecordPatch =
  p_Name :: "string option"
  p_Type :: "string option"
  p_TTL :: "u32 option"
  p_Content :: "string option"
  p_Priority :: "u16 option"
  p_Proxied :: "bool option"

record SyncRecord =
  sr_ID :: string
  sr_Name :: string
  sr_Type :: string
  sr_TTL :: u32
  sr_Content :: string
  sr_Priority :: u16
  sr_Proxied :: bool

record SyncZoneRequest =
  sz_Zone :: string
  sz_Records :: "SyncRecord list"

record SyncResponse =
  sy_Zone :: string
  sy_RecordCount :: nat
  sy_Created :: nat
  sy_Deleted :: nat

text \<open>The errors of the store, and the text \<^verbatim>\<open>fmt.Errorf\<close> gives each of them.\<close>

datatype store_error =
    ZoneExists string
  | ZoneNotFound string
  | RecordNotFound string
  | InvalidRecordType string
  | MirrorRequiresID

fun store_error_text :: "store_error \<Rightarrow> string" where
  "store_error_text (ZoneExists key) = ''zone '' @ Quote key @ '' already exists''"
| "store_error_text (ZoneNotFound key) = ''zone '' @ Quote key @ '' not found''"
| "store_error_text (RecordNotFound rid) = ''record '' @ Quote rid @ '' not found''"
| "store_error_text (InvalidRecordType t) = ''invalid record type '' @ Quote t"
| "store_error_text MirrorRequiresID = ''mirror record requires an id''"

type_synonym 'a outcome = "(store_error + 'a) \<times> Store \<times> bool"

section \<open>Operations of store.go\<close>

definition NewStore :: Store where
  "NewStore = \<lparr>s_zones = [], s_onChange = False\<rparr>"

definition normZone :: "string \<Rightarrow> string" where
  "normZone name =
     (let n = ToLower (TrimSpace name) in if \<not> HasSuffix n ''.'' then n @ ''.'' else n)"

definition zoneForOrg :: "Store \<Rightarrow> string \<Rightarrow> string \<Rightarrow> zoneData option" where
  "zoneForOrg s org name =
     (case map_of (s_zones s) (normZone name) of
        None \<Rightarrow> None
      | Some zd \<Rightarrow> if z_Org (zd_zone zd) \<noteq> org then None else Some zd)"

definition zone_view :: "zoneData \<Rightarrow> Zone" where
  "zone_view zd = (zd_zone zd)\<lparr>z_RecordCount := length (zd_records zd)\<rparr>"

definition ListZones :: "Store \<Rightarrow> string \<Rightarrow> Zone list" where
  "ListZones s org =
     map (zone_view \<circ> snd) (filter (\<lambda>(k, zd). z_Org (zd_zone zd) = org) (s_zones s))"

definition GetZone :: "Store \<Rightarrow> string \<Rightarrow> string \<Rightarrow> Zone option" where
  "GetZone s org name = map_option zone_view (zoneForOrg s org name)"

definition CreateZone ::
  "string \<Rightarrow> time \<Rightarrow> Store \<Rightarrow> string \<Rightarrow> string \<Rightarrow> string \<Rightarrow> Zone outcome" where
  "CreateZone uuid now s org name provider =
     (let key = normZone name in
      case map_of (s_zones s) key of
        Some _ \<Rightarrow> (Inl (ZoneExists key), s, False)
      | None \<Rightarrow>
          let z = \<lparr>z_ID = uuid, z_Name = key, z_Org = org, z_Provider = provider,
                   z_Status = ''active'', z_Nameservers = [''ns1.hanzo.ai.'', ''ns2.hanzo.ai.''],
                   z_RecordCount = 0, z_DNSSECEnabled = False,
                   z_CreatedAt = now, z_UpdatedAt = now\<rparr>
          in (Inr z,
              s\<lparr>s_zones := map_put key \<lparr>zd_zone = z, zd_records = []\<rparr> (s_zones s)\<rparr>,
              True))"

definition ProviderAuthoritative :: string where
  "ProviderAuthoritative = ''authoritative''"

definition ProviderCloudflare :: string where
  "ProviderCloudflare = ''cloudflare''"

definition ZoneProvider :: "Store \<Rightarrow> string \<Rightarrow> string \<Rightarrow> string option" where
  "ZoneProvider s org name =
     (case zoneForOrg s org name of
        None \<Rightarrow> None
      | Some zd \<Rightarrow>
          if z_Provider (zd_zone zd) = '''' then Some ProviderAuthoritative
          else Some (z_Provider (zd_zone zd)))"

definition DeleteZone :: "Store \<Rightarrow> string \<Rightarrow> string \<Rightarrow> unit outcome" where
  "DeleteZone s org name =
     (let key = normZone name in
      case zoneForOrg s org name of
        None \<Rightarrow> (Inl (ZoneNotFound key), s, False)
      | Some _ \<Rightarrow> (Inr (), s\<lparr>s_zones := map_del key (s_zones s)\<rparr>, True))"

definition ListRecords :: "Store \<Rightarrow> string \<Rightarrow> string \<Rightarrow> store_error + Record list" where
  "ListRecords s org zone =
     (case zoneForOrg s org zone of
        None \<Rightarrow> Inl (ZoneNotFound (normZone zone))
      | Some zd \<Rightarrow> Inr (map snd (zd_records zd)))"

definition GetRecord :: "Store \<Rightarrow> string \<Rightarrow> string \<Rightarrow> string \<Rightarrow> store_error + Record" where
  "GetRecord s org zone rid =
     (case zoneForOrg s org zone of
        None \<Rightarrow> Inl (ZoneNotFound (normZone zone))
      | Some zd \<Rightarrow>
          (case map_of (zd_records zd) rid of
             None \<Rightarrow> Inl (RecordNotFound rid)
           | Some r \<Rightarrow> Inr r))"

text \<open>
  Writing through the pointer \<open>zd\<close>: the zone data at the key of \<open>zone\<close> is replaced.
\<close>

definition put_zone :: "string \<Rightarrow> zoneData \<Rightarrow> Store \<Rightarrow> Store" where
  "put_zone zone zd s = s\<lparr>s_zones := map_put (normZone zone) zd (s_zones s)\<rparr>"

definition touch_zone :: "time \<Rightarrow> (string, Record) gomap \<Rightarrow> zoneData \<Rightarrow> zoneData" where
  "touch_zone now recs zd =
     zd\<lparr>zd_zone := (zd_zone zd)\<lparr>z_UpdatedAt := now\<rparr>, zd_records := recs\<rparr>"

definition CreateRecord ::
  "string \<Rightarrow> time \<Rightarrow> Store \<Rightarrow> string \<Rightarrow> string \<Rightarrow> string \<Rightarrow> string \<Rightarrow> u32 \<Rightarrow> string \<Rightarrow> u16
     \<Rightarrow> bool \<Rightarrow> Record outcome" where
  "CreateRecord uuid now s org zone name rtype ttl content priority proxied =
     (if \<not> ValidRecordTypes rtype then (Inl (InvalidRecordType rtype), s, False)
      else case zoneForOrg s org zone of
        None \<Rightarrow> (Inl (ZoneNotFound (normZone zone)), s, False)
      | Some zd \<Rightarrow>
          let r = \<lparr>r_ID = uuid, r_Name = name, r_Type = rtype, r_TTL = ttl,
                   r_Content = content, r_Priority = priority, r_Proxied = proxied,
                   r_CreatedAt = now, r_UpdatedAt = now\<rparr>
          in (Inr r, put_zone zone (touch_zone now (map_put uuid r (zd_records zd)) zd) s, True))"

definition PutMirror ::
  "time \<Rightarrow> Store \<Rightarrow> string \<Rightarrow> string \<Rightarrow> ProviderRecord \<Rightarrow> unit outcome" where
  "PutMirror now s org zone rec =
     (if pr_ID rec = '''' then (Inl MirrorRequiresID, s, False)
      else if \<not> ValidRecordTypes (pr_Type rec) then
        (Inl (InvalidRecordType (pr_Type rec)), s, False)
      else case zoneForOrg s org zone of
        None \<Rightarrow> (Inl (ZoneNotFound (normZone zone)), s, False)
      | Some zd \<Rightarrow>
          let created = (case map_of (zd_records zd) (pr_ID rec) of
                           Some existing \<Rightarrow> r_CreatedAt existing
                         | None \<Rightarrow> now);
              r = \<lparr>r_ID = pr_ID rec, r_Name = pr_Name rec, r_Type = pr_Type rec,
                   r_TTL = pr_TTL rec, r_Content = pr_Content rec,
                   r_Priority = pr_Priority rec, r_Proxied = pr_Proxied rec,
                   r_CreatedAt = created, r_UpdatedAt = now\<rparr>
          in (Inr (),
              put_zone zone (touch_zone now (map_put (pr_ID rec) r (zd_records zd)) zd) s,
              True))"

definition DropMirror :: "time \<Rightarrow> Store \<Rightarrow> string \<Rightarrow> string \<Rightarrow> string \<Rightarrow> Store \<times> bool" where
  "DropMirror now s org zone rid =
     (case zoneForOrg s org zone of
        None \<Rightarrow> (s, False)
      | Some zd \<Rightarrow>
          (case map_of (zd_records zd) rid of
             None \<Rightarrow> (s, False)
           | Some _ \<Rightarrow>
               (put_zone zone (touch_zone now (map_del rid (zd_records zd)) zd) s, True)))"

text \<open>
  \<^verbatim>\<open>UpdateRecord\<close> assigns the fields of the record in the map one after the other; the check of
  the new type stands between the assignment of the name and that of the type, and its failure
  returns with the name already assigned.
\<close>

definition opt_set :: "'a option \<Rightarrow> 'a \<Rightarrow> 'a" where
  "opt_set p old = (case p of None \<Rightarrow> old | Some v \<Rightarrow> v)"

definition UpdateRecord ::
  "time \<Rightarrow> Store \<Rightarrow> string \<Rightarrow> string \<Rightarrow> string \<Rightarrow> RecordPatch \<Rightarrow> Record outcome" where
  "UpdateRecord now s org zone rid patch =
     (case zoneForOrg s org zone of
        None \<Rightarrow> (Inl (ZoneNotFound (normZone zone)), s, False)
      | Some zd \<Rightarrow>
          (case map_of (zd_records zd) rid of
             None \<Rightarrow> (Inl (RecordNotFound rid), s, False)
           | Some r \<Rightarrow>
               let r1 = r\<lparr>r_Name := opt_set (p_Name patch) (r_Name r)\<rparr> in
               if (case p_Type patch of Some t \<Rightarrow> \<not> ValidRecordTypes t | None \<Rightarrow> False) then
                 (Inl (InvalidRecordType (the (p_Type patch))),
                  put_zone zone (zd\<lparr>zd_records := map_put rid r1 (zd_records zd)\<rparr>) s,
                  False)
               else
                 let r2 = r1\<lparr>r_Type := opt_set (p_Type patch) (r_Type r),
                             r_TTL := opt_set (p_TTL patch) (r_TTL r),
                             r_Content := opt_set (p_Content patch) (r_Content r),
                             r_Priority := opt_set (p_Priority patch) (r_Priority r),
                             r_Proxied := opt_set (p_Proxied patch) (r_Proxied r),
                             r_UpdatedAt := now\<rparr>
                 in (Inr r2,
                     put_zone zone (touch_zone now (map_put rid r2 (zd_records zd)) zd) s,
                     True)))"

definition DeleteRecord ::
  "time \<Rightarrow> Store \<Rightarrow> string \<Rightarrow> string \<Rightarrow> string \<Rightarrow> unit outcome" where
  "DeleteRecord now s org zone rid =
     (case zoneForOrg s org zone of
        None \<Rightarrow> (Inl (ZoneNotFound (normZone zone)), s, False)
      | Some zd \<Rightarrow>
          (case map_of (zd_records zd) rid of
             None \<Rightarrow> (Inl (RecordNotFound rid), s, False)
           | Some _ \<Rightarrow>
               (Inr (), put_zone zone (touch_zone now (map_del rid (zd_records zd)) zd) s, True)))"

definition fqdn :: "string \<Rightarrow> string \<Rightarrow> string" where
  "fqdn name zone =
     (if name = ''@'' \<or> name = '''' then zone
      else if HasSuffix name ''.'' then name
      else name @ ''.'' @ zone)"

definition Lookup :: "Store \<Rightarrow> string \<Rightarrow> string \<Rightarrow> Record list" where
  "Lookup s qname qtype =
     (let q = ToLower qname in
      concat (map (\<lambda>(zoneName, zd).
        if \<not> HasSuffix q zoneName then []
        else filter (\<lambda>r. ToLower (fqdn (r_Name r) zoneName) = q \<and> r_Type r = qtype)
               (map snd (zd_records zd)))
        (s_zones s)))"

definition ZoneNames :: "Store \<Rightarrow> string list" where
  "ZoneNames s = map fst (s_zones s)"

section \<open>Bulk synchronisation of store\_sync.go\<close>

text \<open>
  The loop over the records of the request. \<open>uuids\<close> holds the identifiers that successive calls
  of \<^verbatim>\<open>uuid.New\<close> return; the loop consumes one for each valid record without an id.
\<close>

definition sync_record :: "time \<Rightarrow> string \<Rightarrow> SyncRecord \<Rightarrow> Record" where
  "sync_record now rid sr =
     \<lparr>r_ID = rid, r_Name = sr_Name sr, r_Type = sr_Type sr,
      r_TTL = (if sr_TTL sr = 0 then 300 else sr_TTL sr),
      r_Content = sr_Content sr, r_Priority = sr_Priority sr,
      r_Proxied = sr_Proxied sr, r_CreatedAt = now, r_UpdatedAt = now\<rparr>"

fun sync_records ::
  "time \<Rightarrow> (nat \<Rightarrow> string) \<Rightarrow> SyncRecord list \<Rightarrow> (string, Record) gomap \<Rightarrow> (string, Record) gomap"
where
  "sync_records now uuids [] acc = acc"
| "sync_records now uuids (sr # srs) acc =
     (if \<not> ValidRecordTypes (sr_Type sr) then sync_records now uuids srs acc
      else if sr_ID sr = '''' then
        sync_records now (\<lambda>n. uuids (Suc n)) srs
          (map_put (uuids 0) (sync_record now (uuids 0) sr) acc)
      else
        sync_records now uuids srs (map_put (sr_ID sr) (sync_record now (sr_ID sr) sr) acc))"

definition BulkSync ::
  "string \<Rightarrow> (nat \<Rightarrow> string) \<Rightarrow> time \<Rightarrow> Store \<Rightarrow> string \<Rightarrow> SyncZoneRequest \<Rightarrow> SyncResponse outcome" where
  "BulkSync zuuid uuids now s org req =
     (let key = normZone (sz_Zone req);
          found = map_of (s_zones s) key
      in
      if (case found of Some zd \<Rightarrow> z_Org (zd_zone zd) \<noteq> org | None \<Rightarrow> False) then
        (Inl (ZoneExists key), s, True)
      else
        let zd = (case found of
                    Some zd \<Rightarrow> zd
                  | None \<Rightarrow>
                      \<lparr>zd_zone = \<lparr>z_ID = zuuid, z_Name = key, z_Org = org, z_Provider = '''',
                         z_Status = ''active'',
                         z_Nameservers = [''ns1.hanzo.ai.'', ''ns2.hanzo.ai.''],
                         z_RecordCount = 0, z_DNSSECEnabled = False,
                         z_CreatedAt = now, z_UpdatedAt = now\<rparr>,
                       zd_records = []\<rparr>);
            newRecords = sync_records now uuids (sz_Records req) []
        in (Inr \<lparr>sy_Zone = key, sy_RecordCount = length newRecords,
                 sy_Created = length newRecords, sy_Deleted = length (zd_records zd)\<rparr>,
            put_zone (sz_Zone req) (touch_zone now newRecords zd) s,
            True))"

section \<open>Executions\<close>

text \<open>
  A writing call with its arguments; the calling organisation is given beside it. \<open>exec_op\<close>
  is the store after the call and whether \<^verbatim>\<open>notify\<close> was called.
\<close>

definition err_of :: "'e + 'a \<Rightarrow> 'e option" where
  "err_of x = (case x of Inl e \<Rightarrow> Some e | Inr _ \<Rightarrow> None)"

datatype store_op =
    DoCreateZone string time string string
  | DoDeleteZone string
  | DoCreateRecord string time string string string u32 string u16 bool
  | DoPutMirror time string ProviderRecord
  | DoDropMirror time string string
  | DoUpdateRecord time string string RecordPatch
  | DoDeleteRecord time string string
  | DoBulkSync string "nat \<Rightarrow> string" time SyncZoneRequest

fun exec_op :: "string \<Rightarrow> store_op \<Rightarrow> Store \<Rightarrow> Store \<times> bool" where
  "exec_op org (DoCreateZone uuid now name prov) s = snd (CreateZone uuid now s org name prov)"
| "exec_op org (DoDeleteZone name) s = snd (DeleteZone s org name)"
| "exec_op org (DoCreateRecord uuid now zone name rtype ttl content prio proxied) s =
     snd (CreateRecord uuid now s org zone name rtype ttl content prio proxied)"
| "exec_op org (DoPutMirror now zone rec) s = snd (PutMirror now s org zone rec)"
| "exec_op org (DoDropMirror now zone rid) s = DropMirror now s org zone rid"
| "exec_op org (DoUpdateRecord now zone rid patch) s = snd (UpdateRecord now s org zone rid patch)"
| "exec_op org (DoDeleteRecord now zone rid) s = snd (DeleteRecord now s org zone rid)"
| "exec_op org (DoBulkSync zuuid uuids now req) s = snd (BulkSync zuuid uuids now s org req)"

fun op_error :: "string \<Rightarrow> store_op \<Rightarrow> Store \<Rightarrow> store_error option" where
  "op_error org (DoCreateZone uuid now name prov) s =
     err_of (fst (CreateZone uuid now s org name prov))"
| "op_error org (DoDeleteZone name) s = err_of (fst (DeleteZone s org name))"
| "op_error org (DoCreateRecord uuid now zone name rtype ttl content prio proxied) s =
     err_of (fst (CreateRecord uuid now s org zone name rtype ttl content prio proxied))"
| "op_error org (DoPutMirror now zone rec) s = err_of (fst (PutMirror now s org zone rec))"
| "op_error org (DoDropMirror now zone rid) s = None"
| "op_error org (DoUpdateRecord now zone rid patch) s =
     err_of (fst (UpdateRecord now s org zone rid patch))"
| "op_error org (DoDeleteRecord now zone rid) s = err_of (fst (DeleteRecord now s org zone rid))"
| "op_error org (DoBulkSync zuuid uuids now req) s =
     err_of (fst (BulkSync zuuid uuids now s org req))"

fun exec_ops :: "(string \<times> store_op) list \<Rightarrow> Store \<Rightarrow> Store" where
  "exec_ops [] s = s"
| "exec_ops ((org, c) # cs) s = exec_ops cs (fst (exec_op org c s))"

section \<open>Invariant and the view of a tenant\<close>

definition record_ok :: "string \<Rightarrow> Record \<Rightarrow> bool" where
  "record_ok rid r = (r_ID r = rid \<and> ValidRecordTypes (r_Type r))"

definition zone_ok :: "string \<Rightarrow> zoneData \<Rightarrow> bool" where
  "zone_ok k zd =
     (normZone k = k \<and> z_Name (zd_zone zd) = k \<and> map_ok (zd_records zd)
      \<and> list_all (\<lambda>(rid, r). record_ok rid r) (zd_records zd))"

definition store_wf :: "Store \<Rightarrow> bool" where
  "store_wf s = (map_ok (s_zones s) \<and> list_all (\<lambda>(k, zd). zone_ok k zd) (s_zones s))"

text \<open>What an organisation owns: the part of the zone map whose zones carry its name.\<close>

definition org_view :: "string \<Rightarrow> Store \<Rightarrow> string \<Rightarrow> zoneData option" where
  "org_view org s k =
     (case map_of (s_zones s) k of
        None \<Rightarrow> None
      | Some zd \<Rightarrow> if z_Org (zd_zone zd) = org then Some zd else None)"

section \<open>Lemmas\<close>

lemma normZone_trimmed: "trimmed (normZone name)"
proof -
  let ?n = "ToLower (TrimSpace name)"
  have n: "trimmed ?n" by simp
  have "trimmed (?n @ ''.'')"
    using n by (cases "?n = []") (auto simp: trimmed_def is_space_def)
  with n show ?thesis
    by (simp add: normZone_def Let_def)
qed

lemma normZone_lower: "ToLower (normZone name) = normZone name"
  by (simp add: normZone_def Let_def) (simp add: ToLower_def lower_char_def)

lemma normZone_dot: "HasSuffix (normZone name) ''.''"
  by (simp add: normZone_def Let_def)

lemma normZone_idem [simp]: "normZone (normZone name) = normZone name"
proof -
  have "TrimSpace (normZone name) = normZone name"
    by (rule TrimSpace_trimmed) (rule normZone_trimmed)
  then show ?thesis
    by (metis normZone_def normZone_dot normZone_lower)
qed

lemma list_all_map_of:
  "map_ok m \<Longrightarrow> list_all (\<lambda>(k, v). P k v) m \<longleftrightarrow> (\<forall>k v. map_of m k = Some v \<longrightarrow> P k v)"
  by (auto simp: list_all_iff simp flip: map_ok_lookup)

lemma zone_ok_iff:
  "zone_ok k zd \<longleftrightarrow>
     normZone k = k \<and> z_Name (zd_zone zd) = k \<and> map_ok (zd_records zd)
     \<and> (\<forall>rid r. map_of (zd_records zd) rid = Some r \<longrightarrow> record_ok rid r)"
  unfolding zone_ok_def by (metis list_all_map_of)

lemma store_wf_iff:
  "store_wf s \<longleftrightarrow>
     map_ok (s_zones s) \<and> (\<forall>k zd. map_of (s_zones s) k = Some zd \<longrightarrow> zone_ok k zd)"
  unfolding store_wf_def by (metis list_all_map_of)

lemma zoneForOrg_view: "zoneForOrg s org name = org_view org s (normZone name)"
  by (simp add: zoneForOrg_def org_view_def split: option.splits)

lemma org_view_Some:
  "org_view org s k = Some zd \<longleftrightarrow> map_of (s_zones s) k = Some zd \<and> z_Org (zd_zone zd) = org"
  by (auto simp: org_view_def split: option.splits if_splits)

lemma zoneForOrg_Some:
  "zoneForOrg s org name = Some zd \<longleftrightarrow>
     map_of (s_zones s) (normZone name) = Some zd \<and> z_Org (zd_zone zd) = org"
  by (simp add: zoneForOrg_view org_view_Some)

lemma put_zone_lookup [simp]:
  "map_of (s_zones (put_zone zone zd s)) = (map_of (s_zones s))(normZone zone \<mapsto> zd)"
  by (simp add: put_zone_def)

lemma touch_zone_simps [simp]:
  "z_Org (zd_zone (touch_zone now recs zd)) = z_Org (zd_zone zd)"
  "z_Name (zd_zone (touch_zone now recs zd)) = z_Name (zd_zone zd)"
  "zd_records (touch_zone now recs zd) = recs"
  by (simp_all add: touch_zone_def)

text \<open>Writing a zone that the caller owns, or that did not exist, is invisible to the others.\<close>

lemma put_zone_frame:
  assumes "org' \<noteq> org" and "z_Org (zd_zone zd) = org"
    and "\<And>zd0. map_of (s_zones s) (normZone zone) = Some zd0 \<Longrightarrow> z_Org (zd_zone zd0) = org"
  shows "org_view org' (put_zone zone zd s) = org_view org' s"
  using assms by (auto simp: org_view_def fun_eq_iff split: option.splits)

lemma put_zone_wf:
  assumes "store_wf s" and "z_Name (zd_zone zd) = normZone zone" and "map_ok (zd_records zd)"
    and "\<And>rid r. map_of (zd_records zd) rid = Some r \<Longrightarrow> record_ok rid r"
  shows "store_wf (put_zone zone zd s)"
  using assms unfolding store_wf_iff zone_ok_iff by (auto simp: put_zone_def)

lemma owned_zone_wf:
  assumes "store_wf s" and "zoneForOrg s org zone = Some zd"
  shows "z_Name (zd_zone zd) = normZone zone" and "map_ok (zd_records zd)"
    and "map_of (zd_records zd) rid = Some r \<Longrightarrow> record_ok rid r"
  using assms by (auto simp: store_wf_iff zone_ok_iff zoneForOrg_Some)

lemma sync_records_ok:
  assumes "map_ok acc" and "\<And>rid r. map_of acc rid = Some r \<Longrightarrow> record_ok rid r"
  shows "map_ok (sync_records now uuids srs acc)
    \<and> (\<forall>rid r. map_of (sync_records now uuids srs acc) rid = Some r \<longrightarrow> record_ok rid r)"
  using assms
proof (induction now uuids srs acc rule: sync_records.induct)
  case (1 now uuids acc)
  then show ?case by simp
next
  case (2 now uuids sr srs acc)
  have put: "map_ok (map_put rid (sync_record now rid sr) acc)"
    "ValidRecordTypes (sr_Type sr) \<Longrightarrow>
       map_of (map_put rid (sync_record now rid sr) acc) j = Some r \<Longrightarrow> record_ok j r"
    for rid j r
    using "2.prems" by (auto simp: record_ok_def sync_record_def split: if_splits)
  show ?case
    using "2.IH" "2.prems" put by auto
qed

section \<open>The contract of a tenant's operation\<close>

text \<open>
  Every writing operation promises two things: it keeps the invariant, and it leaves what every
  other organisation owns as it was. The executions below use only this contract.
\<close>

locale tenant_op =
  fixes run :: "string \<Rightarrow> Store \<Rightarrow> Store"
  assumes keeps_wf: "store_wf s \<Longrightarrow> store_wf (run org s)"
    and frame: "org' \<noteq> org \<Longrightarrow> org_view org' (run org s) = org_view org' s"
begin

lemma frame_zone: "org' \<noteq> org \<Longrightarrow> zoneForOrg (run org s) org' name = zoneForOrg s org' name"
  by (simp add: zoneForOrg_view frame)

end

lemma CreateZone_store:
  "fst (snd (CreateZone uuid now s org name prov)) =
     (if map_of (s_zones s) (normZone name) = None then
        put_zone name \<lparr>zd_zone = \<lparr>z_ID = uuid, z_Name = normZone name, z_Org = org,
          z_Provider = prov, z_Status = ''active'',
          z_Nameservers = [''ns1.hanzo.ai.'', ''ns2.hanzo.ai.''], z_RecordCount = 0,
          z_DNSSECEnabled = False, z_CreatedAt = now, z_UpdatedAt = now\<rparr>, zd_records = []\<rparr> s
      else s)"
  by (auto simp: CreateZone_def Let_def put_zone_def split: option.splits)

interpretation create_zone: tenant_op "\<lambda>org s. fst (snd (CreateZone uuid now s org name prov))"
  for uuid now name prov
  by unfold_locales (auto simp: CreateZone_store intro!: put_zone_wf intro: put_zone_frame)

interpretation delete_zone: tenant_op "\<lambda>org s. fst (snd (DeleteZone s org name))"
  for name
proof unfold_locales
  show "store_wf s \<Longrightarrow> store_wf (fst (snd (DeleteZone s org name)))" for s org
    by (auto simp: DeleteZone_def Let_def store_wf_iff split: option.splits if_splits)
  show "org' \<noteq> org \<Longrightarrow> org_view org' (fst (snd (DeleteZone s org name))) = org_view org' s"
    for org' org s
    by (auto simp: DeleteZone_def Let_def zoneForOrg_Some org_view_def fun_eq_iff
        split: option.splits)
qed

text \<open>The operations on the records of a zone share one shape: look the zone up, write it back.\<close>

lemma put_record_wf:
  assumes "store_wf s" and "zoneForOrg s org zone = Some zd" and "record_ok rid r"
  shows "store_wf (put_zone zone (touch_zone now (map_put rid r (zd_records zd)) zd) s)"
    and "store_wf (put_zone zone (zd\<lparr>zd_records := map_put rid r (zd_records zd)\<rparr>) s)"
  using assms owned_zone_wf [OF assms(1,2)] by (auto intro!: put_zone_wf split: if_splits)

lemma del_record_wf:
  assumes "store_wf s" and "zoneForOrg s org zone = Some zd"
  shows "store_wf (put_zone zone (touch_zone now (map_del rid (zd_records zd)) zd) s)"
  using assms owned_zone_wf [OF assms(1,2)] by (auto intro!: put_zone_wf split: if_splits)

lemma record_op_frame:
  assumes "org' \<noteq> org" and "zoneForOrg s org zone = Some zd"
  shows "org_view org' (put_zone zone (touch_zone now recs zd) s) = org_view org' s"
    and "org_view org' (put_zone zone (zd\<lparr>zd_records := recs\<rparr>) s) = org_view org' s"
  using assms by (auto simp: zoneForOrg_Some intro!: put_zone_frame)

lemmas record_op_rules = put_record_wf del_record_wf record_op_frame

interpretation create_record: tenant_op
  "\<lambda>org s. fst (snd (CreateRecord uuid now s org zone name rtype ttl content prio proxied))"
  for uuid now zone name rtype ttl content prio proxied
  by unfold_locales
    (auto simp: CreateRecord_def Let_def record_ok_def split: option.splits
      intro!: record_op_rules)

interpretation put_mirror: tenant_op "\<lambda>org s. fst (snd (PutMirror now s org zone rec))"
  for now zone rec
  by unfold_locales
    (auto simp: PutMirror_def Let_def record_ok_def split: option.splits
      intro!: record_op_rules)

interpretation drop_mirror: tenant_op "\<lambda>org s. fst (DropMirror now s org zone rid)"
  for now zone rid
  by unfold_locales
    (auto simp: DropMirror_def split: option.splits intro!: record_op_rules)

interpretation delete_record: tenant_op "\<lambda>org s. fst (snd (DeleteRecord now s org zone rid))"
  for now zone rid
  by unfold_locales
    (auto simp: DeleteRecord_def split: option.splits intro!: record_op_rules)

lemma record_ok_update:
  assumes "record_ok rid r" and "\<not> (case t of Some t \<Rightarrow> \<not> ValidRecordTypes t | None \<Rightarrow> False)"
  shows "ValidRecordTypes (opt_set t (r_Type r))"
  using assms by (auto simp: record_ok_def opt_set_def split: option.splits)

interpretation update_record: tenant_op
  "\<lambda>org s. fst (snd (UpdateRecord now s org zone rid patch))"
  for now zone rid patch
proof unfold_locales
  fix s org
  assume wf: "store_wf s"
  show "store_wf (fst (snd (UpdateRecord now s org zone rid patch)))"
  proof (cases "zoneForOrg s org zone")
    case None
    with wf show ?thesis by (simp add: UpdateRecord_def)
  next
    case (Some zd)
    note zd = Some
    show ?thesis
    proof (cases "map_of (zd_records zd) rid")
      case None
      with wf zd show ?thesis by (simp add: UpdateRecord_def)
    next
      case (Some r)
      have r: "record_ok rid r"
        by (rule owned_zone_wf(3) [OF wf zd Some])
      then have "record_ok rid (r\<lparr>r_Name := nm\<rparr>)" for nm
        by (simp add: record_ok_def)
      then show ?thesis
        using wf zd Some r
        by (auto simp: UpdateRecord_def Let_def record_ok_update [OF r]
            intro!: put_record_wf) (simp_all add: record_ok_def record_ok_update [OF r])
    qed
  qed
next
  fix org' org s
  assume "org' \<noteq> (org :: string)"
  then show "org_view org' (fst (snd (UpdateRecord now s org zone rid patch))) = org_view org' s"
    by (auto simp: UpdateRecord_def Let_def split: option.splits if_splits intro!: record_op_frame)
qed

interpretation bulk_sync: tenant_op
  "\<lambda>org s. fst (snd (BulkSync zuuid uuids now s org req))"
  for zuuid uuids now req
proof unfold_locales
  fix s org
  assume wf: "store_wf s"
  have recs: "map_ok (sync_records now uuids (sz_Records req) [])"
    "map_of (sync_records now uuids (sz_Records req) []) rid = Some r \<Longrightarrow> record_ok rid r" for rid r
    using sync_records_ok [of "[]"] by auto
  have "z_Name (zd_zone zd) = normZone (sz_Zone req)"
    if "map_of (s_zones s) (normZone (sz_Zone req)) = Some zd" for zd
    using wf that by (auto simp: store_wf_iff zone_ok_iff)
  with wf recs show "store_wf (fst (snd (BulkSync zuuid uuids now s org req)))"
    by (auto simp: BulkSync_def Let_def intro!: put_zone_wf split: option.splits)
next
  fix org' org s
  assume "org' \<noteq> (org :: string)"
  then show "org_view org' (fst (snd (BulkSync zuuid uuids now s org req))) = org_view org' s"
    by (auto simp: BulkSync_def Let_def intro!: put_zone_frame split: option.splits)
qed

lemma exec_op_wf: "store_wf s \<Longrightarrow> store_wf (fst (exec_op org c s))"
  by (cases c)
    (auto intro: create_zone.keeps_wf delete_zone.keeps_wf create_record.keeps_wf
      put_mirror.keeps_wf drop_mirror.keeps_wf update_record.keeps_wf delete_record.keeps_wf
      bulk_sync.keeps_wf)

lemma exec_op_frame: "org' \<noteq> org \<Longrightarrow> org_view org' (fst (exec_op org c s)) = org_view org' s"
  by (cases c)
    (simp_all add: create_zone.frame delete_zone.frame create_record.frame put_mirror.frame
      drop_mirror.frame update_record.frame delete_record.frame bulk_sync.frame)

lemma exec_ops_wf: "store_wf s \<Longrightarrow> store_wf (exec_ops cs s)"
  by (induction cs s rule: exec_ops.induct) (auto intro: exec_op_wf)

lemma NewStore_wf: "store_wf NewStore"
  by (simp add: NewStore_def store_wf_def)

lemma exec_ops_frame:
  assumes "\<forall>(caller, c) \<in> set cs. caller \<noteq> org"
  shows "org_view org (exec_ops cs s) = org_view org s"
  using assms
proof (induction cs s rule: exec_ops.induct)
  case (1 s)
  then show ?case by simp
next
  case (2 caller c cs s)
  then have "org_view org (exec_ops cs (fst (exec_op caller c s)))
      = org_view org (fst (exec_op caller c s))"
    by (intro "2.IH") auto
  also have "\<dots> = org_view org s"
    using "2.prems" by (intro exec_op_frame) auto
  finally show ?case by simp
qed

section \<open>Properties\<close>

text \<open>C28: In every execution of the store from empty, by any callers, the zone names are distinct
  and normalised, each zone carries its own key as name, the record ids of a zone are distinct
  and equal to the ids inside the records, and every stored record has a supported type.\<close>

theorem store_execution_wf: "store_wf (exec_ops cs NewStore)"
  by (rule exec_ops_wf [OF NewStore_wf])

text \<open>C29: Tenant isolation for writes. Whatever sequence of operations the other organisations
  run, the zones and records an organisation owns stay exactly as they were.\<close>

theorem tenant_write_isolation:
  assumes "\<forall>(caller, c) \<in> set cs. caller \<noteq> org"
  shows "org_view org (exec_ops cs s) = org_view org s"
  by (rule exec_ops_frame [OF assms])

theorem tenant_write_isolation_witness:
  "org_view ''b'' (exec_ops [(''a'', DoDeleteZone ''example.org''),
       (''a'', DoCreateZone ''u2'' 6 ''example.org'' ''authoritative'')]
     (exec_ops [(''b'', DoCreateZone ''u1'' 5 ''Example.ORG'' ''authoritative'')] NewStore))
   = org_view ''b''
       (exec_ops [(''b'', DoCreateZone ''u1'' 5 ''Example.ORG'' ''authoritative'')] NewStore)"
  by (rule tenant_write_isolation) simp



text \<open>A created record is stored: reading it back by its id gives exactly the record the call
  returned, reads of the other ids of the zone are unaffected, the zone's modification time is
  the creation time, and the snapshot hook is called.\<close>

theorem create_then_get:
  assumes "CreateRecord uuid now s org zone name rtype ttl content prio proxied = (Inr r, s', b)"
  shows "GetRecord s' org zone uuid = Inr r \<and> b
    \<and> (\<forall>j. j \<noteq> uuid \<longrightarrow> GetRecord s' org zone j = GetRecord s org zone j)
    \<and> map_option z_UpdatedAt (GetZone s' org zone) = Some now"
  using assms
  by (auto simp: CreateRecord_def GetRecord_def GetZone_def zone_view_def zoneForOrg_def Let_def
      touch_zone_def split: if_splits option.splits)

definition example_store :: Store where
  "example_store = exec_ops
     [(''a'', DoCreateZone ''z1'' 1 ''Example.com'' ''authoritative''),
      (''b'', DoCreateZone ''z2'' 2 ''notexample.com'' ''authoritative''),
      (''a'', DoCreateRecord ''r1'' 3 ''example.com'' ''www'' ''A'' 300 ''192.0.2.1'' 0 False)]
     NewStore"

theorem create_then_get_witness:
  "\<exists>r s'. CreateRecord ''r2'' 9 example_store ''a'' ''example.com.'' ''mail'' ''A'' 60
             ''192.0.2.7'' 0 False = (Inr r, s', True)
     \<and> GetRecord s' ''a'' ''example.com.'' ''r2'' = Inr r"
proof -
  let ?c = "CreateRecord ''r2'' 9 example_store ''a'' ''example.com.'' ''mail'' ''A'' 60
             ''192.0.2.7'' 0 False"
  have "\<not> isl (fst ?c)" by code_simp
  then obtain r s' b where c: "?c = (Inr r, s', b)"
    using triple_Inr by blast
  from create_then_get [OF c] have "GetRecord s' ''a'' ''example.com.'' ''r2'' = Inr r" and "b"
    by simp_all
  then show ?thesis using c by (intro exI [of _ r] exI [of _ s'] conjI) simp_all
qed

text \<open>A partial update changes exactly the fields the patch sets. On success the stored record
  is the old one with the patched fields, its id and creation time are kept, and both it and
  its zone carry the new modification time.\<close>

theorem update_applies_patch:
  assumes "GetRecord s org zone rid = Inr r"
    and "UpdateRecord now s org zone rid patch = (Inr r', s', b)"
  shows "b \<and> GetRecord s' org zone rid = Inr r'
    \<and> r' = r\<lparr>r_Name := opt_set (p_Name patch) (r_Name r),
             r_Type := opt_set (p_Type patch) (r_Type r),
             r_TTL := opt_set (p_TTL patch) (r_TTL r),
             r_Content := opt_set (p_Content patch) (r_Content r),
             r_Priority := opt_set (p_Priority patch) (r_Priority r),
             r_Proxied := opt_set (p_Proxied patch) (r_Proxied r),
             r_UpdatedAt := now\<rparr>
    \<and> (\<forall>j. j \<noteq> rid \<longrightarrow> GetRecord s' org zone j = GetRecord s org zone j)
    \<and> map_option z_UpdatedAt (GetZone s' org zone) = Some now"
  using assms
  by (auto simp: UpdateRecord_def GetRecord_def GetZone_def zone_view_def zoneForOrg_def Let_def
      touch_zone_def split: if_splits option.splits)

definition patch_name_type :: "string \<Rightarrow> string \<Rightarrow> RecordPatch" where
  "patch_name_type n t =
     \<lparr>p_Name = Some n, p_Type = Some t, p_TTL = None, p_Content = None, p_Priority = None,
      p_Proxied = None\<rparr>"

theorem update_applies_patch_witness:
  "\<exists>r r' s'. GetRecord example_store ''a'' ''example.com'' ''r1'' = Inr r
     \<and> UpdateRecord 7 example_store ''a'' ''example.com'' ''r1'' (patch_name_type ''web'' ''TXT'')
         = (Inr r', s', True)
     \<and> GetRecord s' ''a'' ''example.com'' ''r1'' = Inr r' \<and> r_CreatedAt r' = r_CreatedAt r"
proof -
  let ?u = "UpdateRecord 7 example_store ''a'' ''example.com'' ''r1'' (patch_name_type ''web'' ''TXT'')"
  have "\<not> isl (fst ?u)" "\<not> isl (GetRecord example_store ''a'' ''example.com'' ''r1'')"
    by code_simp+
  then obtain r r' s' b where r: "GetRecord example_store ''a'' ''example.com'' ''r1'' = Inr r"
      and u: "?u = (Inr r', s', b)"
    using not_isl_Inr triple_Inr by blast
  from update_applies_patch [OF r u] have "r_CreatedAt r' = r_CreatedAt r" and "b"
      and "GetRecord s' ''a'' ''example.com'' ''r1'' = Inr r'"
    by auto
  then show ?thesis using r u by (intro exI [of _ r] exI [of _ r'] exI [of _ s'] conjI) simp_all
qed

text \<open>An update refused for its record type is not without effect: the name of the stored
  record has already been overwritten, the modification times have not moved and the snapshot
  hook is not called. Here the rejected patch renames the record to \<open>web\<close> all the same.\<close>

theorem rejected_update_renames:
  "fst (UpdateRecord 7 example_store ''a'' ''example.com'' ''r1'' (patch_name_type ''web'' ''BAD''))
     = Inl (InvalidRecordType ''BAD'')
   \<and> snd (snd (UpdateRecord 7 example_store ''a'' ''example.com'' ''r1''
        (patch_name_type ''web'' ''BAD''))) = False
   \<and> map_sum id r_Name (GetRecord example_store ''a'' ''example.com'' ''r1'') = Inr ''www''
   \<and> map_sum id r_Name (GetRecord
        (fst (snd (UpdateRecord 7 example_store ''a'' ''example.com'' ''r1''
          (patch_name_type ''web'' ''BAD'')))) ''a'' ''example.com'' ''r1'') = Inr ''web''"
  by code_simp

text \<open>The snapshot hook and the changes of the store agree, but for one operation. An operation
  that does not call the hook leaves the store as it is, unless it is an update refused for its
  record type; and an operation that calls the hook has succeeded, unless it is a bulk
  synchronisation of a zone that another organisation owns, which changes nothing.\<close>

theorem notify_agrees_with_change:
  assumes "exec_op org c s = (s', b)"
  shows "(\<not> b \<and> s' \<noteq> s \<longrightarrow>
       (\<exists>now zone rid patch t. c = DoUpdateRecord now zone rid patch \<and> p_Type patch = Some t
          \<and> op_error org c s = Some (InvalidRecordType t)))
    \<and> (b \<and> op_error org c s = Some e \<longrightarrow>
       (\<exists>zuuid uuids now req. c = DoBulkSync zuuid uuids now req
          \<and> e = ZoneExists (normZone (sz_Zone req)) \<and> s' = s))"
proof (cases c)
  case (DoUpdateRecord now zone rid patch)
  then show ?thesis
    using assms
    by (auto simp: UpdateRecord_def Let_def err_of_def split: option.splits if_splits)
next
  case (DoBulkSync zuuid uuids now req)
  then show ?thesis
    using assms
    by (auto simp: BulkSync_def Let_def err_of_def split: option.splits if_splits)
next
  case (DoCreateZone uuid now name prov)
  then show ?thesis
    using assms by (auto simp: CreateZone_def Let_def err_of_def split: option.splits)
next
  case (DoDeleteZone name)
  then show ?thesis
    using assms by (auto simp: DeleteZone_def Let_def err_of_def split: option.splits)
next
  case (DoCreateRecord uuid now zone name rtype ttl content prio proxied)
  then show ?thesis
    using assms
    by (auto simp: CreateRecord_def Let_def err_of_def split: option.splits if_splits)
next
  case (DoPutMirror now zone rec)
  then show ?thesis
    using assms by (auto simp: PutMirror_def Let_def err_of_def split: option.splits if_splits)
next
  case (DoDropMirror now zone rid)
  then show ?thesis
    using assms by (auto simp: DropMirror_def split: option.splits)
next
  case (DoDeleteRecord now zone rid)
  then show ?thesis
    using assms by (auto simp: DeleteRecord_def err_of_def split: option.splits)
qed

theorem notify_agrees_with_change_witness:
  "exec_op ''b'' (DoDeleteZone ''example.com'') example_store = (example_store, False)"
proof -
  let ?e = "exec_op ''b'' (DoDeleteZone ''example.com'') example_store"
  obtain s' b where e: "?e = (s', b)" by (cases ?e)
  have "snd ?e = False" by code_simp
  with e have "\<not> b" by (metis snd_conv)
  moreover from this have "s' = example_store"
    using conjunct1 [OF notify_agrees_with_change [OF e]] by blast
  ultimately show ?thesis using e by metis
qed

lemma sync_records_from_request:
  assumes "map_of (sync_records now uuids srs acc) rid = Some r"
  shows "map_of acc rid = Some r
    \<or> (\<exists>sr \<in> set srs. ValidRecordTypes (sr_Type sr) \<and> r = sync_record now rid sr
         \<and> (sr_ID sr = rid \<or> sr_ID sr = '''' \<and> rid \<in> range uuids))"
  using assms
proof (induction now uuids srs acc rule: sync_records.induct)
  case (1 now uuids acc)
  then show ?case by simp
next
  case (2 now uuids sr srs acc)
  show ?case
  proof (cases "ValidRecordTypes (sr_Type sr) \<and> sr_ID sr = ''''")
    case True
    with 2 have "map_of (map_put (uuids 0) (sync_record now (uuids 0) sr) acc) rid = Some r
      \<or> (\<exists>sr \<in> set srs. ValidRecordTypes (sr_Type sr) \<and> r = sync_record now rid sr
           \<and> (sr_ID sr = rid \<or> sr_ID sr = '''' \<and> rid \<in> range (\<lambda>n. uuids (Suc n))))"
      by (intro "2.IH"(2)) auto
    moreover have "rid \<in> range (\<lambda>n. uuids (Suc n)) \<Longrightarrow> rid \<in> range uuids"
      by blast
    ultimately show ?thesis
      using True by (fastforce split: if_splits)
  next
    case False
    with 2 show ?thesis by (auto split: if_splits)
  qed
qed

lemma sync_records_keeps: "map_of acc rid \<noteq> None \<Longrightarrow> map_of (sync_records now uuids srs acc) rid \<noteq> None"
  by (induction now uuids srs acc rule: sync_records.induct) auto

lemma sync_records_stores:
  "sr \<in> set srs \<Longrightarrow> ValidRecordTypes (sr_Type sr) \<Longrightarrow> sr_ID sr \<noteq> '''' \<Longrightarrow>
     map_of (sync_records now uuids srs acc) (sr_ID sr) \<noteq> None"
proof (induction now uuids srs acc rule: sync_records.induct)
  case (1 now uuids acc)
  then show ?case by simp
next
  case (2 now uuids s srs acc)
  show ?case
  proof (cases "sr = s")
    case True
    with "2.prems" show ?thesis
      using sync_records_keeps [of "map_put (sr_ID s) (sync_record now (sr_ID s) s) acc" "sr_ID s"]
      by simp
  next
    case False
    with 2 show ?thesis by auto
  qed
qed

lemma BulkSync_success:
  assumes "BulkSync zuuid uuids now s org req = (Inr resp, s', b)"
  obtains zd where "zoneForOrg s' org (sz_Zone req) = Some zd"
    and "zd_records zd = sync_records now uuids (sz_Records req) []"
    and "sy_RecordCount resp = length (zd_records zd)" and "sy_Created resp = length (zd_records zd)"
    and "sy_Deleted resp = (case zoneForOrg s org (sz_Zone req) of
           None \<Rightarrow> 0 | Some zd0 \<Rightarrow> length (zd_records zd0))"
  using assms
  by (auto simp: BulkSync_def Let_def zoneForOrg_def split: option.splits if_splits)


definition example_sync :: SyncZoneRequest where
  "example_sync = \<lparr>sz_Zone = ''example.com'', sz_Records =
     [\<lparr>sr_ID = ''k1'', sr_Name = ''@'', sr_Type = ''A'', sr_TTL = 0, sr_Content = ''192.0.2.9'',
       sr_Priority = 0, sr_Proxied = False\<rparr>,
      \<lparr>sr_ID = '''', sr_Name = ''@'', sr_Type = ''BOGUS'', sr_TTL = 0, sr_Content = ''x'',
       sr_Priority = 0, sr_Proxied = False\<rparr>]\<rparr>"


lemma Lookup_mem:
  "r \<in> set (Lookup s qname qtype) \<longleftrightarrow>
     (\<exists>k zd rid. (k, zd) \<in> set (s_zones s) \<and> (rid, r) \<in> set (zd_records zd)
        \<and> HasSuffix (ToLower qname) k \<and> ToLower (fqdn (r_Name r) k) = ToLower qname
        \<and> r_Type r = qtype)"
  by (force simp: Lookup_def Let_def split: if_splits)

lemma fqdn_relative:
  assumes "\<not> HasSuffix name ''.''" and "ToLower k = k" and "ToLower (fqdn name k) = q"
  shows "q = k \<or> HasSuffix q (''.'' @ k)"
proof (cases "name = ''@'' \<or> name = ''''")
  case True
  with assms show ?thesis by (auto simp: fqdn_def)
next
  case False
  with assms have "q = ToLower name @ ''.'' @ k"
    by (auto simp: fqdn_def) (simp add: ToLower_def lower_char_def)
  then show ?thesis by (metis HasSuffix_append)
qed

lemma Lookup_iff:
  assumes "store_wf s"
  shows "r \<in> set (Lookup s qname qtype) \<longleftrightarrow>
      (\<exists>k zd rid. map_of (s_zones s) k = Some zd \<and> map_of (zd_records zd) rid = Some r
         \<and> HasSuffix (ToLower qname) k \<and> ToLower (fqdn (r_Name r) k) = ToLower qname
         \<and> r_Type r = qtype)"
proof -
  have ok: "map_ok (s_zones s)"
    and rok: "map_of (s_zones s) k = Some zd \<Longrightarrow> map_ok (zd_records zd)" for k zd
    using assms by (auto simp: store_wf_iff zone_ok_iff)
  show ?thesis
    unfolding Lookup_mem using map_ok_lookup [OF ok] map_ok_lookup [OF rok] by blast
qed

text \<open>The lookup that answers queries returns exactly the records of the store whose full name,
  compared without case, is the query name and whose type is the query type, among the zones whose
  name is a suffix of the query name as a string; and a record with a relative name is only
  returned for its zone's name or a name below it at a label boundary.\<close>

theorem lookup_exact:
  assumes "store_wf s"
  shows "(r \<in> set (Lookup s qname qtype) \<longleftrightarrow>
      (\<exists>k zd rid. map_of (s_zones s) k = Some zd \<and> map_of (zd_records zd) rid = Some r
         \<and> HasSuffix (ToLower qname) k \<and> ToLower (fqdn (r_Name r) k) = ToLower qname
         \<and> r_Type r = qtype))
    \<and> (r \<in> set (Lookup s qname qtype) \<and> \<not> HasSuffix (r_Name r) ''.'' \<longrightarrow>
      (\<exists>k zd rid. map_of (s_zones s) k = Some zd \<and> map_of (zd_records zd) rid = Some r
         \<and> (ToLower qname = k \<or> HasSuffix (ToLower qname) (''.'' @ k))))"
proof (intro conjI impI)
  show "r \<in> set (Lookup s qname qtype) \<longleftrightarrow>
      (\<exists>k zd rid. map_of (s_zones s) k = Some zd \<and> map_of (zd_records zd) rid = Some r
         \<and> HasSuffix (ToLower qname) k \<and> ToLower (fqdn (r_Name r) k) = ToLower qname
         \<and> r_Type r = qtype)"
    by (rule Lookup_iff [OF assms])
next
  assume "r \<in> set (Lookup s qname qtype) \<and> \<not> HasSuffix (r_Name r) ''.''"
  then obtain k zd rid where rel: "\<not> HasSuffix (r_Name r) ''.''"
      and k: "map_of (s_zones s) k = Some zd" and r: "map_of (zd_records zd) rid = Some r"
      and q: "ToLower (fqdn (r_Name r) k) = ToLower qname"
    by (auto simp: Lookup_iff [OF assms])
  have "ToLower k = k"
    using assms k normZone_lower [of k] by (simp add: store_wf_iff zone_ok_iff)
  from fqdn_relative [OF rel this q] k r
  show "\<exists>k zd rid. map_of (s_zones s) k = Some zd \<and> map_of (zd_records zd) rid = Some r
         \<and> (ToLower qname = k \<or> HasSuffix (ToLower qname) (''.'' @ k))" by blast
qed

theorem lookup_exact_witness:
  "\<exists>r. r \<in> set (Lookup example_store ''WWW.Example.com.'' ''A'') \<and> r_Content r = ''192.0.2.1''
     \<and> (\<exists>k zd. map_of (s_zones example_store) k = Some zd
          \<and> HasSuffix (ToLower ''WWW.Example.com.'') k)"
proof -
  have wf: "store_wf example_store"
    unfolding example_store_def by (rule exec_ops_wf [OF NewStore_wf])
  have "list_ex (\<lambda>r. r_Content r = ''192.0.2.1'') (Lookup example_store ''WWW.Example.com.'' ''A'')"
    by code_simp
  then obtain r where r: "r \<in> set (Lookup example_store ''WWW.Example.com.'' ''A'')"
      and "r_Content r = ''192.0.2.1''"
    unfolding list_ex_iff by blast
  moreover from r conjunct1 [OF lookup_exact [OF wf]]
  have "\<exists>k zd. map_of (s_zones example_store) k = Some zd
          \<and> HasSuffix (ToLower ''WWW.Example.com.'') k" by blast
  ultimately show ?thesis by blast
qed

definition hijack_store :: Store where
  "hijack_store = fst (exec_op ''a'' (DoCreateRecord ''r2'' 4 ''example.com''
     ''www.notexample.com.'' ''A'' 300 ''203.0.113.66'' 0 False) example_store)"

text \<open>Names of records are not confined to their zone. The organisation \<open>a\<close>, which owns
  \<open>example.com.\<close>, stores a record under the absolute name \<open>www.notexample.com.\<close>; queries for that
  name, which lies in the zone \<open>notexample.com.\<close> of the organisation \<open>b\<close>, are answered with it,
  although \<open>b\<close> has stored nothing.\<close>

theorem lookup_crosses_tenants:
  "map_option z_Org (GetZone hijack_store ''b'' ''notexample.com.'') = Some ''b''
   \<and> ListRecords hijack_store ''b'' ''notexample.com.'' = Inr []
   \<and> map r_Content (Lookup hijack_store ''www.notexample.com.'' ''A'') = [''203.0.113.66'']
   \<and> GetZone hijack_store ''a'' ''notexample.com.'' = None"
  by code_simp

end
