(* ===== verification/Hanzo_Snapshot.thy ===== *)
theory Hanzo_Snapshot
  imports Hanzo_Store
begin

text \<open>
  The durable snapshot of the store, \<^verbatim>\<open>store_snapshot.go\<close>: export and import of the whole
  store, and the snapshot file with its temporary sibling.

  The JSON text of a snapshot is represented by the snapshot itself; a file that was only partly
  written is \<open>Torn\<close>, and parsing it fails. The outcome of the system calls of one \<^verbatim>\<open>save\<close>,
  including a crash of the process between them, is an argument.
\<close>

section \<open>Export and import\<close>

record snapshotZone =
  sn_Zone :: Zone
  sn_Records :: "Record list"

record snapshotState =
  sn_Zones :: "snapshotZone list"

definition snapshot_zone :: "zoneData \<Rightarrow> snapshotZone" where
  "snapshot_zone zd =
     \<lparr>sn_Zone = zd_zone zd, sn_Records = sort_key r_ID (map snd (zd_records zd))\<rparr>"

definition Export :: "Store \<Rightarrow> snapshotState" where
  "Export s =
     \<lparr>sn_Zones = map (\<lambda>name. snapshot_zone (the (map_of (s_zones s) name)))
                   (sort (map fst (s_zones s)))\<rparr>"

fun import_records :: "Record list \<Rightarrow> (string, Record) gomap \<Rightarrow> (string, Record) gomap" where
  "import_records [] m = m"
| "import_records (r # rs) m = import_records rs (map_put (r_ID r) r m)"

definition import_zone :: "snapshotZone \<Rightarrow> zoneData" where
  "import_zone sz =
     (let z = (sn_Zone sz)\<lparr>z_Name := normZone (z_Name (sn_Zone sz))\<rparr>
      in \<lparr>zd_zone = (if z_Provider z = '''' then z\<lparr>z_Provider := ProviderAuthoritative\<rparr> else z),
          zd_records = import_records (sn_Records sz) []\<rparr>)"

fun import_zones :: "snapshotZone list \<Rightarrow> (string, zoneData) gomap \<Rightarrow> (string, zoneData) gomap" where
  "import_zones [] m = m"
| "import_zones (sz # szs) m =
     import_zones szs (map_put (normZone (z_Name (sn_Zone sz))) (import_zone sz) m)"

definition Import :: "snapshotState \<Rightarrow> Store \<Rightarrow> Store" where
  "Import st s = s\<lparr>s_zones := import_zones (sn_Zones st) []\<rparr>"

section \<open>The snapshot file\<close>

datatype state_file = Snapshot snapshotState | Torn

record disk =
  d_state :: "state_file option"
  d_tmp :: "state_file option"

datatype io =
    SaveCompletes
  | MarshalFails
  | WriteFails
  | RenameFails
  | CrashInWrite
  | CrashBeforeRename

fun save :: "io \<Rightarrow> Store \<Rightarrow> disk \<Rightarrow> disk" where
  "save SaveCompletes s d = \<lparr>d_state = Some (Snapshot (Export s)), d_tmp = None\<rparr>"
| "save MarshalFails s d = d"
| "save WriteFails s d = d\<lparr>d_tmp := Some Torn\<rparr>"
| "save RenameFails s d = d\<lparr>d_tmp := None\<rparr>"
| "save CrashInWrite s d = d\<lparr>d_tmp := Some Torn\<rparr>"
| "save CrashBeforeRename s d = d\<lparr>d_tmp := Some (Snapshot (Export s))\<rparr>"

datatype snapshot_error = ReadSnapshot | ParseSnapshot | CreateStateDir

text \<open>\<^verbatim>\<open>load\<close>, with \<open>readable\<close> telling whether the operating system lets the file be read.\<close>

definition load :: "bool \<Rightarrow> disk \<Rightarrow> Store \<Rightarrow> snapshot_error + Store" where
  "load readable d s =
     (case d_state d of
        None \<Rightarrow> Inr s
      | Some f \<Rightarrow>
          if \<not> readable then Inl ReadSnapshot
          else (case f of Torn \<Rightarrow> Inl ParseSnapshot | Snapshot st \<Rightarrow> Inr (Import st s)))"

definition EnableSnapshot ::
  "bool \<Rightarrow> bool \<Rightarrow> disk \<Rightarrow> Store \<Rightarrow> string \<Rightarrow> snapshot_error + Store" where
  "EnableSnapshot mkdir_ok readable d s dir =
     (if dir = '''' then Inr s
      else if \<not> mkdir_ok then Inl CreateStateDir
      else case load readable d s of
        Inl e \<Rightarrow> Inl e
      | Inr s' \<Rightarrow> Inr (s'\<lparr>s_onChange := True\<rparr>))"

text \<open>
  The running plugin: the store in memory and the files. \<open>notify\<close> is the hook call that
  ends a writing operation.
\<close>

record node =
  n_mem :: Store
  n_disk :: disk

definition notify :: "io \<Rightarrow> node \<Rightarrow> node" where
  "notify i n = (if s_onChange (n_mem n) then n\<lparr>n_disk := save i (n_mem n) (n_disk n)\<rparr> else n)"

definition run_op :: "string \<Rightarrow> store_op \<Rightarrow> io \<Rightarrow> node \<Rightarrow> node" where
  "run_op org c i n =
     (let (s', b) = exec_op org c (n_mem n); n' = n\<lparr>n_mem := s'\<rparr>
      in if b then notify i n' else n')"

definition crashes :: "io \<Rightarrow> bool" where
  "crashes i \<longleftrightarrow> i = CrashInWrite \<or> i = CrashBeforeRename"

text \<open>
  A start of the plugin on the files a previous process left: a new store that
  \<open>EnableSnapshot\<close> fills and makes durable.
\<close>

definition restart :: "disk \<Rightarrow> snapshot_error + node" where
  "restart d =
     (case EnableSnapshot True True d NewStore ''state'' of
        Inl e \<Rightarrow> Inl e
      | Inr s \<Rightarrow> Inr \<lparr>n_mem = s, n_disk = d\<rparr>)"

text \<open>
  The life of a plugin over several processes: it serves operations whose save may fail, it is
  stopped and started, and it may crash in the middle of a save and be started again.
\<close>

inductive life :: "node \<Rightarrow> bool" where
  boot: "restart \<lparr>d_state = None, d_tmp = None\<rparr> = Inr n \<Longrightarrow> life n"
| serve: "life n \<Longrightarrow> \<not> crashes i \<Longrightarrow> life (run_op org c i n)"
| crash: "life n \<Longrightarrow> restart (n_disk (run_op org c i n)) = Inr n' \<Longrightarrow> life n'"
| stop: "life n \<Longrightarrow> restart (n_disk n) = Inr n' \<Longrightarrow> life n'"

section \<open>The content of a store\<close>

text \<open>
  Two stores have the same content when they map the same names to the same zones and the same
  ids to the same records, whatever orders their maps are visited in.
\<close>

definition zone_content :: "zoneData \<Rightarrow> Zone \<times> (string \<Rightarrow> Record option)" where
  "zone_content zd = (zd_zone zd, map_of (zd_records zd))"

definition content :: "Store \<Rightarrow> string \<Rightarrow> (Zone \<times> (string \<Rightarrow> Record option)) option" where
  "content s k = map_option zone_content (map_of (s_zones s) k)"

definition default_provider :: "Zone \<Rightarrow> Zone" where
  "default_provider z =
     (if z_Provider z = '''' then z\<lparr>z_Provider := ProviderAuthoritative\<rparr> else z)"

section \<open>Lemmas on export and import\<close>

lemma import_records_lookup:
  "map_of (import_records rs m) = map_of m ++ map_of (rev (map (\<lambda>r. (r_ID r, r)) rs))"
  by (induction rs arbitrary: m) (auto simp: map_add_assoc [symmetric])

lemma import_zones_lookup:
  "map_of (import_zones szs m) =
     map_of m ++ map_of (rev (map (\<lambda>sz. (normZone (z_Name (sn_Zone sz)), import_zone sz)) szs))"
  by (induction szs arbitrary: m) (auto simp: map_add_assoc [symmetric])

lemma import_records_ok: "map_ok m \<Longrightarrow> map_ok (import_records rs m)"
  by (induction rs arbitrary: m) auto

lemma import_zones_ok: "map_ok m \<Longrightarrow> map_ok (import_zones szs m)"
  by (induction szs arbitrary: m) auto

text \<open>Maps with the same entries in another order are the same map.\<close>

lemma map_of_same_entries:
  assumes "map_ok m" and "distinct (map fst n)" and "set m = set n"
  shows "map_of n = map_of m"
  using assms by (metis map_of_inject_set map_ok_def)

lemma snapshot_zone_records:
  assumes "zone_ok k zd"
  shows "map_of (zd_records (import_zone (snapshot_zone zd))) = map_of (zd_records zd)"
proof -
  let ?rs = "sn_Records (snapshot_zone zd)"
  let ?n = "rev (map (\<lambda>r. (r_ID r, r)) ?rs)"
  have ids: "\<forall>(rid, r) \<in> set (zd_records zd). r_ID r = rid" and ok: "map_ok (zd_records zd)"
    using assms by (auto simp: zone_ok_def list_all_iff record_ok_def)
  have "map r_ID (map snd (zd_records zd)) = map fst (zd_records zd)"
    using ids by auto
  with ok have "distinct (map r_ID (map snd (zd_records zd)))"
    by (simp only: map_ok_def)
  then have "distinct (map r_ID ?rs)"
    by (simp only: snapshot_zone_def snapshotZone.simps distinct_map_sort_key)
  then have "distinct (map fst ?n)"
    by (simp add: rev_map [symmetric] comp_def)
  moreover have "set ?n = set (zd_records zd)"
    using ids by (force simp: snapshot_zone_def)
  ultimately have "map_of ?n = map_of (zd_records zd)"
    using ok by (intro map_of_same_entries) auto
  then show ?thesis
    by (simp add: import_zone_def Let_def import_records_lookup)
qed

lemma import_zone_content:
  assumes "zone_ok k zd"
  shows "zone_content (import_zone (snapshot_zone zd)) =
    (default_provider (zd_zone zd), map_of (zd_records zd))"
  using snapshot_zone_records [OF assms] assms
  by (simp add: zone_content_def zone_ok_def import_zone_def snapshot_zone_def Let_def
      default_provider_def)

lemma exported_zones_lookup:
  assumes "store_wf s"
  shows "map_of (rev (map (\<lambda>sz. (normZone (z_Name (sn_Zone sz)), import_zone sz))
             (sn_Zones (Export s)))) k
    = map_option (\<lambda>zd. import_zone (snapshot_zone zd)) (map_of (s_zones s) k)"
proof -
  let ?ks = "sort (map fst (s_zones s))"
  let ?f = "\<lambda>name. import_zone (snapshot_zone (the (map_of (s_zones s) name)))"
  have ok: "map_ok (s_zones s)"
    and zok: "map_of (s_zones s) j = Some zd \<Longrightarrow> zone_ok j zd" for j zd
    using assms by (auto simp: store_wf_iff)
  have name: "normZone (z_Name (sn_Zone (snapshot_zone (the (map_of (s_zones s) j))))) = j"
    if "j \<in> set (map fst (s_zones s))" for j
    using that zok by (fastforce simp: zone_ok_def snapshot_zone_def dest: weak_map_of_SomeI)
  have "map (\<lambda>sz. (normZone (z_Name (sn_Zone sz)), import_zone sz)) (sn_Zones (Export s))
      = map (\<lambda>j. (j, ?f j)) ?ks"
    using name by (auto simp: Export_def)
  moreover have "distinct ?ks"
    using ok by (simp add: map_ok_def)
  ultimately have "map_of (rev (map (\<lambda>sz. (normZone (z_Name (sn_Zone sz)), import_zone sz))
      (sn_Zones (Export s)))) k = (if k \<in> set ?ks then Some (?f k) else None)"
    by (simp add: map_of_map_restrict rev_map restrict_map_def)
  also have "\<dots> = map_option (\<lambda>zd. import_zone (snapshot_zone zd)) (map_of (s_zones s) k)"
    by (auto simp: map_of_eq_None_iff split: option.splits dest: weak_map_of_SomeI)
  finally show ?thesis .
qed

lemma Import_Export_lookup:
  assumes "store_wf s"
  shows "map_of (s_zones (Import (Export s) t)) k
    = map_option (\<lambda>zd. import_zone (snapshot_zone zd)) (map_of (s_zones s) k)"
  using exported_zones_lookup [OF assms] by (simp add: Import_def import_zones_lookup)

lemma Import_Export_content:
  assumes "store_wf s"
  shows "content (Import (Export s) t) k = map_option (map_prod default_provider id) (content s k)"
proof -
  have "zone_content (import_zone (snapshot_zone zd)) = map_prod default_provider id (zone_content zd)"
    if "map_of (s_zones s) k = Some zd" for zd
    using assms that import_zone_content [of k zd] by (simp add: store_wf_iff zone_content_def [of zd])
  then show ?thesis
    by (cases "map_of (s_zones s) k")
      (simp_all add: content_def Import_Export_lookup [OF assms])
qed

lemma Import_Export_wf: "store_wf s \<Longrightarrow> store_wf (Import (Export s) t)"
proof -
  assume wf: "store_wf s"
  have "zone_ok k (import_zone (snapshot_zone zd))" if "map_of (s_zones s) k = Some zd" for k zd
  proof -
    have ok: "zone_ok k zd" using wf that by (simp add: store_wf_iff)
    then show ?thesis
      using snapshot_zone_records [OF ok]
      by (auto simp: zone_ok_iff import_zone_def snapshot_zone_def Let_def import_records_ok)
  qed
  with wf show ?thesis
    by (auto simp: store_wf_iff Import_Export_lookup) (simp add: Import_def import_zones_ok)
qed

lemma content_lookup:
  "map_of (s_zones s) k = None \<longleftrightarrow> content s k = None"
  "map_of (s_zones s) k = Some zd \<Longrightarrow> content s k = Some (zd_zone zd, map_of (zd_records zd))"
  by (auto simp: content_def zone_content_def)

lemma default_provider_simps [simp]:
  "z_Org (default_provider z) = z_Org z"
  "z_Name (default_provider z) = z_Name z"
  by (simp_all add: default_provider_def)

text \<open>What the interface of the store shows is determined by the content.\<close>

lemma GetRecord_content:
  "GetRecord s org zone rid =
     (case content s (normZone zone) of
        None \<Rightarrow> Inl (ZoneNotFound (normZone zone))
      | Some (z, m) \<Rightarrow>
          if z_Org z \<noteq> org then Inl (ZoneNotFound (normZone zone))
          else (case m rid of None \<Rightarrow> Inl (RecordNotFound rid) | Some r \<Rightarrow> Inr r))"
  by (auto simp: GetRecord_def zoneForOrg_def content_def zone_content_def split: option.splits)

lemma ZoneProvider_content:
  "ZoneProvider s org zone =
     (case content s (normZone zone) of
        None \<Rightarrow> None
      | Some (z, m) \<Rightarrow> if z_Org z \<noteq> org then None else Some (z_Provider (default_provider z)))"
  by (auto simp: ZoneProvider_def zoneForOrg_def content_def zone_content_def default_provider_def
      split: option.splits)

lemma Lookup_content:
  assumes "store_wf s"
  shows "r \<in> set (Lookup s qname qtype) \<longleftrightarrow>
    (\<exists>k z m rid. content s k = Some (z, m) \<and> m rid = Some r \<and> HasSuffix (ToLower qname) k
       \<and> ToLower (fqdn (r_Name r) k) = ToLower qname \<and> r_Type r = qtype)"
  unfolding Lookup_iff [OF assms] content_def zone_content_def by auto

section \<open>Properties\<close>

text \<open>C32: Exporting a store and importing the snapshot gives the content back. Every zone keeps its
  name, owner, times and records; the one difference is that a zone without a provider is
  marked as authoritative. No call can tell: records, providers and the answers to queries are the
  same before and after a restart, and the invariant holds again.\<close>

theorem import_export_roundtrip:
  assumes "store_wf s"
  shows "content (Import (Export s) t) = (\<lambda>k. map_option (map_prod default_provider id) (content s k))
    \<and> GetRecord (Import (Export s) t) org zone rid = GetRecord s org zone rid
    \<and> ZoneProvider (Import (Export s) t) org zone = ZoneProvider s org zone
    \<and> set (Lookup (Import (Export s) t) qname qtype) = set (Lookup s qname qtype)
    \<and> store_wf (Import (Export s) t)"
proof (intro conjI)
  let ?t = "Import (Export s) t"
  have c: "content ?t k = map_option (map_prod default_provider id) (content s k)" for k
    by (rule Import_Export_content [OF assms])
  then show "content ?t = (\<lambda>k. map_option (map_prod default_provider id) (content s k))"
    by (rule ext)
  show "GetRecord ?t org zone rid = GetRecord s org zone rid"
    by (auto simp: GetRecord_content c split: option.splits)
  show "ZoneProvider ?t org zone = ZoneProvider s org zone"
    by (auto simp: ZoneProvider_content c default_provider_def ProviderAuthoritative_def
        split: option.splits)
  show wf: "store_wf ?t"
    by (rule Import_Export_wf [OF assms])
  show "set (Lookup ?t qname qtype) = set (Lookup s qname qtype)"
    by (auto simp: set_eq_iff Lookup_content [OF wf] Lookup_content [OF assms] c)
qed

definition sample_store :: Store where
  "sample_store = fst (exec_op ''a'' (DoBulkSync ''z1'' (\<lambda>n. ''u'') 8 example_sync) NewStore)"

lemma sample_store_wf: "store_wf sample_store"
  unfolding sample_store_def by (rule exec_op_wf [OF NewStore_wf])

theorem import_export_roundtrip_witness:
  "ZoneProvider sample_store ''a'' ''example.com'' = Some ''authoritative''
   \<and> ZoneProvider (Import (Export sample_store) NewStore) ''a'' ''example.com''
       = Some ''authoritative''"
proof -
  have "ZoneProvider sample_store ''a'' ''example.com'' = Some ''authoritative''"
    by code_simp
  moreover have "ZoneProvider (Import (Export sample_store) NewStore) ''a'' ''example.com''
      = ZoneProvider sample_store ''a'' ''example.com''"
    using import_export_roundtrip [OF sample_store_wf] by blast
  ultimately show ?thesis by (simp only:)
qed

text \<open>The records of a zone as a map determine the exported list.\<close>

lemma snapshot_zone_determined:
  assumes "zone_ok k zd" and "zone_ok k' zd'" and "zone_content zd = zone_content zd'"
  shows "snapshot_zone zd = snapshot_zone zd'"
proof -
  have ms: "mset (zd_records zd) = mset (zd_records zd')"
    using assms by (intro map_ok_same_mset) (auto simp: zone_ok_def zone_content_def)
  have "map r_ID (map snd (zd_records zd)) = map fst (zd_records zd)"
    using assms(1) by (auto simp: zone_ok_def list_all_iff record_ok_def)
  then have "distinct (map r_ID (map snd (zd_records zd)))"
    using assms(1) by (simp only: zone_ok_def map_ok_def)
  then have "sort_key r_ID (map snd (zd_records zd)) = sort_key r_ID (map snd (zd_records zd'))"
    using ms by (intro sort_key_same_mset) simp_all
  with assms(3) show ?thesis
    by (simp add: snapshot_zone_def zone_content_def)
qed

lemma content_keys:
  assumes "map_ok (s_zones s)" and "map_ok (s_zones t)" and "content s = content t"
  shows "sort (map fst (s_zones s)) = sort (map fst (s_zones t))"
proof -
  have "dom (map_of (s_zones s)) = dom (map_of (s_zones t))"
    using content_lookup(1) [of s] content_lookup(1) [of t] assms(3) unfolding dom_def by metis
  then have "set (map fst (s_zones s)) = set (map fst (s_zones t))"
    by (simp add: dom_map_of_conv_image_fst)
  then have "mset (map fst (s_zones s)) = mset (map fst (s_zones t))"
    using assms(1,2) set_eq_iff_mset_eq_distinct unfolding map_ok_def by blast
  then show ?thesis
    using assms(1) by (intro sort_key_same_mset) (auto simp: map_ok_def)
qed

text \<open>The exported snapshot is canonical. Two stores with the same content export the very same
  snapshot, in the same order of zones and records, although the maps they are read from may be
  visited in different orders.\<close>

theorem export_canonical:
  assumes "store_wf s" and "store_wf t" and "content s = content t"
  shows "Export s = Export t"
proof -
  have keys: "sort (map fst (s_zones s)) = sort (map fst (s_zones t))"
    using assms by (intro content_keys) (auto simp: store_wf_iff)
  have "snapshot_zone (the (map_of (s_zones s) k)) = snapshot_zone (the (map_of (s_zones t) k))"
    if "k \<in> set (sort (map fst (s_zones s)))" for k
  proof -
    have "map_of (s_zones s) k \<noteq> None"
      using that by (simp add: map_of_eq_None_iff)
    then obtain zd where zd: "map_of (s_zones s) k = Some zd" by blast
    with assms(3) obtain zd' where zd': "map_of (s_zones t) k = Some zd'"
      by (metis content_lookup(1) not_None_eq)
    have "zone_content zd = zone_content zd'"
      using assms(3) zd zd' by (auto simp: content_def dest: fun_cong [of _ _ k])
    then have "snapshot_zone zd = snapshot_zone zd'"
      using assms(1,2) zd zd' by (intro snapshot_zone_determined) (auto simp: store_wf_iff)
    with zd zd' show ?thesis by simp
  qed
  with keys show ?thesis
    by (simp add: Export_def)
qed

text \<open>A zone with two records, and the same zone with its records in the other order.\<close>

definition two_records :: "SyncRecord list \<Rightarrow> Store" where
  "two_records rs = fst (exec_op ''a'' (DoBulkSync ''z1'' (\<lambda>n. ''u'') 8
     \<lparr>sz_Zone = ''example.com'', sz_Records = rs\<rparr>) NewStore)"

definition sync_a :: "string \<Rightarrow> SyncRecord" where
  "sync_a i = \<lparr>sr_ID = i, sr_Name = i, sr_Type = ''A'', sr_TTL = 0, sr_Content = ''192.0.2.9'',
     sr_Priority = 0, sr_Proxied = False\<rparr>"

theorem export_canonical_witness:
  "s_zones (two_records [sync_a ''x'', sync_a ''y'']) \<noteq> s_zones (two_records [sync_a ''y'', sync_a ''x''])
   \<and> Export (two_records [sync_a ''x'', sync_a ''y''])
       = Export (two_records [sync_a ''y'', sync_a ''x''])"
proof
  show "s_zones (two_records [sync_a ''x'', sync_a ''y''])
      \<noteq> s_zones (two_records [sync_a ''y'', sync_a ''x''])"
    by code_simp
  show "Export (two_records [sync_a ''x'', sync_a ''y''])
      = Export (two_records [sync_a ''y'', sync_a ''x''])"
  proof (rule export_canonical)
    show "store_wf (two_records rs)" for rs
      unfolding two_records_def by (rule exec_op_wf [OF NewStore_wf])
    then show "store_wf (two_records rs)" for rs .
    show "content (two_records [sync_a ''x'', sync_a ''y''])
        = content (two_records [sync_a ''y'', sync_a ''x''])"
      by (simp add: two_records_def BulkSync_def NewStore_def sync_a_def ValidRecordTypes_def
          content_def zone_content_def fun_eq_iff Let_def sync_record_def put_zone_def touch_zone_def)
  qed
qed

section \<open>Crashes and restarts\<close>

lemma exec_op_onChange: "s_onChange (fst (exec_op org c s)) = s_onChange s"
  by (cases c)
    (auto simp: CreateZone_def DeleteZone_def CreateRecord_def PutMirror_def DropMirror_def
      UpdateRecord_def DeleteRecord_def BulkSync_def put_zone_def Let_def
      split: option.splits if_splits)

definition snapshot_ok :: "disk \<Rightarrow> bool" where
  "snapshot_ok d \<longleftrightarrow>
     (case d_state d of
        None \<Rightarrow> True
      | Some Torn \<Rightarrow> False
      | Some (Snapshot st) \<Rightarrow> (\<exists>s. store_wf s \<and> st = Export s))"

definition node_ok :: "node \<Rightarrow> bool" where
  "node_ok n \<longleftrightarrow> store_wf (n_mem n) \<and> s_onChange (n_mem n) \<and> snapshot_ok (n_disk n)"

lemma save_ok: "store_wf s \<Longrightarrow> snapshot_ok d \<Longrightarrow> snapshot_ok (save i s d)"
  by (cases i) (auto simp: snapshot_ok_def split: option.splits state_file.splits)

lemma run_op_ok: "node_ok n \<Longrightarrow> node_ok (run_op org c i n)"
  using exec_op_wf [of "n_mem n" org c] exec_op_onChange [of org c "n_mem n"]
  by (auto simp: node_ok_def run_op_def notify_def save_ok Let_def split: prod.splits)

lemma store_wf_onChange [simp]: "store_wf (s\<lparr>s_onChange := b\<rparr>) = store_wf s"
  by (simp add: store_wf_iff)

lemma content_onChange [simp]: "content (s\<lparr>s_onChange := b\<rparr>) = content s"
  by (simp add: content_def fun_eq_iff)

lemma restart_cases:
  "restart d =
     (case d_state d of
        None \<Rightarrow> Inr \<lparr>n_mem = NewStore\<lparr>s_onChange := True\<rparr>, n_disk = d\<rparr>
      | Some Torn \<Rightarrow> Inl ParseSnapshot
      | Some (Snapshot st) \<Rightarrow>
          Inr \<lparr>n_mem = (Import st NewStore)\<lparr>s_onChange := True\<rparr>, n_disk = d\<rparr>)"
  by (auto simp: restart_def EnableSnapshot_def load_def split: option.splits state_file.splits)

lemma restart_ok:
  assumes "snapshot_ok d"
  shows "\<exists>n. restart d = Inr n \<and> node_ok n"
proof (cases "d_state d")
  case None
  then show ?thesis using assms NewStore_wf by (simp add: restart_cases node_ok_def)
next
  case (Some f)
  with assms obtain s where "d_state d = Some (Snapshot (Export s))" and "store_wf s"
    by (auto simp: snapshot_ok_def split: state_file.splits)
  then show ?thesis using assms Import_Export_wf by (simp add: restart_cases node_ok_def)
qed

lemma life_ok: "life n \<Longrightarrow> node_ok n"
proof (induction rule: life.induct)
  case (boot n)
  then show ?case
    using restart_ok [of "\<lparr>d_state = None, d_tmp = None\<rparr>"] by (simp add: snapshot_ok_def)
next
  case (serve n i org c)
  then show ?case by (simp add: run_op_ok)
next
  case (crash n org c i n')
  then show ?case
    using restart_ok run_op_ok [of n org c i] by (fastforce simp: node_ok_def)
next
  case (stop n n')
  then show ?case
    using restart_ok by (fastforce simp: node_ok_def)
qed

text \<open>C30: The snapshot file survives every crash. Whatever operations were served, whichever saves
  failed, and wherever the process died, even half way through writing the file, the next start
  finds a file that parses, and comes up with a well-formed store.\<close>

theorem crash_never_corrupts:
  assumes "life n"
  shows "\<exists>n'. restart (n_disk (run_op org c i n)) = Inr n' \<and> store_wf (n_mem n')
    \<and> s_onChange (n_mem n')"
  using restart_ok [of "n_disk (run_op org c i n)"] run_op_ok [OF life_ok [OF assms]]
  by (auto simp: node_ok_def)

definition first_node :: node where
  "first_node = \<lparr>n_mem = NewStore\<lparr>s_onChange := True\<rparr>, n_disk = \<lparr>d_state = None, d_tmp = None\<rparr>\<rparr>"

lemma first_node_life: "life first_node"
  by (rule life.boot) (simp add: restart_cases first_node_def)

theorem crash_never_corrupts_witness:
  "d_tmp (n_disk (run_op ''a'' (DoBulkSync ''z1'' (\<lambda>n. ''u'') 8 example_sync) CrashInWrite first_node))
     = Some Torn
   \<and> (\<exists>n'. restart (n_disk (run_op ''a'' (DoBulkSync ''z1'' (\<lambda>n. ''u'') 8 example_sync)
              CrashInWrite first_node)) = Inr n' \<and> store_wf (n_mem n') \<and> s_onChange (n_mem n'))"
  by (rule conjI [OF _ crash_never_corrupts [OF first_node_life]]) code_simp



end
