(* ===== verification/Go_JSON.thy ===== *)
theory Go_JSON
  imports Prelude
begin

text \<open>
  Decimal numerals and JSON values, as \<^verbatim>\<open>strconv\<close> and \<^verbatim>\<open>encoding/json\<close> treat them.

  A JSON text is represented by its value, where it may fail to be JSON by an optional value. A number keeps its literal, because Go decodes it by the
  type of the field it is stored in. Decoding follows \<^verbatim>\<open>json.Unmarshal\<close>: the entries of an object are
  visited in order, a key selects a field without regard to letter case, \<^verbatim>\<open>null\<close> leaves
  a field as it is, and a value of the wrong type is reported only after the rest has been stored.
\<close>

section \<open>Decimal numerals\<close>

definition dec_digit :: "int \<Rightarrow> char" where
  "dec_digit n = char_of (48 + n)"

function dec_digits :: "int \<Rightarrow> string" where
  "dec_digits n = (if n < 10 then [dec_digit n] else dec_digits (n div 10) @ [dec_digit (n mod 10)])"
  by pat_completeness auto
termination
  by (relation "measure nat") auto

declare dec_digits.simps [simp del]

definition Itoa :: "int \<Rightarrow> string" where
  "Itoa i = (if i < 0 then CHR ''-'' # dec_digits (- i) else dec_digits i)"

definition ParseInt :: "string \<Rightarrow> nat \<Rightarrow> int option" where
  "ParseInt s bits =
     (let neg = (s \<noteq> [] \<and> hd s = CHR ''-''); d = (if neg then tl s else s); n = dec_val 0 d
      in if d \<noteq> [] \<and> list_all is_digit d \<and> (if neg then n \<le> 2 ^ (bits - 1) else n < 2 ^ (bits - 1))
         then Some (if neg then - n else n) else None)"

lemma dec_val_append: "dec_val acc (s @ t) = dec_val (dec_val acc s) t"
  by (induction s arbitrary: acc) auto

lemma dec_digit_val [simp]:
  assumes "0 \<le> n" and "n < 10"
  shows "digit_val (dec_digit n) = n" and "is_digit (dec_digit n)"
proof -
  have d: "of_char (dec_digit n) = 48 + n"
    using assms by (simp add: dec_digit_def of_char_of)
  then show "digit_val (dec_digit n) = n" by (simp add: digit_val_def)
  from d show "is_digit (dec_digit n)" using assms by (simp add: is_digit_def)
qed

lemma dec_digits_val [simp]: "0 \<le> n \<Longrightarrow> dec_val 0 (dec_digits n) = n"
  by (induction n rule: dec_digits.induct)
    (subst dec_digits.simps, simp add: dec_val_append)

lemma dec_digits_digits [simp]: "0 \<le> n \<Longrightarrow> list_all is_digit (dec_digits n)" "dec_digits n \<noteq> []"
  by (induction n rule: dec_digits.induct) (subst dec_digits.simps, simp)+

lemma ParseUint_dec_digits: "0 \<le> n \<Longrightarrow> n < 2 ^ bits \<Longrightarrow> ParseUint (dec_digits n) bits = Some n"
  by (simp add: ParseUint_def)

section \<open>JSON values\<close>

datatype json =
    JNull
  | JBool bool
  | JNum string
  | JStr string
  | JArr "json list"
  | JObj "(string \<times> json) list"

section \<open>Decoding\<close>

text \<open>
  A decoder stores a value into a target and tells whether the types fitted. \<open>upd\<close> is the
  update function of the field of the target.
\<close>

type_synonym 'r decoder = "json \<Rightarrow> 'r \<Rightarrow> 'r \<times> bool"

fun dec_string :: "((string \<Rightarrow> string) \<Rightarrow> 'r \<Rightarrow> 'r) \<Rightarrow> 'r decoder" where
  "dec_string upd (JStr s) r = (upd (\<lambda>_. s) r, True)"
| "dec_string upd JNull r = (r, True)"
| "dec_string upd _ r = (r, False)"

fun dec_bool :: "((bool \<Rightarrow> bool) \<Rightarrow> 'r \<Rightarrow> 'r) \<Rightarrow> 'r decoder" where
  "dec_bool upd (JBool b) r = (upd (\<lambda>_. b) r, True)"
| "dec_bool upd JNull r = (r, True)"
| "dec_bool upd _ r = (r, False)"

fun dec_uint :: "(('w::len word \<Rightarrow> 'w word) \<Rightarrow> 'r \<Rightarrow> 'r) \<Rightarrow> 'r decoder" where
  "dec_uint upd (JNum l) r =
     (case ParseUint l LENGTH('w) of Some n \<Rightarrow> (upd (\<lambda>_. of_int n) r, True) | None \<Rightarrow> (r, False))"
| "dec_uint upd JNull r = (r, True)"
| "dec_uint upd _ r = (r, False)"

fun dec_int64 :: "((int \<Rightarrow> int) \<Rightarrow> 'r \<Rightarrow> 'r) \<Rightarrow> 'r decoder" where
  "dec_int64 upd (JNum l) r =
     (case ParseInt l 64 of Some n \<Rightarrow> (upd (\<lambda>_. n) r, True) | None \<Rightarrow> (r, False))"
| "dec_int64 upd JNull r = (r, True)"
| "dec_int64 upd _ r = (r, False)"

text \<open>A field of pointer type: \<^verbatim>\<open>null\<close> makes it nil, another value is stored in a new variable.\<close>

definition dec_pointer ::
  "'a \<Rightarrow> (((('a \<Rightarrow> 'a) \<Rightarrow> 'a \<Rightarrow> 'a)) \<Rightarrow> 'a decoder) \<Rightarrow> (('a option \<Rightarrow> 'a option) \<Rightarrow> 'r \<Rightarrow> 'r) \<Rightarrow> 'r decoder"
where
  "dec_pointer zero dec upd j r =
     (if j = JNull then (upd (\<lambda>_. None) r, True)
      else let (v, ok) = dec (\<lambda>f. f) j zero in (upd (\<lambda>_. Some v) r, ok))"

fun dec_elements :: "'a \<Rightarrow> 'a decoder \<Rightarrow> json list \<Rightarrow> 'a list \<times> bool" where
  "dec_elements zero dec [] = ([], True)"
| "dec_elements zero dec (j # js) =
     (let (v, ok) = dec j zero; (vs, oks) = dec_elements zero dec js in (v # vs, ok \<and> oks))"

fun dec_slice :: "'a \<Rightarrow> 'a decoder \<Rightarrow> (('a list \<Rightarrow> 'a list) \<Rightarrow> 'r \<Rightarrow> 'r) \<Rightarrow> 'r decoder" where
  "dec_slice zero dec upd (JArr js) r =
     (let (vs, ok) = dec_elements zero dec js in (upd (\<lambda>_. vs) r, ok))"
| "dec_slice zero dec upd JNull r = (upd (\<lambda>_. []) r, True)"
| "dec_slice zero dec upd _ r = (r, False)"

text \<open>The fields of a struct by their JSON names; a key without a field is skipped.\<close>

definition find_field :: "(string \<times> 'r decoder) list \<Rightarrow> string \<Rightarrow> 'r decoder option" where
  "find_field fields key = map_option snd (find (\<lambda>(n, _). EqualFold n key) fields)"

fun dec_fields :: "(string \<times> 'r decoder) list \<Rightarrow> (string \<times> json) list \<Rightarrow> 'r \<Rightarrow> 'r \<times> bool" where
  "dec_fields fields [] r = (r, True)"
| "dec_fields fields ((key, j) # kvs) r =
     (let (r1, ok1) = (case find_field fields key of None \<Rightarrow> (r, True) | Some dec \<Rightarrow> dec j r);
          (r2, ok2) = dec_fields fields kvs r1
      in (r2, ok1 \<and> ok2))"

fun dec_struct :: "(string \<times> 'r decoder) list \<Rightarrow> 'r decoder" where
  "dec_struct fields (JObj kvs) r = dec_fields fields kvs r"
| "dec_struct fields JNull r = (r, True)"
| "dec_struct fields _ r = (r, False)"

text \<open>
  \<^verbatim>\<open>json.NewDecoder(body).Decode(&v)\<close> with its error as \<open>None\<close>; the text is \<open>None\<close> when it
  does not start with a JSON value.
\<close>

definition Decode :: "'r decoder \<Rightarrow> 'r \<Rightarrow> json option \<Rightarrow> 'r option" where
  "Decode dec zero body =
     (case body of
        None \<Rightarrow> None
      | Some j \<Rightarrow> (let (r, ok) = dec j zero in if ok then Some r else None))"

lemma dec_uint_word:
  "dec_uint upd (JNum (dec_digits (uint w))) r = (upd (\<lambda>_. w) r, True)" for w :: "'w::len word"
  using uint_bounded [of w] by (simp add: ParseUint_dec_digits)

end
