(* ===== verification/Hanzo_Provider.thy ===== *)
theory Hanzo_Provider
  imports Hanzo_Store Go_JSON
begin

text \<open>
  The connectors of the \<^verbatim>\<open>hanzodns\<close> plugin to other services: \<^verbatim>\<open>kms.go\<close> (the secret store),
  \<^verbatim>\<open>cloudflare.go\<close> (the Cloudflare API) and \<^verbatim>\<open>provider.go\<close> (the choice of a connector).

  The services are a function \<open>net\<close> from requests to outcomes, given to every operation; the
  process environment is a function from variable names to values. An operation yields the requests
  it sent, in order, and its result or the text of its error.
\<close>

section \<open>Requests and outcomes\<close>

record http_request =
  h_method :: string
  h_url :: string
  h_authorization :: string
  h_body :: "json option"

text \<open>
  The outcome of \<^verbatim>\<open>http.NewRequestWithContext\<close> and \<^verbatim>\<open>client.Do\<close>: no request could be built, the
  exchange failed, or a response came with its status and its body, \<open>None\<close> when the
  first MiB of it is not a JSON text.
\<close>

datatype http_outcome =
    NoRequest string
  | NoResponse
  | Response nat "json option"

type_synonym net = "http_request \<Rightarrow> http_outcome"
type_synonym environ = "string \<Rightarrow> string"
type_synonym 'a call = "http_request list \<times> (string + 'a)"

definition sent :: "http_outcome \<Rightarrow> http_request \<Rightarrow> http_request list" where
  "sent out q = (case out of NoRequest _ \<Rightarrow> [] | _ \<Rightarrow> [q])"

text \<open>The values \<^verbatim>\<open>oidcMiddleware\<close> puts in the context of a request; empty when it did not run.\<close>

record context_values =
  c_org :: string
  c_bearer :: string

definition OrgIDFromContext :: "context_values \<Rightarrow> string" where
  "OrgIDFromContext ctx = c_org ctx"

definition BearerFromContext :: "context_values \<Rightarrow> string" where
  "BearerFromContext ctx = c_bearer ctx"

section \<open>Escaping of net/url\<close>

definition unreserved :: "char \<Rightarrow> bool" where
  "unreserved c =
     (let n = (of_char c :: nat) in
      48 \<le> n \<and> n \<le> 57 \<or> 65 \<le> n \<and> n \<le> 90 \<or> 97 \<le> n \<and> n \<le> 122 \<or> c \<in> set ''-_.~'')"

definition hex_upper :: "nat \<Rightarrow> char" where
  "hex_upper n = (if n < 10 then char_of (n + 48) else char_of (n + 55))"

definition percent :: "char \<Rightarrow> string" where
  "percent c = (let n = (of_char c :: nat) in [CHR ''%'', hex_upper (n div 16), hex_upper (n mod 16)])"

definition PathEscape :: "string \<Rightarrow> string" where
  "PathEscape s = concat (map (\<lambda>c. if unreserved c \<or> c \<in> set ''$&+=:@'' then [c] else percent c) s)"

definition QueryEscape :: "string \<Rightarrow> string" where
  "QueryEscape s =
     concat (map (\<lambda>c. if unreserved c then [c] else if c = CHR '' '' then ''+'' else percent c) s)"

section \<open>kms.go\<close>

definition kmsBaseURL :: "environ \<Rightarrow> string" where
  "kmsBaseURL env =
     (let v = TrimSpace (env ''HANZO_DNS_KMS_URL'')
      in if v \<noteq> '''' then TrimRight v CHR ''/'' else ''https://api.hanzo.ai'')"

definition kms_endpoint :: "environ \<Rightarrow> string \<Rightarrow> string \<Rightarrow> string" where
  "kms_endpoint env org subpath =
     kmsBaseURL env @ ''/v1/kms/orgs/'' @ PathEscape org @ ''/secrets/'' @ subpath @ ''?env=default''"

record kms_value =
  k_Value :: string

definition dec_kms_value :: "kms_value decoder" where
  "dec_kms_value = dec_struct [(''value'', dec_string k_Value_update)]"

definition kmsSecret ::
  "environ \<Rightarrow> net \<Rightarrow> context_values \<Rightarrow> string \<Rightarrow> string \<Rightarrow> string call" where
  "kmsSecret env net ctx org subpath =
     (let bearer = BearerFromContext ctx in
      if bearer = '''' then ([], Inl ''no validated credential on request'')
      else if org = '''' then ([], Inl ''no org on request'')
      else
        let q = \<lparr>h_method = ''GET'', h_url = kms_endpoint env org subpath,
                 h_authorization = ''Bearer '' @ bearer, h_body = None\<rparr>
        in (sent (net q) q,
            case net q of
              NoRequest e \<Rightarrow> Inl e
            | NoResponse \<Rightarrow> Inl ''kms request failed''
            | Response status body \<Rightarrow>
                if status = 200 then
                  (case Decode dec_kms_value \<lparr>k_Value = ''''\<rparr> body of
                     None \<Rightarrow> Inl ''kms: malformed response''
                   | Some v \<Rightarrow>
                       if TrimSpace (k_Value v) = '''' then Inl ''cloudflare token is empty''
                       else Inr (k_Value v))
                else if status = 404 then Inl ''cloudflare is not connected for this org''
                else if status = 401 \<or> status = 403 then
                  Inl (''not authorized to read this org'' @ [char_of (39 :: nat)] @ ''s cloudflare token'')
                else Inl (''kms returned status '' @ Itoa (int status))))"

section \<open>cloudflare.go\<close>

definition cfAPIBase :: "environ \<Rightarrow> string" where
  "cfAPIBase env =
     (let v = TrimSpace (env ''CLOUDFLARE_API_BASE'')
      in if v \<noteq> '''' then TrimRight v CHR ''/'' else ''https://api.cloudflare.com/client/v4'')"

record cloudflareProvider =
  cf_token :: string
  cf_base :: string

definition newCloudflareProvider :: "environ \<Rightarrow> string \<Rightarrow> cloudflareProvider" where
  "newCloudflareProvider env token = \<lparr>cf_token = token, cf_base = cfAPIBase env\<rparr>"

record cfError =
  e_Code :: int
  e_Message :: string

record cfEnvelope =
  e_Success :: bool
  e_Errors :: "cfError list"

definition dec_cfError :: "cfError decoder" where
  "dec_cfError = dec_struct [(''code'', dec_int64 e_Code_update), (''message'', dec_string e_Message_update)]"

definition dec_cfEnvelope :: "cfEnvelope decoder" where
  "dec_cfEnvelope = dec_struct
     [(''success'', dec_bool e_Success_update),
      (''errors'', dec_slice \<lparr>e_Code = 0, e_Message = ''''\<rparr> dec_cfError e_Errors_update)]"

definition cfEnvelope_err :: "cfEnvelope \<Rightarrow> nat \<Rightarrow> string option" where
  "cfEnvelope_err e status =
     (if e_Success e then None
      else case e_Errors e of
        x # _ \<Rightarrow> Some (''cloudflare API error ('' @ Itoa (int status) @ ''): ['' @ Itoa (e_Code x)
                    @ ''] '' @ e_Message x)
      | [] \<Rightarrow> Some (''cloudflare API error (status '' @ Itoa (int status) @ '')''))"

text \<open>The raw text of the member \<^verbatim>\<open>result\<close>; the last one counts when the key is repeated.\<close>

fun raw_result :: "(string \<times> json) list \<Rightarrow> json option" where
  "raw_result [] = None"
| "raw_result ((key, j) # kvs) =
     (case raw_result kvs of Some r \<Rightarrow> Some r | None \<Rightarrow> if EqualFold ''result'' key then Some j else None)"

text \<open>
  \<^verbatim>\<open>cfDo\<close> after the exchange: the envelope is decoded without looking at errors, the
  wrapper with the result then has to be an object (or \<^verbatim>\<open>null\<close>) whose result fits the target.
  \<open>out\<close> is the decoder and the initial value of the target, \<open>None\<close> when there is none.
\<close>

definition cf_result :: "('r decoder \<times> 'r) \<Rightarrow> json option \<Rightarrow> string + 'r" where
  "cf_result out body =
     (let (dec, zero) = out in
      case body of
        Some (JObj kvs) \<Rightarrow>
          (case raw_result kvs of
             None \<Rightarrow> Inr zero
           | Some j \<Rightarrow>
               (let (r, ok) = dec j zero in if ok then Inr r else Inl ''cloudflare: malformed result''))
      | Some JNull \<Rightarrow> Inr zero
      | _ \<Rightarrow> Inl ''cloudflare: malformed response'')"

definition cfDo ::
  "net \<Rightarrow> cloudflareProvider \<Rightarrow> string \<Rightarrow> string \<Rightarrow> json option \<Rightarrow> 'r decoder \<Rightarrow> bool \<Rightarrow> 'r \<Rightarrow> 'r call" where
  "cfDo net p method path body dec wanted zero =
     (let q = \<lparr>h_method = method, h_url = cf_base p @ path,
               h_authorization = ''Bearer '' @ cf_token p, h_body = body\<rparr>
      in (sent (net q) q,
          case net q of
            NoRequest e \<Rightarrow> Inl e
          | NoResponse \<Rightarrow> Inl ''cloudflare request failed''
          | Response status data \<Rightarrow>
              if status = 204 then Inr zero
              else
                let env0 = \<lparr>e_Success = False, e_Errors = []\<rparr>;
                    env = (case data of None \<Rightarrow> env0 | Some j \<Rightarrow> fst (dec_cfEnvelope j env0))
                in (case cfEnvelope_err env status of
                      Some e \<Rightarrow> Inl e
                    | None \<Rightarrow> if wanted then cf_result (dec, zero) data else Inr zero)))"

record cfZone =
  cz_ID :: string
  cz_Name :: string
  cz_Status :: string
  cz_NameServers :: "string list"

record cfRecord =
  cr_ID :: string
  cr_Name :: string
  cr_Type :: string
  cr_Content :: string
  cr_TTL :: u32
  cr_Proxied :: bool
  cr_Priority :: u16

record ProviderZone =
  pz_ID :: string
  pz_Name :: string
  pz_Status :: string
  pz_NameServers :: "string list"

record RecordInput =
  i_Name :: string
  i_Type :: string
  i_Content :: string
  i_TTL :: u32
  i_Proxied :: bool
  i_Priority :: u16

definition zero_cfZone :: cfZone where
  "zero_cfZone = \<lparr>cz_ID = '''', cz_Name = '''', cz_Status = '''', cz_NameServers = []\<rparr>"

definition zero_cfRecord :: cfRecord where
  "zero_cfRecord = \<lparr>cr_ID = '''', cr_Name = '''', cr_Type = '''', cr_Content = '''', cr_TTL = 0,
     cr_Proxied = False, cr_Priority = 0\<rparr>"

definition dec_cfZone :: "cfZone decoder" where
  "dec_cfZone = dec_struct
     [(''id'', dec_string cz_ID_update), (''name'', dec_string cz_Name_update),
      (''status'', dec_string cz_Status_update),
      (''name_servers'', dec_slice '''' (dec_string (\<lambda>f. f)) cz_NameServers_update)]"

definition dec_cfRecord :: "cfRecord decoder" where
  "dec_cfRecord = dec_struct
     [(''id'', dec_string cr_ID_update), (''name'', dec_string cr_Name_update),
      (''type'', dec_string cr_Type_update), (''content'', dec_string cr_Content_update),
      (''ttl'', dec_uint cr_TTL_update), (''proxied'', dec_bool cr_Proxied_update),
      (''priority'', dec_uint cr_Priority_update)]"

definition dec_list :: "'a \<Rightarrow> 'a decoder \<Rightarrow> 'a list decoder" where
  "dec_list zero dec = dec_slice zero dec (\<lambda>f. f)"

definition toProvider :: "cfRecord \<Rightarrow> ProviderRecord" where
  "toProvider r =
     \<lparr>pr_ID = cr_ID r, pr_Name = cr_Name r, pr_Type = cr_Type r, pr_Content = cr_Content r,
      pr_TTL = cr_TTL r, pr_Proxied = cr_Proxied r, pr_Priority = cr_Priority r\<rparr>"

definition map_call :: "('a \<Rightarrow> string + 'b) \<Rightarrow> 'a call \<Rightarrow> 'b call" where
  "map_call f c = (fst c, case snd c of Inl e \<Rightarrow> Inl e | Inr x \<Rightarrow> f x)"

definition cf_ListZones :: "net \<Rightarrow> cloudflareProvider \<Rightarrow> ProviderZone list call" where
  "cf_ListZones net p =
     map_call (\<lambda>zones. Inr (map (\<lambda>z. \<lparr>pz_ID = cz_ID z, pz_Name = cz_Name z, pz_Status = cz_Status z,
                                    pz_NameServers = cz_NameServers z\<rparr>) zones))
       (cfDo net p ''GET'' ''/zones?per_page=50'' None (dec_list zero_cfZone dec_cfZone) True [])"

definition cf_zone_name :: "string \<Rightarrow> string" where
  "cf_zone_name name = TrimSuffix (ToLower (TrimSpace name)) ''.''"

definition cf_ZoneIDForName :: "net \<Rightarrow> cloudflareProvider \<Rightarrow> string \<Rightarrow> string call" where
  "cf_ZoneIDForName net p name0 =
     (let name = cf_zone_name name0 in
      map_call (\<lambda>zones.
        case find (\<lambda>z. EqualFold (TrimSuffix (cz_Name z) ''.'') name) zones of
          Some z \<Rightarrow> Inr (cz_ID z)
        | None \<Rightarrow> Inl (''zone '' @ Quote name @ '' not found in the connected cloudflare account''))
        (cfDo net p ''GET'' (''/zones?name='' @ QueryEscape name) None
          (dec_list zero_cfZone dec_cfZone) True []))"

definition cf_ListRecords :: "net \<Rightarrow> cloudflareProvider \<Rightarrow> string \<Rightarrow> ProviderRecord list call" where
  "cf_ListRecords net p zoneID =
     map_call (\<lambda>recs. Inr (map toProvider recs))
       (cfDo net p ''GET'' (''/zones/'' @ PathEscape zoneID @ ''/dns_records?per_page=100'') None
         (dec_list zero_cfRecord dec_cfRecord) True [])"

definition jnat :: "'a::len word \<Rightarrow> json" where
  "jnat w = JNum (dec_digits (uint w))"

definition cfRecordBody :: "RecordInput \<Rightarrow> json" where
  "cfRecordBody i = JObj
     ([(''type'', JStr (i_Type i)), (''name'', JStr (i_Name i)), (''content'', JStr (i_Content i)),
       (''proxied'', JBool (i_Proxied i))]
      @ (if i_TTL i > 0 then [(''ttl'', jnat (i_TTL i))] else [])
      @ (if i_Priority i > 0 then [(''priority'', jnat (i_Priority i))] else []))"

definition set_member :: "string \<Rightarrow> ('a \<Rightarrow> json) \<Rightarrow> 'a option \<Rightarrow> (string \<times> json) list" where
  "set_member key enc v = (case v of None \<Rightarrow> [] | Some x \<Rightarrow> [(key, enc x)])"

definition cfPatchBody :: "RecordPatch \<Rightarrow> json" where
  "cfPatchBody patch = JObj
     (set_member ''type'' JStr (p_Type patch) @ set_member ''name'' JStr (p_Name patch)
      @ set_member ''content'' JStr (p_Content patch) @ set_member ''ttl'' jnat (p_TTL patch)
      @ set_member ''priority'' jnat (p_Priority patch) @ set_member ''proxied'' JBool (p_Proxied patch))"

definition cf_CreateRecord :: "net \<Rightarrow> cloudflareProvider \<Rightarrow> string \<Rightarrow> RecordInput \<Rightarrow> ProviderRecord call" where
  "cf_CreateRecord net p zoneID i =
     map_call (\<lambda>r. Inr (toProvider r))
       (cfDo net p ''POST'' (''/zones/'' @ PathEscape zoneID @ ''/dns_records'') (Some (cfRecordBody i))
         dec_cfRecord True zero_cfRecord)"

definition cf_UpdateRecord ::
  "net \<Rightarrow> cloudflareProvider \<Rightarrow> string \<Rightarrow> string \<Rightarrow> RecordPatch \<Rightarrow> ProviderRecord call" where
  "cf_UpdateRecord net p zoneID recordID patch =
     map_call (\<lambda>r. Inr (toProvider r))
       (cfDo net p ''PATCH'' (''/zones/'' @ PathEscape zoneID @ ''/dns_records/'' @ PathEscape recordID)
         (Some (cfPatchBody patch)) dec_cfRecord True zero_cfRecord)"

definition cf_DeleteRecord :: "net \<Rightarrow> cloudflareProvider \<Rightarrow> string \<Rightarrow> string \<Rightarrow> unit call" where
  "cf_DeleteRecord net p zoneID recordID =
     cfDo net p ''DELETE'' (''/zones/'' @ PathEscape zoneID @ ''/dns_records/'' @ PathEscape recordID) None
       (\<lambda>_ u. (u, True)) False ()"

section \<open>provider.go\<close>

definition validProviders :: "string \<Rightarrow> bool" where
  "validProviders k = (k = ProviderAuthoritative \<or> k = ProviderCloudflare)"

definition providerFor ::
  "environ \<Rightarrow> net \<Rightarrow> context_values \<Rightarrow> string \<Rightarrow> string \<Rightarrow> cloudflareProvider option call" where
  "providerFor env net ctx org kind =
     (if kind = '''' \<or> kind = ProviderAuthoritative then ([], Inr None)
      else if kind = ProviderCloudflare then
        map_call (\<lambda>token. Inr (Some (newCloudflareProvider env token)))
          (kmsSecret env net ctx org ''integrations/cloudflare/api_token'')
      else ([], Inl (''unknown provider '' @ Quote kind)))"

definition normProvider :: "string \<Rightarrow> string + string" where
  "normProvider p =
     (if p = '''' then Inr ProviderAuthoritative
      else if \<not> validProviders p then Inl (''unknown provider '' @ Quote p)
      else Inr p)"

definition empty_patch :: RecordPatch where
  "empty_patch = \<lparr>p_Name = None, p_Type = None, p_TTL = None, p_Content = None,
     p_Priority = None, p_Proxied = None\<rparr>"

definition patch_fields :: "(string \<times> RecordPatch decoder) list" where
  "patch_fields =
     [(''name'', dec_pointer '''' dec_string p_Name_update),
      (''type'', dec_pointer '''' dec_string p_Type_update),
      (''ttl'', dec_pointer 0 dec_uint p_TTL_update),
      (''content'', dec_pointer '''' dec_string p_Content_update),
      (''priority'', dec_pointer 0 dec_uint p_Priority_update),
      (''proxied'', dec_pointer False dec_bool p_Proxied_update)]"

definition dec_RecordPatch :: "RecordPatch decoder" where
  "dec_RecordPatch = dec_struct patch_fields"

section \<open>Escaping\<close>

text \<open>The inverse of the escaping: what a server recovers from a path segment.\<close>

definition hex_upper_val :: "char \<Rightarrow> nat" where
  "hex_upper_val c = (let n = (of_char c :: nat) in if n \<le> 57 then n - 48 else n - 55)"

fun PathUnescape :: "string \<Rightarrow> string" where
  "PathUnescape [] = []"
| "PathUnescape (c # s) =
     (if c = CHR ''%'' then
        (case s of
           a # b # t \<Rightarrow> char_of (16 * hex_upper_val a + hex_upper_val b) # PathUnescape t
         | _ \<Rightarrow> [])
      else c # PathUnescape s)"

lemma hex_upper_inverse: "n < 16 \<Longrightarrow> hex_upper_val (hex_upper n) = n"
  by (auto simp: hex_upper_val_def hex_upper_def Let_def of_char_of)

lemma unreserved_not_percent: "unreserved c \<or> c \<in> set ''$&+=:@'' \<Longrightarrow> c \<noteq> CHR ''%''"
  by (auto simp: unreserved_def)

lemma PathEscape_simps [simp]:
  "PathEscape [] = []"
  "PathEscape (c # s) =
     (if unreserved c \<or> c \<in> set ''$&+=:@'' then [c] else percent c) @ PathEscape s"
  by (simp_all add: PathEscape_def)

lemma high_nibble: "of_char c div 16 < (16 :: nat)"
  using nat_of_char_less_256 [of c] by (intro less_mult_imp_div_less) simp

lemma PathUnescape_percent [simp]: "PathUnescape (percent c @ s) = c # PathUnescape s"
  by (simp add: percent_def Let_def hex_upper_inverse high_nibble)

lemma PathUnescape_PathEscape: "PathUnescape (PathEscape s) = s"
  by (induction s) (auto simp: unreserved_not_percent)

lemma hex_upper_not_slash: "n < 16 \<Longrightarrow> hex_upper n \<noteq> CHR ''/''"
proof
  assume n: "n < 16" and "hex_upper n = CHR ''/''"
  then have "(of_char (hex_upper n) :: nat) = of_char CHR ''/''" by simp
  with n show False by (simp add: hex_upper_def of_char_of split: if_splits)
qed

lemma PathEscape_no_slash: "CHR ''/'' \<notin> set (PathEscape s)"
proof (induction s)
  case (Cons c s)
  have "CHR ''/'' \<notin> set (percent c)"
    using hex_upper_not_slash [OF high_nibble [of c]] hex_upper_not_slash [of "of_char c mod 16"]
    by (simp add: percent_def Let_def eq_commute)
  moreover have "unreserved c \<Longrightarrow> c \<noteq> CHR ''/''"
    by (auto simp: unreserved_def)
  ultimately show ?case
    using Cons by auto
qed simp

lemma append_at_first:
  assumes "xs @ c # us = ys @ c # vs" and "c \<notin> set xs" and "c \<notin> set ys"
  shows "xs = ys \<and> us = vs"
  using assms by (induction xs arbitrary: ys) (case_tac ys; auto)+

text \<open>The secret of an organisation is read from a path of its own. The organisation fills
  exactly one segment of the path, without a slash of its own, and two organisations never get the
  same address, so a request that carries one name can not reach the secrets under another.\<close>

theorem kms_endpoint_per_org:
  "CHR ''/'' \<notin> set (PathEscape org)
   \<and> (kms_endpoint env org sub = kms_endpoint env org' sub \<longleftrightarrow> org = org')"
proof -
  have "org = org'" if "kms_endpoint env org sub = kms_endpoint env org' sub"
  proof -
    have "PathEscape org @ CHR ''/'' # ''secrets/'' @ sub @ ''?env=default''
        = PathEscape org' @ CHR ''/'' # ''secrets/'' @ sub @ ''?env=default''"
      using that by (simp add: kms_endpoint_def)
    then have "PathEscape org = PathEscape org'"
      using append_at_first PathEscape_no_slash by blast
    then show ?thesis
      by (metis PathUnescape_PathEscape)
  qed
  then show ?thesis
    using PathEscape_no_slash by blast
qed

section \<open>Patches\<close>

lemma dec_members_append:
  "dec_fields fs (xs @ ys) r =
     (let (r1, ok1) = dec_fields fs xs r; (r2, ok2) = dec_fields fs ys r1 in (r2, ok1 \<and> ok2))"
  by (induction xs arbitrary: r) (auto simp: Let_def split: prod.splits)

definition opt_some :: "'a option \<Rightarrow> 'a option \<Rightarrow> 'a option" where
  "opt_some v old = (case v of None \<Rightarrow> old | Some x \<Rightarrow> Some x)"

lemma opt_some_None [simp]: "opt_some v None = v"
  by (simp add: opt_some_def split: option.splits)

lemma find_patch_field:
  "find_field patch_fields ''type'' = Some (dec_pointer '''' dec_string p_Type_update)"
  "find_field patch_fields ''name'' = Some (dec_pointer '''' dec_string p_Name_update)"
  "find_field patch_fields ''content'' = Some (dec_pointer '''' dec_string p_Content_update)"
  "find_field patch_fields ''ttl'' = Some (dec_pointer 0 dec_uint p_TTL_update)"
  "find_field patch_fields ''priority'' = Some (dec_pointer 0 dec_uint p_Priority_update)"
  "find_field patch_fields ''proxied'' = Some (dec_pointer False dec_bool p_Proxied_update)"
  by (simp_all add: find_field_def patch_fields_def EqualFold_def ToLower_def lower_char_def)

lemma dec_patch_member:
  "dec_fields patch_fields (set_member ''type'' JStr t) r = (r\<lparr>p_Type := opt_some t (p_Type r)\<rparr>, True)"
  "dec_fields patch_fields (set_member ''name'' JStr n) r = (r\<lparr>p_Name := opt_some n (p_Name r)\<rparr>, True)"
  "dec_fields patch_fields (set_member ''content'' JStr c) r
     = (r\<lparr>p_Content := opt_some c (p_Content r)\<rparr>, True)"
  "dec_fields patch_fields (set_member ''ttl'' jnat w) r = (r\<lparr>p_TTL := opt_some w (p_TTL r)\<rparr>, True)"
  "dec_fields patch_fields (set_member ''priority'' jnat v) r
     = (r\<lparr>p_Priority := opt_some v (p_Priority r)\<rparr>, True)"
  "dec_fields patch_fields (set_member ''proxied'' JBool b) r
     = (r\<lparr>p_Proxied := opt_some b (p_Proxied r)\<rparr>, True)"
  by (simp_all add: set_member_def find_patch_field dec_pointer_def opt_some_def jnat_def dec_uint_word
      del: dec_uint.simps(1) split: option.splits)

lemma keys_set_member: "fst ` set (set_member key enc v) = (if v = None then {} else {key})"
  by (auto simp: set_member_def split: option.splits)

text \<open>A partial update loses nothing and invents nothing. The body sent to the provider has a
  member exactly for the fields the caller set, and decoding the body gives the caller's patch
  back, numbers at their full width included.\<close>

theorem patch_body_roundtrip:
  "dec_RecordPatch (cfPatchBody patch) empty_patch = (patch, True)
   \<and> (case cfPatchBody patch of
        JObj kvs \<Rightarrow> set (map fst kvs) =
          (if p_Type patch = None then {} else {''type''}) \<union> (if p_Name patch = None then {} else {''name''})
          \<union> (if p_Content patch = None then {} else {''content''}) \<union> (if p_TTL patch = None then {} else {''ttl''})
          \<union> (if p_Priority patch = None then {} else {''priority''})
          \<union> (if p_Proxied patch = None then {} else {''proxied''})
      | _ \<Rightarrow> False)"
proof

  show "dec_RecordPatch (cfPatchBody patch) empty_patch = (patch, True)"
    by (cases patch)
      (simp add: dec_RecordPatch_def cfPatchBody_def dec_members_append dec_patch_member empty_patch_def)
  show "case cfPatchBody patch of
        JObj kvs \<Rightarrow> set (map fst kvs) =
          (if p_Type patch = None then {} else {''type''}) \<union> (if p_Name patch = None then {} else {''name''})
          \<union> (if p_Content patch = None then {} else {''content''}) \<union> (if p_TTL patch = None then {} else {''ttl''})
          \<union> (if p_Priority patch = None then {} else {''priority''})
          \<union> (if p_Proxied patch = None then {} else {''proxied''})
      | _ \<Rightarrow> False"
    by (simp only: cfPatchBody_def json.case set_map set_append image_Un keys_set_member Un_assoc)
qed

section \<open>Where a token goes\<close>

text \<open>
  The contract of an operation of a connector, as a function of the token it holds: the token is
  the credential of every request, and nothing else depends on it. Services that do not look at the
  credential could not tell two tokens apart by anything the operation sends or answers.
\<close>

definition same_for_tokens :: "net \<Rightarrow> bool" where
  "same_for_tokens net \<longleftrightarrow> (\<forall>q a. net (q\<lparr>h_authorization := a\<rparr>) = net q)"

definition anonymous :: "http_request \<Rightarrow> http_request" where
  "anonymous q = q\<lparr>h_authorization := ''''\<rparr>"

definition token_private :: "(net \<Rightarrow> string \<Rightarrow> 'a call) \<Rightarrow> bool" where
  "token_private run \<longleftrightarrow>
     (\<forall>net t. \<forall>q \<in> set (fst (run net t)). h_authorization q = ''Bearer '' @ t)
     \<and> (\<forall>net t t'. same_for_tokens net \<longrightarrow>
          snd (run net t) = snd (run net t')
          \<and> map anonymous (fst (run net t)) = map anonymous (fst (run net t')))"

locale token_op =
  fixes run :: "net \<Rightarrow> string \<Rightarrow> 'a call"
  assumes credential: "q \<in> set (fst (run net t)) \<Longrightarrow> h_authorization q = ''Bearer '' @ t"
    and oblivious: "same_for_tokens net \<Longrightarrow>
      snd (run net t) = snd (run net t') \<and> map anonymous (fst (run net t)) = map anonymous (fst (run net t'))"
begin

lemma confined: "token_private run"
  using credential oblivious unfolding token_private_def by blast

lemma mapped_credential:
  "q \<in> set (fst (map_call f (run net t))) \<Longrightarrow> h_authorization q = ''Bearer '' @ t"
  by (simp add: map_call_def credential)

lemma mapped_oblivious:
  "same_for_tokens net \<Longrightarrow>
     snd (map_call f (run net t)) = snd (map_call f (run net t'))
     \<and> map anonymous (fst (map_call f (run net t))) = map anonymous (fst (map_call f (run net t')))"
  using oblivious [of net t t'] by (simp add: map_call_def)

end

lemma same_for_tokens_request:
  assumes "same_for_tokens net"
  shows "net \<lparr>h_method = m, h_url = u, h_authorization = a, h_body = b\<rparr>
       = net \<lparr>h_method = m, h_url = u, h_authorization = a', h_body = b\<rparr>"
proof -
  let ?q = "\<lparr>h_method = m, h_url = u, h_authorization = a', h_body = b\<rparr>"
  have "net (?q\<lparr>h_authorization := a\<rparr>) = net ?q"
    using assms unfolding same_for_tokens_def by blast
  then show ?thesis by simp
qed

interpretation cf_do: token_op
  "\<lambda>net t. cfDo net \<lparr>cf_token = t, cf_base = base\<rparr> meth pth body dec wanted zero"
  for base meth pth body dec wanted zero
proof
  fix net t t' and q :: http_request
  let ?run = "\<lambda>t. cfDo net \<lparr>cf_token = t, cf_base = base\<rparr> meth pth body dec wanted zero"
  show "q \<in> set (fst (?run t)) \<Longrightarrow> h_authorization q = ''Bearer '' @ t"
    by (auto simp: cfDo_def sent_def Let_def split: http_outcome.splits)
  assume "same_for_tokens net"
  from same_for_tokens_request [OF this, of meth "base @ pth" "''Bearer '' @ t" body "''Bearer '' @ t'"]
  show "snd (?run t) = snd (?run t') \<and> map anonymous (fst (?run t)) = map anonymous (fst (?run t'))"
    by (simp add: cfDo_def sent_def Let_def anonymous_def split: http_outcome.splits)
qed

interpretation cf_list_zones: token_op "\<lambda>net t. cf_ListZones net \<lparr>cf_token = t, cf_base = base\<rparr>" for base
  unfolding cf_ListZones_def
  by unfold_locales (rule cf_do.mapped_credential, assumption, rule cf_do.mapped_oblivious, assumption)

interpretation cf_zone_id: token_op
  "\<lambda>net t. cf_ZoneIDForName net \<lparr>cf_token = t, cf_base = base\<rparr> name" for base name
  unfolding cf_ZoneIDForName_def Let_def
  by unfold_locales (rule cf_do.mapped_credential, assumption, rule cf_do.mapped_oblivious, assumption)

interpretation cf_list_records: token_op
  "\<lambda>net t. cf_ListRecords net \<lparr>cf_token = t, cf_base = base\<rparr> zoneID" for base zoneID
  unfolding cf_ListRecords_def
  by unfold_locales (rule cf_do.mapped_credential, assumption, rule cf_do.mapped_oblivious, assumption)

interpretation cf_create: token_op
  "\<lambda>net t. cf_CreateRecord net \<lparr>cf_token = t, cf_base = base\<rparr> zoneID i" for base zoneID i
  unfolding cf_CreateRecord_def
  by unfold_locales (rule cf_do.mapped_credential, assumption, rule cf_do.mapped_oblivious, assumption)

interpretation cf_update: token_op
  "\<lambda>net t. cf_UpdateRecord net \<lparr>cf_token = t, cf_base = base\<rparr> zoneID rid patch" for base zoneID rid patch
  unfolding cf_UpdateRecord_def
  by unfold_locales (rule cf_do.mapped_credential, assumption, rule cf_do.mapped_oblivious, assumption)

interpretation cf_delete: token_op
  "\<lambda>net t. cf_DeleteRecord net \<lparr>cf_token = t, cf_base = base\<rparr> zoneID rid" for base zoneID rid
  unfolding cf_DeleteRecord_def
  by unfold_locales (rule cf_do.credential, assumption, rule cf_do.oblivious, assumption)


text \<open>The Cloudflare token rides only in the Authorization header. Every operation of the
  connector sends it as the credential; against services that ignore the credential, the rest
  of the requests (method, address, body) and the result, error texts included, are the
  same whatever the token is, so none of them carries any part of it.\<close>

theorem token_only_in_header:
  "token_private (\<lambda>net t. cf_ListZones net \<lparr>cf_token = t, cf_base = base\<rparr>)
   \<and> token_private (\<lambda>net t. cf_ZoneIDForName net \<lparr>cf_token = t, cf_base = base\<rparr> name)
   \<and> token_private (\<lambda>net t. cf_ListRecords net \<lparr>cf_token = t, cf_base = base\<rparr> zoneID)
   \<and> token_private (\<lambda>net t. cf_CreateRecord net \<lparr>cf_token = t, cf_base = base\<rparr> zoneID i)
   \<and> token_private (\<lambda>net t. cf_UpdateRecord net \<lparr>cf_token = t, cf_base = base\<rparr> zoneID rid patch)
   \<and> token_private (\<lambda>net t. cf_DeleteRecord net \<lparr>cf_token = t, cf_base = base\<rparr> zoneID rid)"
  by (intro conjI cf_list_zones.confined cf_zone_id.confined cf_list_records.confined cf_create.confined
      cf_update.confined cf_delete.confined)

section \<open>Resolution of zone names\<close>

text \<open>A zone id is only ever taken from a zone of the right name. When \<open>ZoneIDForName\<close>
  answers, the id belongs to a zone in the provider's list whose name, up to letter case and a
  final dot, is the name asked for; when no zone of the list has the name, the answer is an
  error. The first match in the list counts.\<close>

theorem zone_id_matches_name:
  assumes "snd (cfDo net p ''GET'' (''/zones?name='' @ QueryEscape (cf_zone_name name)) None
                  (dec_list zero_cfZone dec_cfZone) True []) = Inr zones"
  shows "case snd (cf_ZoneIDForName net p name) of
      Inr zid \<Rightarrow> (\<exists>z \<in> set zones. cz_ID z = zid
                   \<and> ToLower (TrimSuffix (cz_Name z) ''.'') = cf_zone_name name)
    | Inl _ \<Rightarrow> (\<forall>z \<in> set zones. ToLower (TrimSuffix (cz_Name z) ''.'') \<noteq> cf_zone_name name)"
proof -
  have lower: "ToLower (cf_zone_name name) = cf_zone_name name"
    by (simp add: cf_zone_name_def TrimSuffix_def ToLower_def take_map)
  show ?thesis
    using assms find_Some_iff [of "\<lambda>z. EqualFold (TrimSuffix (cz_Name z) ''.'') (cf_zone_name name)" zones]
      find_None_iff [of "\<lambda>z. EqualFold (TrimSuffix (cz_Name z) ''.'') (cf_zone_name name)" zones]
    by (auto simp: cf_ZoneIDForName_def map_call_def Let_def EqualFold_def lower
        split: option.splits)
qed

definition zones_net :: net where
  "zones_net q = Response 200 (Some (JObj [(''success'', JBool True),
     (''result'', JArr [JObj [(''id'', JStr ''other''), (''name'', JStr ''example.org'')],
                        JObj [(''id'', JStr ''zone7''), (''name'', JStr ''Example.COM'')]])]))"

definition sample_provider :: cloudflareProvider where
  "sample_provider = \<lparr>cf_token = ''t0k'', cf_base = ''http://cf''\<rparr>"

theorem zone_id_matches_name_witness:
  "snd (cf_ZoneIDForName zones_net sample_provider ''example.com.'') = Inr ''zone7''
   \<and> (\<exists>zones :: cfZone list. \<exists>z \<in> set zones. cz_ID z = ''zone7'' \<and> ToLower (TrimSuffix (cz_Name z) ''.'') = ''example.com'')"
proof -
  let ?c = "cfDo zones_net sample_provider ''GET'' (''/zones?name='' @ QueryEscape (cf_zone_name ''example.com.''))
    None (dec_list zero_cfZone dec_cfZone) True []"
  have zid: "snd (cf_ZoneIDForName zones_net sample_provider ''example.com.'') = Inr ''zone7''"
    and name: "cf_zone_name ''example.com.'' = ''example.com''" and "\<not> isl (snd ?c)"
    by code_simp+
  then obtain zones where "snd ?c = Inr zones"
    using not_isl_Inr by blast
  from zone_id_matches_name [OF this]
  have "\<exists>z \<in> set zones. cz_ID z = ''zone7'' \<and> ToLower (TrimSuffix (cz_Name z) ''.'') = ''example.com''"
    unfolding zid name sum.case .
  from zid this show ?thesis by (intro conjI exI)
qed

section \<open>Failures\<close>

text \<open>A status outside 2xx is not an error of \<open>cfDo\<close> by itself. The comment on the function
  says that it yields one; the code looks at the envelope alone, and a response with the status 500
  whose body says success is taken for a success, here for the deletion of a record.\<close>

theorem error_status_accepted:
  "snd (cf_DeleteRecord (\<lambda>q. Response 500 (Some (JObj [(''success'', JBool True)]))) p zoneID rid)
     = Inr ()"
  by (simp add: cf_DeleteRecord_def cfDo_def dec_cfEnvelope_def find_field_def EqualFold_def
      ToLower_def lower_char_def cfEnvelope_err_def)


end
