(* ===== verification/Hanzo_Auth.thy ===== *)
theory Hanzo_Auth
  imports Hanzo_Provider
begin

text \<open>
  Authentication of the REST API: \<^verbatim>\<open>oidc.go\<close>, and \<^verbatim>\<open>authMiddleware\<close> and \<^verbatim>\<open>authChain\<close> of \<^verbatim>\<open>api.go\<close>.

  A middleware either answers a request itself or passes it on with the values it put into the
  context. The cryptographic primitives and the JSON syntax of the decoded token parts are the
  fields of a record \<open>std\<close>; nothing is assumed of them. The current instant is an argument.
\<close>

section \<open>Replies of a middleware\<close>

datatype token_error =
    InvalidFormat
  | DecodeHeader
  | HeaderJSON
  | NoMatchingKey string
  | DecodeSignature
  | KeyDecode
  | UnsupportedCurve string
  | UnsupportedKeyType string
  | InvalidSignature
  | DecodeClaims
  | ClaimsJSON
  | NoExpiry
  | TokenExpired
  | InvalidIssuer string string
  | InvalidAudience

datatype message = Text string | TokenMessage token_error

datatype denial = Denial (d_status: nat) (d_code: string) (d_message: message)

section \<open>Tokens and keys\<close>

text \<open>\<^verbatim>\<open>base64.URLEncoding\<close>: groups of four letters, line breaks skipped, padding at the end.\<close>

definition b64_val :: "char \<Rightarrow> nat option" where
  "b64_val c =
     (let n = (of_char c :: nat) in
      if 65 \<le> n \<and> n \<le> 90 then Some (n - 65)
      else if 97 \<le> n \<and> n \<le> 122 then Some (n - 71)
      else if 48 \<le> n \<and> n \<le> 57 then Some (n + 4)
      else if c = CHR ''-'' then Some 62
      else if c = CHR ''_'' then Some 63
      else None)"

fun b64_quanta :: "string \<Rightarrow> string option" where
  "b64_quanta [] = Some []"
| "b64_quanta (a # b # c # d # s) =
     (case (b64_val a, b64_val b) of
        (Some x, Some y) \<Rightarrow>
          if d = CHR ''='' \<and> s = [] then
            (if c = CHR ''='' then Some [char_of (x * 4 + y div 16)]
             else map_option (\<lambda>z. [char_of (x * 4 + y div 16), char_of (y mod 16 * 16 + z div 4)]) (b64_val c))
          else
            (case (b64_val c, b64_val d, b64_quanta s) of
               (Some z, Some w, Some r) \<Rightarrow>
                 Some (char_of (x * 4 + y div 16) # char_of (y mod 16 * 16 + z div 4)
                       # char_of (z mod 4 * 64 + w) # r)
             | _ \<Rightarrow> None)
      | _ \<Rightarrow> None)"
| "b64_quanta s = None"

definition URLEncoding_DecodeString :: "string \<Rightarrow> string option" where
  "URLEncoding_DecodeString s = b64_quanta (filter (\<lambda>c. c \<noteq> char_of (10 :: nat) \<and> c \<noteq> char_of (13 :: nat)) s)"

definition base64URLDecode :: "string \<Rightarrow> string option" where
  "base64URLDecode s =
     URLEncoding_DecodeString
       (if length s mod 4 = 2 then s @ ''=='' else if length s mod 4 = 3 then s @ ''='' else s)"

record jwtClaims =
  t_Issuer :: string
  t_Subject :: string
  t_Audience :: "string list"
  t_Expiry :: int
  t_IssuedAt :: int
  t_Owner :: string
  t_OrgID :: string

definition claims_org :: "jwtClaims \<Rightarrow> string" where
  "claims_org c = (if t_Owner c \<noteq> '''' then t_Owner c else t_OrgID c)"

text \<open>
  \<^verbatim>\<open>audienceClaim.UnmarshalJSON\<close>: one string, which \<^verbatim>\<open>null\<close> leaves empty, or a list of strings.
\<close>

fun dec_audience :: "((string list \<Rightarrow> string list) \<Rightarrow> 'r \<Rightarrow> 'r) \<Rightarrow> 'r decoder" where
  "dec_audience upd (JStr s) r = (upd (\<lambda>_. [s]) r, True)"
| "dec_audience upd JNull r = (upd (\<lambda>_. ['''']) r, True)"
| "dec_audience upd (JArr js) r =
     (let (vs, ok) = dec_elements '''' (dec_string (\<lambda>f. f)) js in if ok then (upd (\<lambda>_. vs) r, True) else (r, False))"
| "dec_audience upd _ r = (r, False)"

definition dec_jwtClaims :: "jwtClaims decoder" where
  "dec_jwtClaims = dec_struct
     [(''iss'', dec_string t_Issuer_update), (''sub'', dec_string t_Subject_update),
      (''aud'', dec_audience t_Audience_update), (''exp'', dec_int64 t_Expiry_update),
      (''iat'', dec_int64 t_IssuedAt_update), (''owner'', dec_string t_Owner_update),
      (''org_id'', dec_string t_OrgID_update)]"

definition zero_jwtClaims :: jwtClaims where
  "zero_jwtClaims = \<lparr>t_Issuer = '''', t_Subject = '''', t_Audience = [], t_Expiry = 0,
     t_IssuedAt = 0, t_Owner = '''', t_OrgID = ''''\<rparr>"

record jwk =
  j_Kty :: string
  j_Kid :: string
  j_Alg :: string
  j_Use :: string
  j_N :: string
  j_E :: string
  j_Crv :: string
  j_X :: string
  j_Y :: string

definition dec_jwk :: "jwk decoder" where
  "dec_jwk = dec_struct
     [(''kty'', dec_string j_Kty_update), (''kid'', dec_string j_Kid_update),
      (''alg'', dec_string j_Alg_update), (''use'', dec_string j_Use_update),
      (''n'', dec_string j_N_update), (''e'', dec_string j_E_update),
      (''crv'', dec_string j_Crv_update), (''x'', dec_string j_X_update),
      (''y'', dec_string j_Y_update)]"

definition zero_jwk :: jwk where
  "zero_jwk = \<lparr>j_Kty = '''', j_Kid = '''', j_Alg = '''', j_Use = '''', j_N = '''', j_E = '''',
     j_Crv = '''', j_X = '''', j_Y = ''''\<rparr>"

text \<open>\<^verbatim>\<open>big.Int.SetBytes\<close> reads the bytes from the most significant one; \<^verbatim>\<open>Int64\<close> keeps 64 bits.\<close>

definition SetBytes :: "string \<Rightarrow> int" where
  "SetBytes bs = foldl (\<lambda>acc b. 256 * acc + of_char b) 0 bs"

definition Int64 :: "int \<Rightarrow> int" where
  "Int64 n =
     (let m = n mod 18446744073709551616
      in if m < 9223372036854775808 then m else m - 18446744073709551616)"

datatype curve = P256 | P384
datatype publicKey = RSAKey int int | ECKey curve int int

definition toPublicKey :: "jwk \<Rightarrow> token_error + publicKey" where
  "toPublicKey k =
     (if j_Kty k = ''RSA'' then
        (case base64URLDecode (j_N k) of
           None \<Rightarrow> Inl KeyDecode
         | Some nb \<Rightarrow>
             (case base64URLDecode (j_E k) of
                None \<Rightarrow> Inl KeyDecode
              | Some eb \<Rightarrow> Inr (RSAKey (SetBytes nb) (Int64 (SetBytes eb)))))
      else if j_Kty k = ''EC'' then
        (case base64URLDecode (j_X k) of
           None \<Rightarrow> Inl KeyDecode
         | Some xb \<Rightarrow>
             (case base64URLDecode (j_Y k) of
                None \<Rightarrow> Inl KeyDecode
              | Some yb \<Rightarrow>
                  if j_Crv k = ''P-256'' then Inr (ECKey P256 (SetBytes xb) (SetBytes yb))
                  else if j_Crv k = ''P-384'' then Inr (ECKey P384 (SetBytes xb) (SetBytes yb))
                  else Inl (UnsupportedCurve (j_Crv k))))
      else Inl (UnsupportedKeyType (j_Kty k)))"

section \<open>validateToken\<close>

record std =
  v_sha256 :: "string \<Rightarrow> string"
  v_VerifyPKCS1v15 :: "int \<Rightarrow> int \<Rightarrow> string \<Rightarrow> string \<Rightarrow> bool"
  v_VerifyASN1 :: "curve \<Rightarrow> int \<Rightarrow> int \<Rightarrow> string \<Rightarrow> string \<Rightarrow> bool"
  v_json :: "string \<Rightarrow> json option"

record jwtHeader =
  hd_Alg :: string
  hd_Kid :: string

definition dec_jwtHeader :: "jwtHeader decoder" where
  "dec_jwtHeader = dec_struct [(''alg'', dec_string hd_Alg_update), (''kid'', dec_string hd_Kid_update)]"

definition verify :: "std \<Rightarrow> publicKey \<Rightarrow> string \<Rightarrow> string \<Rightarrow> bool" where
  "verify std key hash signature =
     (case key of
        RSAKey n e \<Rightarrow> v_VerifyPKCS1v15 std n e hash signature
      | ECKey crv x y \<Rightarrow> v_VerifyASN1 std crv x y hash signature)"

definition splitAudience :: "string \<Rightarrow> string list" where
  "splitAudience s = filter (\<lambda>p. p \<noteq> '''') (map TrimSpace (Split s CHR '',''))"

definition matchesAny :: "string list \<Rightarrow> string list \<Rightarrow> bool" where
  "matchesAny a allow = list_ex (\<lambda>want. list_ex (\<lambda>got. got = want) a) allow"

definition checkClaims :: "time \<Rightarrow> string \<Rightarrow> string \<Rightarrow> jwtClaims \<Rightarrow> token_error + jwtClaims" where
  "checkClaims now issuer audience c =
     (if t_Expiry c = 0 then Inl NoExpiry
      else if now div second \<ge> t_Expiry c then Inl TokenExpired
      else if t_Issuer c \<noteq> issuer then Inl (InvalidIssuer (t_Issuer c) issuer)
      else if splitAudience audience \<noteq> [] \<and> \<not> matchesAny (t_Audience c) (splitAudience audience) then
        Inl InvalidAudience
      else Inr c)"

definition matchedKey :: "string \<Rightarrow> jwk list \<Rightarrow> jwk option" where
  "matchedKey kid keys = find (\<lambda>k. j_Kid k = kid \<or> kid = '''' \<and> j_Use k = ''sig'') keys"

definition validateToken ::
  "std \<Rightarrow> time \<Rightarrow> string \<Rightarrow> jwk list \<Rightarrow> string \<Rightarrow> string \<Rightarrow> token_error + jwtClaims" where
  "validateToken std now tokenStr keys issuer audience =
     (case Split tokenStr CHR ''.'' of
        [p0, p1, p2] \<Rightarrow>
          (case base64URLDecode p0 of
             None \<Rightarrow> Inl DecodeHeader
           | Some headerBytes \<Rightarrow>
          (case Decode dec_jwtHeader \<lparr>hd_Alg = '''', hd_Kid = ''''\<rparr> (v_json std headerBytes) of
             None \<Rightarrow> Inl HeaderJSON
           | Some header \<Rightarrow>
          (case matchedKey (hd_Kid header) keys of
             None \<Rightarrow> Inl (NoMatchingKey (hd_Kid header))
           | Some k \<Rightarrow>
          (case base64URLDecode p2 of
             None \<Rightarrow> Inl DecodeSignature
           | Some signature \<Rightarrow>
          (case toPublicKey k of
             Inl e \<Rightarrow> Inl e
           | Inr key \<Rightarrow>
               if \<not> verify std key (v_sha256 std (p0 @ ''.'' @ p1)) signature then Inl InvalidSignature
               else
          (case base64URLDecode p1 of
             None \<Rightarrow> Inl DecodeClaims
           | Some claimsBytes \<Rightarrow>
          (case Decode dec_jwtClaims zero_jwtClaims (v_json std claimsBytes) of
             None \<Rightarrow> Inl ClaimsJSON
           | Some c \<Rightarrow> checkClaims now issuer audience c)))))))
      | _ \<Rightarrow> Inl InvalidFormat)"

section \<open>The key cache\<close>

record jwksCache =
  jc_keys :: "jwk list"
  jc_fetchedAt :: time

record oidc_config =
  oc_JWKSURI :: string

definition hour :: duration where
  "hour = 3600 * second"

definition get_request :: "string \<Rightarrow> http_request" where
  "get_request url = \<lparr>h_method = ''GET'', h_url = url, h_authorization = '''', h_body = None\<rparr>"

definition http_get :: "net \<Rightarrow> string \<Rightarrow> json option option" where
  "http_get net url = (case net (get_request url) of Response _ body \<Rightarrow> Some body | _ \<Rightarrow> None)"

text \<open>\<^verbatim>\<open>fetchJWKS\<close>, with \<open>None\<close> for every error: the caller does not look at it.\<close>

definition fetchJWKS :: "net \<Rightarrow> string \<Rightarrow> jwk list option" where
  "fetchJWKS net issuerURL =
     (case http_get net (TrimSuffix issuerURL ''/'' @ ''/.well-known/openid-configuration'') of
        None \<Rightarrow> None
      | Some body \<Rightarrow>
     (case Decode (dec_struct [(''jwks_uri'', dec_string oc_JWKSURI_update)]) \<lparr>oc_JWKSURI = ''''\<rparr> body of
        None \<Rightarrow> None
      | Some config \<Rightarrow>
          if oc_JWKSURI config = '''' then None
          else
     (case http_get net (oc_JWKSURI config) of
        None \<Rightarrow> None
      | Some body2 \<Rightarrow>
          Decode (dec_struct [(''keys'', dec_slice zero_jwk dec_jwk (\<lambda>f. f))]) [] body2)))"

definition fresh_keys :: "time \<Rightarrow> jwksCache \<Rightarrow> bool" where
  "fresh_keys now c = (now - jc_fetchedAt c < hour \<and> jc_keys c \<noteq> [])"

text \<open>
  The part of \<^verbatim>\<open>getKeys\<close> under the write lock, which repeats the test because another request may
  have fetched the keys meanwhile. The result is \<open>None\<close> when there are no keys to return; the flag
  tells whether the keys were fetched over the network.
\<close>

definition getKeys_locked :: "net \<Rightarrow> string \<Rightarrow> time \<Rightarrow> jwksCache \<Rightarrow> jwk list option \<times> jwksCache \<times> bool" where
  "getKeys_locked net issuer now c =
     (if fresh_keys now c then (Some (jc_keys c), c, False)
      else case fetchJWKS net issuer of
        None \<Rightarrow> (if jc_keys c \<noteq> [] then Some (jc_keys c) else None, c, True)
      | Some keys \<Rightarrow> (Some keys, \<lparr>jc_keys = keys, jc_fetchedAt = now\<rparr>, True))"

definition getKeys :: "net \<Rightarrow> string \<Rightarrow> time \<Rightarrow> jwksCache \<Rightarrow> jwk list option \<times> jwksCache \<times> bool" where
  "getKeys net issuer now c =
     (if fresh_keys now c then (Some (jc_keys c), c, False) else getKeys_locked net issuer now c)"

section \<open>The middlewares\<close>

definition unauthorized :: "message \<Rightarrow> denial" where
  "unauthorized m = Denial 401 ''unauthorized'' m"

definition bearer_of :: "string \<Rightarrow> string option" where
  "bearer_of auth =
     (case SplitN auth CHR '' '' 2 of
        [scheme, token] \<Rightarrow> if EqualFold scheme ''bearer'' then Some token else None
      | _ \<Rightarrow> None)"

definition unconfigured :: denial where
  "unconfigured = Denial 503 ''unconfigured'' (Text ''authentication is not configured'')"

definition no_context :: context_values where
  "no_context = \<lparr>c_org = '''', c_bearer = ''''\<rparr>"

definition oidcMiddleware ::
  "std \<Rightarrow> environ \<Rightarrow> net \<Rightarrow> time \<Rightarrow> jwksCache \<Rightarrow> string \<Rightarrow> (denial + context_values) \<times> jwksCache" where
  "oidcMiddleware std env net now cache auth =
     (let issuer = env ''HANZO_DNS_OIDC_ISSUER''; audience = env ''HANZO_DNS_OIDC_AUDIENCE'' in
      if issuer = '''' then (Inr no_context, cache)
      else if auth = '''' then (Inl (unauthorized (Text ''missing Authorization header'')), cache)
      else case bearer_of auth of
        None \<Rightarrow> (Inl (unauthorized (Text ''invalid Authorization header'')), cache)
      | Some token \<Rightarrow>
          (case getKeys net issuer now cache of
             (None, cache', _) \<Rightarrow>
               (Inl (Denial 500 ''internal_error'' (Text ''failed to fetch JWKS'')), cache')
           | (Some keys, cache', _) \<Rightarrow>
               (case validateToken std now token keys issuer audience of
                  Inl e \<Rightarrow> (Inl (unauthorized (TokenMessage e)), cache')
                | Inr claims \<Rightarrow> (Inr \<lparr>c_org = claims_org claims, c_bearer = token\<rparr>, cache'))))"

definition authMiddleware :: "environ \<Rightarrow> string \<Rightarrow> denial + context_values" where
  "authMiddleware env auth =
     (let key = env ''HANZO_DNS_API_KEY'' in
      if key = '''' then Inl unconfigured
      else if auth = '''' then Inl (unauthorized (Text ''missing Authorization header''))
      else if bearer_of auth \<noteq> Some key then Inl (unauthorized (Text ''invalid bearer token''))
      else Inr no_context)"

definition authChain ::
  "std \<Rightarrow> environ \<Rightarrow> net \<Rightarrow> time \<Rightarrow> jwksCache \<Rightarrow> string \<Rightarrow> (denial + context_values) \<times> jwksCache" where
  "authChain std env net now cache auth =
     (if env ''HANZO_DNS_OIDC_ISSUER'' \<noteq> '''' then oidcMiddleware std env net now cache auth
      else if env ''HANZO_DNS_API_KEY'' \<noteq> '''' then (authMiddleware env auth, cache)
      else if env ''HANZO_DNS_DEV_INSECURE'' = ''1'' then (Inr no_context, cache)
      else (Inl unconfigured, cache))"

section \<open>Lemmas\<close>

lemma Join_Split: "Join (Split s c) [c] = s"
proof (induction s)
  case Nil
  then show ?case by simp
next
  case (Cons x s)
  obtain p ps where "Split s c = p # ps"
    by (cases "Split s c") auto
  with Cons show ?case by (cases ps) auto
qed

lemma validateToken_Inr:
  assumes "validateToken std now tokenStr keys issuer audience = Inr c"
  shows "\<exists>p0 p1 p2 headerBytes header k key sig claimsBytes.
      tokenStr = p0 @ ''.'' @ p1 @ ''.'' @ p2
    \<and> base64URLDecode p0 = Some headerBytes
    \<and> Decode dec_jwtHeader \<lparr>hd_Alg = '''', hd_Kid = ''''\<rparr> (v_json std headerBytes) = Some header
    \<and> matchedKey (hd_Kid header) keys = Some k
    \<and> base64URLDecode p2 = Some sig
    \<and> toPublicKey k = Inr key
    \<and> verify std key (v_sha256 std (p0 @ ''.'' @ p1)) sig
    \<and> base64URLDecode p1 = Some claimsBytes
    \<and> Decode dec_jwtClaims zero_jwtClaims (v_json std claimsBytes) = Some c
    \<and> checkClaims now issuer audience c = Inr c"
proof -
  obtain p0 p1 p2 where parts: "Split tokenStr CHR ''.'' = [p0, p1, p2]"
    using assms by (auto simp: validateToken_def split: list.splits)
  have "tokenStr = p0 @ ''.'' @ p1 @ ''.'' @ p2"
    using Join_Split [of tokenStr "CHR ''.''"] by (simp add: parts)
  moreover have "checkClaims now issuer audience c' = Inr c \<Longrightarrow> c' = c" for c'
    by (auto simp: checkClaims_def split: if_splits)
  ultimately show ?thesis
    using assms unfolding validateToken_def parts
    by (fastforce split: option.splits sum.splits if_splits)
qed

lemma matchesAny_iff: "matchesAny a allow \<longleftrightarrow> set a \<inter> set allow \<noteq> {}"
  by (auto simp: matchesAny_def list_ex_iff)

lemma checkClaims_Inr:
  "checkClaims now issuer audience c = Inr c \<longleftrightarrow>
     t_Expiry c \<noteq> 0 \<and> now div second < t_Expiry c \<and> t_Issuer c = issuer
     \<and> (splitAudience audience = [] \<or> set (t_Audience c) \<inter> set (splitAudience audience) \<noteq> {})"
  by (auto simp: checkClaims_def matchesAny_iff)

section \<open>Properties\<close>

text \<open>C26: A token is accepted only with a valid signature and valid claims. The token has three
  parts; the third verifies, under a key of the issuer's key set, the first two; the claims are those
  of the second part; they name the configured issuer, expire in the future, and name an allowed
  audience when audiences are configured.\<close>

theorem validate_token_sound:
  assumes "validateToken std now tokenStr keys issuer audience = Inr c"
  shows "\<exists>p0 p1 p2 k key sig claimsBytes.
      tokenStr = p0 @ ''.'' @ p1 @ ''.'' @ p2
    \<and> k \<in> set keys \<and> toPublicKey k = Inr key
    \<and> base64URLDecode p2 = Some sig \<and> verify std key (v_sha256 std (p0 @ ''.'' @ p1)) sig
    \<and> base64URLDecode p1 = Some claimsBytes
    \<and> Decode dec_jwtClaims zero_jwtClaims (v_json std claimsBytes) = Some c
    \<and> t_Issuer c = issuer \<and> t_Expiry c \<noteq> 0 \<and> now div second < t_Expiry c
    \<and> (splitAudience audience = [] \<or> set (t_Audience c) \<inter> set (splitAudience audience) \<noteq> {})"
proof -
  have "k \<in> set keys" if "matchedKey kid keys = Some k" for kid k
    using that by (auto simp: matchedKey_def find_Some_iff)
  then show ?thesis
    using validateToken_Inr [OF assms] unfolding checkClaims_Inr by blast
qed

definition iam_key :: jwk where
  "iam_key = zero_jwk\<lparr>j_Kty := ''RSA'', j_Kid := ''k1'', j_N := ''Ag'', j_E := ''AQAB''\<rparr>"

text \<open>A library that accepts the signature \<open>s\<close> of one message under the key above.\<close>

definition sample_std :: std where
  "sample_std = \<lparr>v_sha256 = (\<lambda>m. m),
     v_VerifyPKCS1v15 = (\<lambda>n e h sig. n = 2 \<and> e = 65537 \<and> h = ''aA.Yw'' \<and> sig = ''s''),
     v_VerifyASN1 = (\<lambda>crv x y h sig. False),
     v_json = (\<lambda>b. if b = ''h'' then Some (JObj [(''alg'', JStr ''RS256''), (''kid'', JStr ''k1'')])
       else if b = ''c'' then Some (JObj [(''iss'', JStr ''https://iam''), (''exp'', JNum ''100''),
         (''owner'', JStr ''acme''), (''aud'', JArr [JStr ''x'', JStr ''dns''])])
       else None)\<rparr>"

theorem validate_token_sound_witness:
  "\<exists>c. validateToken sample_std (7 * second) ''aA.Yw.cw'' [iam_key] ''https://iam'' ''dns, api'' = Inr c
     \<and> claims_org c = ''acme'' \<and> (\<exists>k \<in> set [iam_key]. toPublicKey k = Inr (RSAKey 2 65537))"
proof -
  let ?v = "validateToken sample_std (7 * second) ''aA.Yw.cw'' [iam_key] ''https://iam'' ''dns, api''"
  let ?c = "\<lparr>t_Issuer = ''https://iam'', t_Subject = '''', t_Audience = [''x'', ''dns''], t_Expiry = 100,
     t_IssuedAt = 0, t_Owner = ''acme'', t_OrgID = ''''\<rparr>"
  have v: "?v = Inr ?c" and key: "toPublicKey iam_key = Inr (RSAKey 2 65537)" by code_simp+
  from validate_token_sound [OF v] have "\<exists>k \<in> set [iam_key]. \<exists>key. toPublicKey k = Inr key"
    by blast
  then have "\<exists>k \<in> set [iam_key]. toPublicKey k = Inr (RSAKey 2 65537)"
    by (simp add: key)
  with v show ?thesis
    by (intro exI [of _ ?c] conjI) (simp_all only: claims_org_def jwtClaims.simps, simp)
qed

text \<open>C27: The API fails closed. A request passes exactly when it carries a token that the configured
  issuer signed, or, without an issuer, the configured shared key, or when neither is configured
  and the insecure mode is switched on. With an issuer, the organisation handed on is the one of the
  token's claims, and the bearer is the token itself.\<close>

theorem auth_fails_closed:
  "fst (authChain std env net now cache auth) = Inr ctx \<longleftrightarrow>
     (if env ''HANZO_DNS_OIDC_ISSUER'' \<noteq> '''' then
        (\<exists>token keys claims.
           auth \<noteq> '''' \<and> bearer_of auth = Some token
           \<and> fst (getKeys net (env ''HANZO_DNS_OIDC_ISSUER'') now cache) = Some keys
           \<and> validateToken std now token keys (env ''HANZO_DNS_OIDC_ISSUER'')
               (env ''HANZO_DNS_OIDC_AUDIENCE'') = Inr claims
           \<and> c_org ctx = claims_org claims \<and> c_bearer ctx = token)
      else if env ''HANZO_DNS_API_KEY'' \<noteq> '''' then
        auth \<noteq> '''' \<and> bearer_of auth = Some (env ''HANZO_DNS_API_KEY'') \<and> ctx = no_context
      else env ''HANZO_DNS_DEV_INSECURE'' = ''1'' \<and> ctx = no_context)"
  by (cases ctx)
    (auto simp: authChain_def oidcMiddleware_def authMiddleware_def Let_def
      split: option.splits sum.splits prod.splits if_splits)

text \<open>The calls of \<open>getKeys_locked\<close> that requests make one after the other.\<close>

fun locked_calls ::
  "string \<Rightarrow> (net \<times> time) list \<Rightarrow> jwksCache \<Rightarrow> (jwk list option \<times> bool) list" where
  "locked_calls issuer [] c = []"
| "locked_calls issuer ((net, now) # cs) c =
     (let (keys, c', fetched) = getKeys_locked net issuer now c
      in (keys, fetched) # locked_calls issuer cs c')"

text \<open>Concurrent requests do not fetch the keys again. Once the keys have been fetched at some
  instant, every request that waited for the lock meanwhile, and every one that comes within the next
  hour, gets the same keys without a fetch.\<close>

theorem jwks_fetched_once:
  assumes "fetchJWKS net issuer = Some keys" and "keys \<noteq> []" and "\<not> fresh_keys now c"
    and "\<forall>(n, t) \<in> set calls. t - now < hour"
  shows "locked_calls issuer ((net, now) # calls) c
    = (Some keys, True) # replicate (length calls) (Some keys, False)"
proof -
  have "locked_calls issuer calls \<lparr>jc_keys = keys, jc_fetchedAt = now\<rparr>
      = replicate (length calls) (Some keys, False)"
    using assms(2,4)
    by (induction calls) (auto simp: getKeys_locked_def fresh_keys_def)
  with assms show ?thesis
    by (simp add: getKeys_locked_def)
qed

definition iam_net :: net where
  "iam_net q =
     (if h_url q = ''https://iam/.well-known/openid-configuration'' then
        Response 200 (Some (JObj [(''jwks_uri'', JStr ''https://iam/keys'')]))
      else if h_url q = ''https://iam/keys'' then
        Response 200 (Some (JObj [(''keys'', JArr [JObj
          [(''kty'', JStr ''RSA''), (''kid'', JStr ''k1''), (''n'', JStr ''Ag''), (''e'', JStr ''AQAB'')]])]))
      else NoResponse)"

definition no_keys :: jwksCache where
  "no_keys = \<lparr>jc_keys = [], jc_fetchedAt = 0\<rparr>"

theorem jwks_fetched_once_witness:
  "locked_calls ''https://iam/'' [(iam_net, 5), (\<lambda>q. NoResponse, 6), (\<lambda>q. NoResponse, 1000)] no_keys
   = [(Some [iam_key], True), (Some [iam_key], False), (Some [iam_key], False)]"
proof -
  have "fetchJWKS iam_net ''https://iam/'' = Some [iam_key]" by code_simp
  moreover have "\<not> fresh_keys 5 no_keys" by code_simp
  moreover have "\<forall>(n, t) \<in> set [(\<lambda>q :: http_request. NoResponse, 6), (\<lambda>q. NoResponse, 1000)]. t - 5 < hour"
    by (simp add: hour_def second_def)
  ultimately show ?thesis
    using jwks_fetched_once [of iam_net "''https://iam/''" "[iam_key]" 5 no_keys
        "[(\<lambda>q. NoResponse, 6), (\<lambda>q. NoResponse, 1000)]"]
    by (simp only: list.size replicate.simps) simp
qed

text \<open>An error reply of the key server empties the key cache. \<open>fetchJWKS\<close> does not look at the
  status, and a JSON object without keys decodes to an empty list: the keys that were
  good until then are dropped, and every token is refused until the server recovers. When the server does
  not answer at all, the old keys stay in use.\<close>

theorem jwks_error_reply_drops_keys:
  "(let down = (\<lambda>q. if h_url q = ''https://iam/.well-known/openid-configuration''
                    then Response 200 (Some (JObj [(''jwks_uri'', JStr ''https://iam/keys'')]))
                    else Response 503 (Some (JObj [(''error'', JStr ''unavailable'')])));
        old = \<lparr>jc_keys = [iam_key], jc_fetchedAt = 0\<rparr>
    in getKeys down ''https://iam'' hour old = (Some [], \<lparr>jc_keys = [], jc_fetchedAt = hour\<rparr>, True)
       \<and> getKeys (\<lambda>q. NoResponse) ''https://iam'' hour old = (Some [iam_key], old, True))"
  by code_simp

end
