(* ===== verification/Hanzo_API.thy ===== *)
theory Hanzo_API
  imports Hanzo_Auth
begin

text \<open>
  The REST API of the \<^verbatim>\<open>hanzodns\<close> plugin: the handlers and routes of \<^verbatim>\<open>api.go\<close> and the bulk
  endpoint of \<^verbatim>\<open>api_sync.go\<close>.

  A handler takes the surroundings (environment, other services, current instant, identifiers), the
  context values of the authentication, the request and the store. It yields the reply, the new
  store, whether the store notified its hook, and the requests it sent to other services.
\<close>

section \<open>Requests, replies, surroundings\<close>

record api_request =
  a_method :: string
  a_path :: string
  a_authorization :: string
  a_body :: "json option"

datatype body =
    ErrorBody string message
  | HealthBody
  | ZonesBody "Zone list"
  | ZoneBody Zone
  | RecordsBody "Record list"
  | RecordBody Record
  | SyncedBody "SyncResponse list"
  | EmptyObject
  | MuxBody

datatype reply = Reply (status: nat) (rbody: body)

record world =
  w_env :: environ
  w_net :: net
  w_std :: std
  w_now :: time
  w_uuid :: "nat \<Rightarrow> nat \<Rightarrow> string"

type_synonym served = "reply \<times> Store \<times> bool \<times> http_request list"

definition writeError :: "nat \<Rightarrow> string \<Rightarrow> string \<Rightarrow> reply" where
  "writeError st code msg = Reply st (ErrorBody code (Text msg))"

definition reqOrg :: "context_values \<Rightarrow> string" where
  "reqOrg ctx = OrgIDFromContext ctx"

section \<open>Backends\<close>

datatype backend_error = ErrZoneNotFound | BackendError string | NilProvider

text \<open>
  \<^verbatim>\<open>zoneBackend\<close>. The result is \<open>None\<close> for an authoritative zone. \<open>NilProvider\<close> stands
  for the call of a method on the nil interface that \<^verbatim>\<open>providerFor\<close> returns for an authoritative
  zone; see the lemma \<open>zoneBackend_no_nil\<close>.
\<close>

definition zoneBackend ::
  "world \<Rightarrow> context_values \<Rightarrow> Store \<Rightarrow> string
     \<Rightarrow> http_request list \<times> (backend_error + (cloudflareProvider \<times> string) option)" where
  "zoneBackend w ctx store zoneName =
     (let org = OrgIDFromContext ctx in
      case ZoneProvider store org zoneName of
        None \<Rightarrow> ([], Inl ErrZoneNotFound)
      | Some kind \<Rightarrow>
          if kind = ProviderAuthoritative then ([], Inr None)
          else
            (case providerFor (w_env w) (w_net w) ctx org kind of
               (qs, Inl e) \<Rightarrow> (qs, Inl (BackendError e))
             | (qs, Inr None) \<Rightarrow> (qs, Inl NilProvider)
             | (qs, Inr (Some prov)) \<Rightarrow>
                 (case cf_ZoneIDForName (w_net w) prov zoneName of
                    (qs', Inl e) \<Rightarrow> (qs @ qs', Inl (BackendError e))
                  | (qs', Inr zoneID) \<Rightarrow> (qs @ qs', Inr (Some (prov, zoneID))))))"

definition toRecord :: "time \<Rightarrow> ProviderRecord \<Rightarrow> Record" where
  "toRecord now pr =
     \<lparr>r_ID = pr_ID pr, r_Name = pr_Name pr, r_Type = pr_Type pr, r_TTL = pr_TTL pr,
      r_Content = pr_Content pr, r_Priority = pr_Priority pr, r_Proxied = pr_Proxied pr,
      r_CreatedAt = now, r_UpdatedAt = now\<rparr>"

fun writeBackendError :: "backend_error \<Rightarrow> reply" where
  "writeBackendError ErrZoneNotFound = writeError 404 ''not_found'' ''zone not found''"
| "writeBackendError (BackendError e) = writeError 502 ''provider_error'' e"
| "writeBackendError NilProvider = Reply 0 MuxBody"

section \<open>Handlers of zones\<close>

definition handleHealth :: reply where
  "handleHealth = Reply 200 HealthBody"

definition handleListZones :: "context_values \<Rightarrow> Store \<Rightarrow> served" where
  "handleListZones ctx s = (Reply 200 (ZonesBody (ListZones s (reqOrg ctx))), s, False, [])"

definition handleGetZone :: "context_values \<Rightarrow> Store \<Rightarrow> string \<Rightarrow> served" where
  "handleGetZone ctx s zoneName =
     (case GetZone s (reqOrg ctx) zoneName of
        None \<Rightarrow> (writeError 404 ''not_found'' ''zone not found'', s, False, [])
      | Some z \<Rightarrow> (Reply 200 (ZoneBody z), s, False, []))"

record create_zone_body =
  cb_Zone :: string
  cb_Provider :: string

definition dec_create_zone_body :: "create_zone_body decoder" where
  "dec_create_zone_body = dec_struct
     [(''zone'', dec_string cb_Zone_update), (''provider'', dec_string cb_Provider_update)]"

definition handleCreateZone :: "world \<Rightarrow> context_values \<Rightarrow> api_request \<Rightarrow> Store \<Rightarrow> served" where
  "handleCreateZone w ctx r s =
     (case Decode dec_create_zone_body \<lparr>cb_Zone = '''', cb_Provider = ''''\<rparr> (a_body r) of
        None \<Rightarrow> (writeError 400 ''bad_request'' ''invalid JSON body'', s, False, [])
      | Some b \<Rightarrow>
          if cb_Zone b = '''' then (writeError 400 ''bad_request'' ''zone name is required'', s, False, [])
          else
            (case normProvider (cb_Provider b) of
               Inl e \<Rightarrow> (writeError 400 ''bad_request'' e, s, False, [])
             | Inr provider \<Rightarrow>
                 (case CreateZone (w_uuid w 0 0) (w_now w) s (reqOrg ctx) (cb_Zone b) provider of
                    (Inl e, s', n) \<Rightarrow>
                      if Contains (store_error_text e) ''already exists'' then
                        (writeError 409 ''conflict'' (store_error_text e), s', n, [])
                      else (writeError 500 ''internal_error'' (store_error_text e), s', n, [])
                  | (Inr z, s', n) \<Rightarrow> (Reply 201 (ZoneBody z), s', n, []))))"

definition handleDeleteZone :: "context_values \<Rightarrow> Store \<Rightarrow> string \<Rightarrow> served" where
  "handleDeleteZone ctx s zoneName =
     (case DeleteZone s (reqOrg ctx) zoneName of
        (Inl e, s', n) \<Rightarrow> (writeError 404 ''not_found'' (store_error_text e), s', n, [])
      | (Inr _, s', n) \<Rightarrow> (Reply 200 EmptyObject, s', n, []))"

section \<open>Handlers of records\<close>

definition handleListRecords :: "world \<Rightarrow> context_values \<Rightarrow> Store \<Rightarrow> string \<Rightarrow> served" where
  "handleListRecords w ctx s zoneName =
     (case zoneBackend w ctx s zoneName of
        (qs, Inl e) \<Rightarrow> (writeBackendError e, s, False, qs)
      | (qs, Inr (Some (prov, zoneID))) \<Rightarrow>
          (case cf_ListRecords (w_net w) prov zoneID of
             (qs', Inl e) \<Rightarrow> (writeError 502 ''provider_error'' e, s, False, qs @ qs')
           | (qs', Inr prs) \<Rightarrow>
               (Reply 200 (RecordsBody (map (toRecord (w_now w)) prs)), s, False, qs @ qs'))
      | (qs, Inr None) \<Rightarrow>
          (case ListRecords s (reqOrg ctx) zoneName of
             Inl e \<Rightarrow> (writeError 404 ''not_found'' (store_error_text e), s, False, qs)
           | Inr records \<Rightarrow> (Reply 200 (RecordsBody records), s, False, qs)))"

definition handleGetRecord :: "context_values \<Rightarrow> Store \<Rightarrow> string \<Rightarrow> string \<Rightarrow> served" where
  "handleGetRecord ctx s zoneName recordID =
     (case GetRecord s (reqOrg ctx) zoneName recordID of
        Inl e \<Rightarrow> (writeError 404 ''not_found'' (store_error_text e), s, False, [])
      | Inr rec \<Rightarrow> (Reply 200 (RecordBody rec), s, False, []))"

definition zero_input :: RecordInput where
  "zero_input = \<lparr>i_Name = '''', i_Type = '''', i_Content = '''', i_TTL = 0, i_Proxied = False,
     i_Priority = 0\<rparr>"

definition dec_input :: "RecordInput decoder" where
  "dec_input = dec_struct
     [(''name'', dec_string i_Name_update), (''type'', dec_string i_Type_update),
      (''ttl'', dec_uint i_TTL_update), (''content'', dec_string i_Content_update),
      (''priority'', dec_uint i_Priority_update), (''proxied'', dec_bool i_Proxied_update)]"

definition record_error :: "store_error \<Rightarrow> reply" where
  "record_error e =
     (if Contains (store_error_text e) ''not found'' then writeError 404 ''not_found'' (store_error_text e)
      else writeError 400 ''bad_request'' (store_error_text e))"

definition handleCreateRecord ::
  "world \<Rightarrow> context_values \<Rightarrow> api_request \<Rightarrow> Store \<Rightarrow> string \<Rightarrow> served" where
  "handleCreateRecord w ctx r s zoneName =
     (case Decode dec_input zero_input (a_body r) of
        None \<Rightarrow> (writeError 400 ''bad_request'' ''invalid JSON body'', s, False, [])
      | Some b0 \<Rightarrow>
          if i_Name b0 = '''' then (writeError 400 ''bad_request'' ''name is required'', s, False, [])
          else if i_Type b0 = '''' then (writeError 400 ''bad_request'' ''type is required'', s, False, [])
          else if i_Content b0 = '''' then
            (writeError 400 ''bad_request'' ''content is required'', s, False, [])
          else
            let b = (if i_TTL b0 = 0 then b0\<lparr>i_TTL := 300\<rparr> else b0) in
            (case zoneBackend w ctx s zoneName of
               (qs, Inl e) \<Rightarrow> (writeBackendError e, s, False, qs)
             | (qs, Inr (Some (prov, zoneID))) \<Rightarrow>
                 (case cf_CreateRecord (w_net w) prov zoneID b of
                    (qs', Inl e) \<Rightarrow> (writeError 502 ''provider_error'' e, s, False, qs @ qs')
                  | (qs', Inr pr) \<Rightarrow>
                      (case PutMirror (w_now w) s (reqOrg ctx) zoneName pr of
                         (_, s', n) \<Rightarrow>
                           (Reply 201 (RecordBody (toRecord (w_now w) pr)), s', n, qs @ qs')))
             | (qs, Inr None) \<Rightarrow>
                 (case CreateRecord (w_uuid w 0 0) (w_now w) s (reqOrg ctx) zoneName (i_Name b) (i_Type b)
                         (i_TTL b) (i_Content b) (i_Priority b) (i_Proxied b) of
                    (Inl e, s', n) \<Rightarrow> (record_error e, s', n, qs)
                  | (Inr rec, s', n) \<Rightarrow> (Reply 201 (RecordBody rec), s', n, qs))))"

definition handleUpdateRecord ::
  "world \<Rightarrow> context_values \<Rightarrow> api_request \<Rightarrow> Store \<Rightarrow> string \<Rightarrow> string \<Rightarrow> served" where
  "handleUpdateRecord w ctx r s zoneName recordID =
     (case Decode dec_RecordPatch empty_patch (a_body r) of
        None \<Rightarrow> (writeError 400 ''bad_request'' ''invalid JSON body'', s, False, [])
      | Some patch \<Rightarrow>
          (case zoneBackend w ctx s zoneName of
             (qs, Inl e) \<Rightarrow> (writeBackendError e, s, False, qs)
           | (qs, Inr (Some (prov, zoneID))) \<Rightarrow>
               (case cf_UpdateRecord (w_net w) prov zoneID recordID patch of
                  (qs', Inl e) \<Rightarrow> (writeError 502 ''provider_error'' e, s, False, qs @ qs')
                | (qs', Inr pr) \<Rightarrow>
                    (case PutMirror (w_now w) s (reqOrg ctx) zoneName pr of
                       (_, s', n) \<Rightarrow>
                         (Reply 200 (RecordBody (toRecord (w_now w) pr)), s', n, qs @ qs')))
           | (qs, Inr None) \<Rightarrow>
               (case UpdateRecord (w_now w) s (reqOrg ctx) zoneName recordID patch of
                  (Inl e, s', n) \<Rightarrow> (record_error e, s', n, qs)
                | (Inr rec, s', n) \<Rightarrow> (Reply 200 (RecordBody rec), s', n, qs))))"

definition handleDeleteRecord :: "world \<Rightarrow> context_values \<Rightarrow> Store \<Rightarrow> string \<Rightarrow> string \<Rightarrow> served" where
  "handleDeleteRecord w ctx s zoneName recordID =
     (case zoneBackend w ctx s zoneName of
        (qs, Inl e) \<Rightarrow> (writeBackendError e, s, False, qs)
      | (qs, Inr (Some (prov, zoneID))) \<Rightarrow>
          (case cf_DeleteRecord (w_net w) prov zoneID recordID of
             (qs', Inl e) \<Rightarrow> (writeError 502 ''provider_error'' e, s, False, qs @ qs')
           | (qs', Inr _) \<Rightarrow>
               (case DropMirror (w_now w) s (reqOrg ctx) zoneName recordID of
                  (s', n) \<Rightarrow> (Reply 200 EmptyObject, s', n, qs @ qs')))
      | (qs, Inr None) \<Rightarrow>
          (case DeleteRecord (w_now w) s (reqOrg ctx) zoneName recordID of
             (Inl e, s', n) \<Rightarrow> (writeError 404 ''not_found'' (store_error_text e), s', n, qs)
           | (Inr _, s', n) \<Rightarrow> (Reply 200 EmptyObject, s', n, qs)))"

section \<open>Bulk synchronisation\<close>

definition dec_SyncRecord :: "SyncRecord decoder" where
  "dec_SyncRecord = dec_struct
     [(''id'', dec_string sr_ID_update), (''name'', dec_string sr_Name_update),
      (''type'', dec_string sr_Type_update), (''ttl'', dec_uint sr_TTL_update),
      (''content'', dec_string sr_Content_update), (''priority'', dec_uint sr_Priority_update),
      (''proxied'', dec_bool sr_Proxied_update)]"

definition dec_SyncZoneRequest :: "SyncZoneRequest decoder" where
  "dec_SyncZoneRequest = dec_struct
     [(''zone'', dec_string sz_Zone_update),
      (''records'', dec_slice \<lparr>sr_ID = '''', sr_Name = '''', sr_Type = '''', sr_TTL = 0,
         sr_Content = '''', sr_Priority = 0, sr_Proxied = False\<rparr> dec_SyncRecord sz_Records_update)]"

definition dec_SyncRequest :: "SyncZoneRequest list decoder" where
  "dec_SyncRequest = dec_struct
     [(''zones'', dec_slice \<lparr>sz_Zone = '''', sz_Records = []\<rparr> dec_SyncZoneRequest (\<lambda>f. f))]"

text \<open>
  The loop of \<^verbatim>\<open>handleSync\<close>: \<open>i\<close> counts the zones, \<open>results\<close> and \<open>n\<close> are what the earlier
  ones gave. An error ends the loop; the zones before it stay as synchronised.
\<close>

fun sync_zones ::
  "world \<Rightarrow> string \<Rightarrow> nat \<Rightarrow> SyncZoneRequest list \<Rightarrow> SyncResponse list \<Rightarrow> Store \<Rightarrow> bool
     \<Rightarrow> reply \<times> Store \<times> bool" where
  "sync_zones w org i [] results s n = (Reply 200 (SyncedBody results), s, n)"
| "sync_zones w org i (zr # zrs) results s n =
     (if sz_Zone zr = '''' then
        (writeError 400 ''bad_request'' ''zone name is required in each entry'', s, n)
      else
        (case BulkSync (w_uuid w i 0) (\<lambda>k. w_uuid w i (Suc k)) (w_now w) s org zr of
           (Inl e, s', n') \<Rightarrow>
             (if Contains (store_error_text e) ''already exists'' then
                writeError 409 ''conflict'' (store_error_text e)
              else writeError 500 ''internal_error'' (store_error_text e), s', n \<or> n')
         | (Inr resp, s', n') \<Rightarrow> sync_zones w org (Suc i) zrs (results @ [resp]) s' (n \<or> n')))"

definition handleSync :: "world \<Rightarrow> context_values \<Rightarrow> api_request \<Rightarrow> Store \<Rightarrow> served" where
  "handleSync w ctx r s =
     (if a_method r \<noteq> ''POST'' then
        (writeError 405 ''method_not_allowed'' ''only POST is allowed'', s, False, [])
      else case Decode dec_SyncRequest [] (a_body r) of
        None \<Rightarrow> (writeError 400 ''bad_request'' ''invalid JSON body'', s, False, [])
      | Some zones \<Rightarrow>
          if zones = [] then
            (writeError 400 ''bad_request'' ''at least one zone is required'', s, False, [])
          else
            (case sync_zones w (reqOrg ctx) 0 zones [] s False of
               (rep, s', n) \<Rightarrow> (rep, s', n, [])))"

section \<open>Routes\<close>

definition method_not_allowed :: reply where
  "method_not_allowed = writeError 405 ''method_not_allowed'' ''method not allowed''"

definition path_parts :: "string \<Rightarrow> string list" where
  "path_parts path = Split (TrimPrefix (TrimSuffix (TrimPrefix path ''/v1/dns'') ''/'') ''/'') CHR ''/''"

definition apiRouter :: "world \<Rightarrow> context_values \<Rightarrow> api_request \<Rightarrow> Store \<Rightarrow> served" where
  "apiRouter w ctx r s =
     (let m = a_method r; none = (\<lambda>rep. (rep, s, False, [])) in
      case path_parts (a_path r) of
        [a] \<Rightarrow>
          if a \<noteq> ''zones'' then none (writeError 404 ''not_found'' ''endpoint not found'')
          else if m = ''GET'' then handleListZones ctx s
          else if m = ''POST'' then handleCreateZone w ctx r s
          else none method_not_allowed
      | [a, zoneName] \<Rightarrow>
          if a \<noteq> ''zones'' then none (writeError 404 ''not_found'' ''endpoint not found'')
          else if m = ''GET'' then handleGetZone ctx s zoneName
          else if m = ''DELETE'' then handleDeleteZone ctx s zoneName
          else none method_not_allowed
      | [a, zoneName, c] \<Rightarrow>
          if a \<noteq> ''zones'' \<or> c \<noteq> ''records'' then none (writeError 404 ''not_found'' ''endpoint not found'')
          else if m = ''GET'' then handleListRecords w ctx s zoneName
          else if m = ''POST'' then handleCreateRecord w ctx r s zoneName
          else none method_not_allowed
      | [a, zoneName, c, recordID] \<Rightarrow>
          if a \<noteq> ''zones'' \<or> c \<noteq> ''records'' then none (writeError 404 ''not_found'' ''endpoint not found'')
          else if m = ''GET'' then handleGetRecord ctx s zoneName recordID
          else if m = ''PATCH'' \<or> m = ''PUT'' then handleUpdateRecord w ctx r s zoneName recordID
          else if m = ''DELETE'' then handleDeleteRecord w ctx s zoneName recordID
          else none method_not_allowed
      | _ \<Rightarrow> none (writeError 404 ''not_found'' ''endpoint not found''))"

text \<open>
  The server: the store and the key caches of the two authentication chains. \<open>serve\<close> is the
  multiplexer with the patterns of \<^verbatim>\<open>registerRoutes\<close>. As \<^verbatim>\<open>http.ServeMux\<close> does, it redirects
  a path with an empty or a dot segment, and answers 405 to a method the pattern of the health
  check does not name (a pattern for \<^verbatim>\<open>GET\<close> serves \<^verbatim>\<open>HEAD\<close> too).
\<close>

record api_server =
  sv_store :: Store
  sv_zones :: jwksCache
  sv_sync :: jwksCache

definition clean_path :: "string \<Rightarrow> bool" where
  "clean_path p =
     (HasPrefix p ''/''
      \<and> list_all (\<lambda>seg. seg \<noteq> '''' \<and> seg \<noteq> ''.'' \<and> seg \<noteq> ''..'') (butlast (Split (tl p) CHR ''/''))
      \<and> last (Split (tl p) CHR ''/'') \<notin> {''.'', ''..''})"

fun deny :: "denial \<Rightarrow> reply" where
  "deny (Denial st code msg) = Reply st (ErrorBody code msg)"

definition registerRoutes ::
  "world \<Rightarrow> api_request \<Rightarrow> api_server \<Rightarrow> reply \<times> api_server \<times> bool \<times> http_request list" where
  "registerRoutes w r sv =
     (let p = a_path r in
      if a_method r \<noteq> ''CONNECT'' \<and> \<not> clean_path p then (Reply 301 MuxBody, sv, False, [])
      else if p = ''/v1/dns/health'' then
        (if a_method r = ''GET'' \<or> a_method r = ''HEAD'' then (handleHealth, sv, False, [])
         else (Reply 405 MuxBody, sv, False, []))
      else if p = ''/v1/dns/zones'' \<or> HasPrefix p ''/v1/dns/zones/'' then
        (case authChain (w_std w) (w_env w) (w_net w) (w_now w) (sv_zones sv) (a_authorization r) of
           (Inl d, c) \<Rightarrow> (deny d, sv\<lparr>sv_zones := c\<rparr>, False, [])
         | (Inr ctx, c) \<Rightarrow>
             (case apiRouter w ctx r (sv_store sv) of
                (rep, s', n, qs) \<Rightarrow> (rep, sv\<lparr>sv_store := s', sv_zones := c\<rparr>, n, qs)))
      else if p = ''/v1/dns/sync'' then
        (case authChain (w_std w) (w_env w) (w_net w) (w_now w) (sv_sync sv) (a_authorization r) of
           (Inl d, c) \<Rightarrow> (deny d, sv\<lparr>sv_sync := c\<rparr>, False, [])
         | (Inr ctx, c) \<Rightarrow>
             (case handleSync w ctx r (sv_store sv) of
                (rep, s', n, qs) \<Rightarrow> (rep, sv\<lparr>sv_store := s', sv_sync := c\<rparr>, n, qs)))
      else (Reply 404 MuxBody, sv, False, []))"

section \<open>Every write of a handler is a call of the store\<close>

text \<open>
  What a handler may do to the store: nothing, or a sequence of operations on behalf of the
  organisation of its context.
\<close>

definition writes_as :: "string \<Rightarrow> Store \<Rightarrow> Store \<Rightarrow> bool" where
  "writes_as org s s' \<longleftrightarrow> (\<exists>cs. list_all (\<lambda>(o', c). o' = org) cs \<and> s' = exec_ops cs s)"

lemma writes_as_refl [simp]: "writes_as org s s"
  unfolding writes_as_def by (rule exI [of _ "[]"]) simp

lemma exec_ops_append: "exec_ops (cs @ ds) s = exec_ops ds (exec_ops cs s)"
  by (induction cs s rule: exec_ops.induct) auto

lemma writes_as_trans: "writes_as org s t \<Longrightarrow> writes_as org t u \<Longrightarrow> writes_as org s u"
  unfolding writes_as_def
  by (elim exE, rename_tac cs ds, rule_tac x = "cs @ ds" in exI) (simp add: exec_ops_append)

lemma writes_as_op: "writes_as org s (fst (exec_op org c s))"
  unfolding writes_as_def by (rule exI [of _ "[(org, c)]"]) simp

lemma writes_as_wf: "writes_as org s s' \<Longrightarrow> store_wf s \<Longrightarrow> store_wf s'"
  unfolding writes_as_def using exec_ops_wf by blast

lemma writes_as_frame:
  assumes "writes_as org s s'" and "org' \<noteq> org"
  shows "org_view org' s' = org_view org' s"
proof -
  obtain cs where cs: "list_all (\<lambda>(o', c). o' = org) cs" "s' = exec_ops cs s"
    using assms(1) unfolding writes_as_def by blast
  have "org_view org' (exec_ops cs s) = org_view org' s"
    using cs(1)
  proof (induction cs s rule: exec_ops.induct)
    case (2 o' c cs s)
    then show ?case
      using assms(2) exec_op_frame [of org' o' c s] by simp
  qed simp
  with cs(2) show ?thesis by simp
qed

lemma op_writes_as:
  "CreateZone uuid now s org name prov = (res1, s', n) \<Longrightarrow> writes_as org s s'"
  "DeleteZone s org name = (res2, s', n) \<Longrightarrow> writes_as org s s'"
  "CreateRecord uuid now s org zone name rtype ttl content prio proxied = (res3, s', n) \<Longrightarrow> writes_as org s s'"
  "PutMirror now s org zone rec = (res2, s', n) \<Longrightarrow> writes_as org s s'"
  "DropMirror now s org zone rid = (s', n) \<Longrightarrow> writes_as org s s'"
  "UpdateRecord now s org zone rid patch = (res3, s', n) \<Longrightarrow> writes_as org s s'"
  "DeleteRecord now s org zone rid = (res2, s', n) \<Longrightarrow> writes_as org s s'"
  "BulkSync zuuid uuids now s org req = (res4, s', n) \<Longrightarrow> writes_as org s s'"
  using writes_as_op [of org s "DoCreateZone uuid now name prov"] writes_as_op [of org s "DoDeleteZone name"]
    writes_as_op [of org s "DoCreateRecord uuid now zone name rtype ttl content prio proxied"]
    writes_as_op [of org s "DoPutMirror now zone rec"] writes_as_op [of org s "DoDropMirror now zone rid"]
    writes_as_op [of org s "DoUpdateRecord now zone rid patch"] writes_as_op [of org s "DoDeleteRecord now zone rid"]
    writes_as_op [of org s "DoBulkSync zuuid uuids now req"]
  by simp_all

locale api_handler =
  fixes run :: "context_values \<Rightarrow> Store \<Rightarrow> served"
  assumes writes: "writes_as (c_org ctx) s (fst (snd (run ctx s)))"
begin

lemma keeps_wf: "store_wf s \<Longrightarrow> store_wf (fst (snd (run ctx s)))"
  by (rule writes_as_wf [OF writes])

lemma others_untouched: "org' \<noteq> c_org ctx \<Longrightarrow> org_view org' (fst (snd (run ctx s))) = org_view org' s"
  by (rule writes_as_frame [OF writes])

end

lemmas context_defs = reqOrg_def OrgIDFromContext_def

interpretation list_zones: api_handler handleListZones
  by unfold_locales (simp add: handleListZones_def)

interpretation get_zone: api_handler "\<lambda>ctx s. handleGetZone ctx s zoneName" for zoneName
  by unfold_locales (simp add: handleGetZone_def split: option.splits)


interpretation h_create_zone: api_handler "\<lambda>ctx s. handleCreateZone w ctx r s" for w r
  by unfold_locales
    (auto simp: handleCreateZone_def context_defs split: option.splits sum.splits prod.splits
      intro: op_writes_as)

interpretation h_delete_zone: api_handler "\<lambda>ctx s. handleDeleteZone ctx s zoneName" for zoneName
  by unfold_locales
    (auto simp: handleDeleteZone_def context_defs split: prod.splits sum.splits intro: op_writes_as)

interpretation h_list_records: api_handler "\<lambda>ctx s. handleListRecords w ctx s zoneName" for w zoneName
  by unfold_locales (auto simp: handleListRecords_def split: prod.splits sum.splits option.splits)

interpretation h_get_record: api_handler "\<lambda>ctx s. handleGetRecord ctx s zoneName recordID" for zoneName recordID
  by unfold_locales (auto simp: handleGetRecord_def split: sum.splits)

interpretation h_create_record: api_handler "\<lambda>ctx s. handleCreateRecord w ctx r s zoneName" for w r zoneName
  by unfold_locales
    (simp add: handleCreateRecord_def Let_def context_defs split: option.splits sum.splits prod.splits,
      blast intro: op_writes_as)

interpretation h_update_record: api_handler "\<lambda>ctx s. handleUpdateRecord w ctx r s zoneName recordID"
  for w r zoneName recordID
  by unfold_locales
    (auto simp: handleUpdateRecord_def context_defs split: option.splits sum.splits prod.splits
      intro: op_writes_as)

interpretation h_delete_record: api_handler "\<lambda>ctx s. handleDeleteRecord w ctx s zoneName recordID"
  for w zoneName recordID
  by unfold_locales
    (auto simp: handleDeleteRecord_def context_defs split: option.splits sum.splits prod.splits
      intro: op_writes_as)

lemma sync_zones_writes_as: "writes_as org s (fst (snd (sync_zones w org i zrs results s n)))"
proof (induction w org i zrs results s n rule: sync_zones.induct)
  case (2 w org i zr zrs results s n)
  then show ?case
    by (auto split: sum.splits prod.splits intro: op_writes_as writes_as_trans [OF op_writes_as(8)])
qed simp

interpretation h_sync: api_handler "\<lambda>ctx s. handleSync w ctx r s" for w r
proof
  fix ctx s
  have "writes_as (c_org ctx) s (fst (snd (sync_zones w (reqOrg ctx) 0 zones [] s False)))" for zones
    unfolding context_defs by (rule sync_zones_writes_as)
  then show "writes_as (c_org ctx) s (fst (snd (handleSync w ctx r s)))"
    by (auto simp: handleSync_def split: option.splits prod.splits) (metis fst_conv snd_conv)+
qed

lemma apiRouter_cases:
  assumes "\<And>rep. P (rep, s, False, [])"
    and "P (handleListZones ctx s)" and "P (handleCreateZone w ctx r s)"
    and "\<And>z. P (handleGetZone ctx s z)" and "\<And>z. P (handleDeleteZone ctx s z)"
    and "\<And>z. P (handleListRecords w ctx s z)" and "\<And>z. P (handleCreateRecord w ctx r s z)"
    and "\<And>z i. P (handleGetRecord ctx s z i)" and "\<And>z i. P (handleUpdateRecord w ctx r s z i)"
    and "\<And>z i. P (handleDeleteRecord w ctx s z i)"
  shows "P (apiRouter w ctx r s)"
  unfolding apiRouter_def Let_def by (simp add: assms split: list.splits)

interpretation router: api_handler "\<lambda>ctx s. apiRouter w ctx r s" for w r
  by unfold_locales
    (rule apiRouter_cases; simp add: list_zones.writes h_create_zone.writes get_zone.writes
      h_delete_zone.writes h_list_records.writes h_create_record.writes h_get_record.writes
      h_update_record.writes h_delete_record.writes)

section \<open>Properties\<close>

lemma registerRoutes_writes:
  "sv_store (fst (snd (registerRoutes w r sv))) = sv_store sv
   \<or> (\<exists>cache \<in> {sv_zones sv, sv_sync sv}. \<exists>ctx.
        fst (authChain (w_std w) (w_env w) (w_net w) (w_now w) cache (a_authorization r)) = Inr ctx
        \<and> writes_as (c_org ctx) (sv_store sv) (sv_store (fst (snd (registerRoutes w r sv)))))"
proof -
  obtain x c where x: "authChain (w_std w) (w_env w) (w_net w) (w_now w) (sv_zones sv) (a_authorization r) = (x, c)"
    by fastforce
  obtain y d where y: "authChain (w_std w) (w_env w) (w_net w) (w_now w) (sv_sync sv) (a_authorization r) = (y, d)"
    by fastforce
  have "writes_as (c_org ctx) (sv_store sv) s'" if "apiRouter w ctx r (sv_store sv) = (rep, s', n, qs)" for ctx rep s' n qs
    using router.writes [of ctx "sv_store sv" w r] that by simp
  moreover have "writes_as (c_org ctx) (sv_store sv) s'" if "handleSync w ctx r (sv_store sv) = (rep, s', n, qs)" for ctx rep s' n qs
    using h_sync.writes [of ctx "sv_store sv" w r] that by simp
  ultimately show ?thesis
    by (cases x; cases y) (simp_all add: registerRoutes_def Let_def x y split: prod.splits, blast+)
qed

text \<open>C1: Through the API, only an organisation itself changes what it owns. Whatever request
  arrives, if the zones of an organisation differ afterwards, then the credential of the request
  was accepted and names that organisation. The invariant of the store holds after every
  request.\<close>

theorem api_tenant_isolation:
  assumes "store_wf (sv_store sv)" and "registerRoutes w r sv = (rep, sv', n, qs)"
  shows "store_wf (sv_store sv')
    \<and> (org_view org (sv_store sv') \<noteq> org_view org (sv_store sv) \<longrightarrow>
        (\<exists>cache \<in> {sv_zones sv, sv_sync sv}. \<exists>ctx.
           fst (authChain (w_std w) (w_env w) (w_net w) (w_now w) cache (a_authorization r)) = Inr ctx
           \<and> c_org ctx = org))"
proof -
  have "sv_store sv' = sv_store sv
     \<or> (\<exists>cache \<in> {sv_zones sv, sv_sync sv}. \<exists>ctx.
           fst (authChain (w_std w) (w_env w) (w_net w) (w_now w) cache (a_authorization r)) = Inr ctx
           \<and> writes_as (c_org ctx) (sv_store sv) (sv_store sv'))"
    using registerRoutes_writes [of w r sv] by (simp add: assms(2))
  then show ?thesis
  proof
    assume "sv_store sv' = sv_store sv"
    with assms(1) show ?thesis by simp
  next
    assume "\<exists>cache \<in> {sv_zones sv, sv_sync sv}. \<exists>ctx.
      fst (authChain (w_std w) (w_env w) (w_net w) (w_now w) cache (a_authorization r)) = Inr ctx
      \<and> writes_as (c_org ctx) (sv_store sv) (sv_store sv')"
    then obtain cache ctx where cache: "cache \<in> {sv_zones sv, sv_sync sv}"
        "fst (authChain (w_std w) (w_env w) (w_net w) (w_now w) cache (a_authorization r)) = Inr ctx"
      and writes: "writes_as (c_org ctx) (sv_store sv) (sv_store sv')" by blast
    show ?thesis
      using writes_as_wf [OF writes assms(1)] writes_as_frame [OF writes, of org] cache by blast
  qed
qed

text \<open>A deployment with an issuer, whose caller is the organisation \<open>acme\<close>.\<close>

definition acme_env :: environ where
  "acme_env v = (if v = ''HANZO_DNS_OIDC_ISSUER'' then ''https://iam''
     else if v = ''HANZO_DNS_OIDC_AUDIENCE'' then ''dns'' else '''')"

definition acme_world :: world where
  "acme_world = \<lparr>w_env = acme_env, w_net = iam_net, w_std = sample_std, w_now = 7 * second,
     w_uuid = (\<lambda>i k. ''u1'')\<rparr>"

definition empty_server :: api_server where
  "empty_server = \<lparr>sv_store = NewStore, sv_zones = no_keys, sv_sync = no_keys\<rparr>"

definition acme_request :: "string \<Rightarrow> string \<Rightarrow> (string \<times> json) list \<Rightarrow> api_request" where
  "acme_request m path members =
     \<lparr>a_method = m, a_path = path, a_authorization = ''bearer aA.Yw.cw'', a_body = Some (JObj members)\<rparr>"

definition create_zone_request :: api_request where
  "create_zone_request = acme_request ''POST'' ''/v1/dns/zones'' [(''zone'', JStr ''Example.COM'')]"

theorem api_tenant_isolation_witness:
  "\<exists>rep sv' n qs. registerRoutes acme_world create_zone_request empty_server = (rep, sv', n, qs)
     \<and> org_view ''acme'' (sv_store sv') ''example.com.'' \<noteq> None
     \<and> (\<exists>cache \<in> {no_keys, no_keys}. \<exists>ctx. c_org ctx = ''acme''
          \<and> fst (authChain sample_std acme_env iam_net (7 * second) cache ''bearer aA.Yw.cw'') = Inr ctx)"
proof -
  let ?out = "registerRoutes acme_world create_zone_request empty_server"
  obtain rep sv' n qs where out: "?out = (rep, sv', n, qs)"
    using prod_cases4 by blast
  have "org_view ''acme'' (sv_store (fst (snd ?out))) ''example.com.'' \<noteq> None" by code_simp
  then have new: "org_view ''acme'' (sv_store sv') ''example.com.'' \<noteq> None"
    unfolding out fst_conv snd_conv .
  have server: "sv_store empty_server = NewStore" "sv_zones empty_server = no_keys" "sv_sync empty_server = no_keys"
    "w_std acme_world = sample_std" "w_env acme_world = acme_env" "w_net acme_world = iam_net"
    "w_now acme_world = 7 * second" "a_authorization create_zone_request = ''bearer aA.Yw.cw''"
    by (simp_all add: empty_server_def acme_world_def create_zone_request_def acme_request_def)
  have "org_view ''acme'' NewStore ''example.com.'' = None" by code_simp
  with new have "org_view ''acme'' (sv_store sv') \<noteq> org_view ''acme'' (sv_store empty_server)"
    by (metis server(1))
  moreover have "store_wf (sv_store empty_server)" by (simp only: server NewStore_wf)
  ultimately show ?thesis
    using api_tenant_isolation [OF _ out, of "''acme''"] new out unfolding server by blast
qed

text \<open>Reading does not write. A request with the method GET leaves the store as it is and does
  not trigger a snapshot.\<close>

theorem get_leaves_store:
  assumes "a_method r = ''GET''" and "registerRoutes w r sv = (rep, sv', n, qs)"
  shows "sv_store sv' = sv_store sv \<and> \<not> n"
proof -
  have "fst (snd (apiRouter w ctx r s)) = s \<and> \<not> fst (snd (snd (apiRouter w ctx r s)))" for ctx s
    unfolding apiRouter_def Let_def
    by (simp add: assms(1) handleListZones_def handleGetZone_def handleListRecords_def handleGetRecord_def
        split: list.splits option.splits sum.splits prod.splits)
  moreover have "handleSync w ctx r s
      = (writeError 405 ''method_not_allowed'' ''only POST is allowed'', s, False, [])" for ctx s
    by (simp add: handleSync_def assms(1))
  ultimately show ?thesis
    using assms(2)
    by (auto simp: registerRoutes_def Let_def split: if_splits prod.splits sum.splits)
      (metis fst_conv snd_conv)+
qed


text \<open>A refusal by the provider leaves the local store alone. When the reply says that the
  provider failed, no record was mirrored or dropped and no snapshot was triggered.\<close>

theorem provider_failure_keeps_store:
  assumes "apiRouter w ctx r s = (rep, s', n, qs)" and "status rep = 502"
  shows "s' = s \<and> \<not> n"
proof -
  have "status (fst (apiRouter w ctx r s)) = 502 \<longrightarrow>
      fst (snd (apiRouter w ctx r s)) = s \<and> \<not> fst (snd (snd (apiRouter w ctx r s)))"
    by (rule apiRouter_cases)
      (simp_all add: handleListZones_def handleGetZone_def handleListRecords_def handleGetRecord_def
        handleCreateZone_def handleDeleteZone_def handleCreateRecord_def handleUpdateRecord_def
        handleDeleteRecord_def writeError_def record_error_def Let_def
        split: list.splits option.splits sum.splits prod.splits)
  with assms show ?thesis by simp
qed

theorem get_leaves_store_witness:
  "status (fst (registerRoutes acme_world (acme_request ''GET'' ''/v1/dns/zones/example.com'' []) empty_server)) = 404
   \<and> sv_store (fst (snd (registerRoutes acme_world (acme_request ''GET'' ''/v1/dns/zones/example.com'' []) empty_server)))
       = sv_store empty_server"
proof
  let ?r = "acme_request ''GET'' ''/v1/dns/zones/example.com'' []"
  show "status (fst (registerRoutes acme_world ?r empty_server)) = 404" by code_simp
  obtain rep sv' n qs where out: "registerRoutes acme_world ?r empty_server = (rep, sv', n, qs)"
    using prod_cases4 by blast
  have "a_method ?r = ''GET''" by (simp add: acme_request_def)
  from get_leaves_store [OF this out]
  show "sv_store (fst (snd (registerRoutes acme_world ?r empty_server))) = sv_store empty_server"
    unfolding out fst_conv snd_conv by blast
qed

definition cf_store :: Store where
  "cf_store = fst (exec_op ''acme'' (DoCreateZone ''z'' 1 ''example.com'' ''cloudflare'') NewStore)"


definition acme_context :: context_values where
  "acme_context = \<lparr>c_org = ''acme'', c_bearer = ''tok''\<rparr>"

theorem provider_failure_keeps_store_witness:
  "status (fst (apiRouter acme_world acme_context
      (acme_request ''DELETE'' ''/v1/dns/zones/example.com/records/r1'' []) cf_store)) = 502
   \<and> fst (snd (apiRouter acme_world acme_context
      (acme_request ''DELETE'' ''/v1/dns/zones/example.com/records/r1'' []) cf_store)) = cf_store"
proof
  let ?a = "apiRouter acme_world acme_context
      (acme_request ''DELETE'' ''/v1/dns/zones/example.com/records/r1'' []) cf_store"
  show st: "status (fst ?a) = 502" by code_simp
  obtain rep s' n qs where out: "?a = (rep, s', n, qs)"
    using prod_cases4 by blast
  from provider_failure_keeps_store [OF out] st
  show "fst (snd ?a) = cf_store"
    unfolding out fst_conv snd_conv by blast
qed

text \<open>A record created at the provider is mirrored. When the creation in a zone of a provider
  succeeds and the record has an id and a supported type, the local store has it under its id
  afterwards, field by field as the reply shows it, and the snapshot hook was called.\<close>

theorem provider_create_mirrors:
  assumes "store_wf s" and "zoneBackend w ctx s zone = (qs, Inr (Some (prov, zoneID)))"
    and "handleCreateRecord w ctx r s zone = (Reply 201 (RecordBody rec), s', n, qs')"
    and "r_ID rec \<noteq> ''''" and "ValidRecordTypes (r_Type rec)"
  shows "n \<and> (\<exists>r'. GetRecord s' (c_org ctx) zone (r_ID rec) = Inr r'
    \<and> r'\<lparr>r_CreatedAt := r_CreatedAt rec\<rparr> = rec)"
proof -
  obtain pr where rec: "rec = toRecord (w_now w) pr"
    and put: "snd (PutMirror (w_now w) s (c_org ctx) zone pr) = (s', n)"
    using assms(2,3)
    by (auto simp: handleCreateRecord_def Let_def context_defs writeError_def
        split: option.splits if_splits prod.splits sum.splits)
  have "zoneForOrg s (c_org ctx) zone \<noteq> None"
    using assms(2) by (auto simp: zoneBackend_def context_defs ZoneProvider_def Let_def split: option.splits)
  then obtain zd where zd: "zoneForOrg s (c_org ctx) zone = Some zd" by blast
  then have "z_Org (zd_zone zd) = c_org ctx"
    by (auto simp: zoneForOrg_def split: option.splits if_splits)
  with zd put assms(4,5) show ?thesis
    by (auto simp: rec toRecord_def PutMirror_def Let_def GetRecord_def
        zoneForOrg_def [of "put_zone _ _ _"])
qed

definition cf_net :: net where
  "cf_net q =
     (if HasPrefix (h_url q) ''https://api.hanzo.ai/'' then Response 200 (Some (JObj [(''value'', JStr ''t0k'')]))
      else if h_method q = ''POST'' then
        Response 200 (Some (JObj [(''success'', JBool True), (''result'', JObj [(''id'', JStr ''r7''),
          (''name'', JStr ''www.example.com''), (''type'', JStr ''A''), (''content'', JStr ''192.0.2.7''),
          (''ttl'', JNum ''60'')])]))
      else zones_net q)"

definition cf_world :: world where
  "cf_world = acme_world\<lparr>w_net := cf_net\<rparr>"

definition create_record_request :: "string \<Rightarrow> api_request" where
  "create_record_request rtype = acme_request ''POST'' ''/v1/dns/zones/example.com/records''
     [(''name'', JStr ''www''), (''type'', JStr rtype), (''content'', JStr ''192.0.2.7'')]"

definition mirrored :: Record where
  "mirrored = \<lparr>r_ID = ''r7'', r_Name = ''www.example.com'', r_Type = ''A'', r_TTL = 60,
     r_Content = ''192.0.2.7'', r_Priority = 0, r_Proxied = False, r_CreatedAt = 7 * second,
     r_UpdatedAt = 7 * second\<rparr>"

theorem provider_create_mirrors_witness:
  "\<exists>s' n qs r'. handleCreateRecord cf_world acme_context (create_record_request ''A'') cf_store ''example.com''
       = (Reply 201 (RecordBody mirrored), s', n, qs)
     \<and> n \<and> GetRecord s' ''acme'' ''example.com'' ''r7'' = Inr r' \<and> r'\<lparr>r_CreatedAt := 7 * second\<rparr> = mirrored"
proof -
  let ?h = "handleCreateRecord cf_world acme_context (create_record_request ''A'') cf_store ''example.com''"
  let ?b = "zoneBackend cf_world acme_context cf_store ''example.com''"
  obtain rep s' n qs where h0: "?h = (rep, s', n, qs)"
    using prod_cases4 by blast
  have "fst ?h = Reply 201 (RecordBody mirrored)" by code_simp
  then have h: "?h = (Reply 201 (RecordBody mirrored), s', n, qs)"
    unfolding h0 by (simp only: fst_conv)
  have "snd ?b = Inr (Some (\<lparr>cf_token = ''t0k'', cf_base = cfAPIBase acme_env\<rparr>, ''zone7''))" by code_simp
  then have b: "?b = (fst ?b, Inr (Some (\<lparr>cf_token = ''t0k'', cf_base = cfAPIBase acme_env\<rparr>, ''zone7'')))"
    using prod.collapse [of ?b] by argo
  have wf: "store_wf cf_store"
    unfolding cf_store_def by (rule exec_op_wf [OF NewStore_wf])
  have m: "r_ID mirrored = ''r7''" "r_CreatedAt mirrored = 7 * second" "ValidRecordTypes (r_Type mirrored)"
    "c_org acme_context = ''acme''" "r_ID mirrored \<noteq> ''''"
    by (simp_all add: mirrored_def ValidRecordTypes_def acme_context_def)
  show ?thesis
    using provider_create_mirrors [OF wf b h m(5) m(3)] h unfolding m by blast
qed

text \<open>A mirrored record is not served under its own name. The provider names records by their
  full name without a final dot; the store takes such a name as relative to the zone. After the
  creation above a query for \<open>www.example.com.\<close> finds nothing, and the record answers for
  \<open>www.example.com.example.com.\<close> instead.\<close>

theorem mirrored_record_misplaced:
  "(let s' = fst (snd (handleCreateRecord cf_world acme_context (create_record_request ''A'') cf_store ''example.com''))
    in Lookup s' ''www.example.com.'' ''A'' = []
       \<and> map r_ID (Lookup s' ''www.example.com.example.com.'' ''A'') = [''r7''])"
  by code_simp

text \<open>Errors are told apart by their text, which quotes the request. In a zone that exists, a record
  whose type is the text \<open>not found\<close> is answered with 404, where any other invalid type gives 400.\<close>

theorem invalid_type_reported_missing:
  "(let s = fst (exec_op ''acme'' (DoCreateZone ''z'' 1 ''example.com'' ''authoritative'') NewStore)
    in status (fst (handleCreateRecord acme_world acme_context (create_record_request ''not found'') s ''example.com'')) = 404
       \<and> status (fst (handleCreateRecord acme_world acme_context (create_record_request ''bogus'') s ''example.com'')) = 400
       \<and> GetZone s ''acme'' ''example.com'' \<noteq> None)"
  by code_simp

text \<open>A zone of its own needs no other service. For an authoritative zone no handler sends a request
  to a provider or to the secret store; the zone backend never runs into a missing
  provider, whatever the zone.\<close>

theorem authoritative_zone_is_local:
  assumes "ZoneProvider s (c_org ctx) zone = Some ProviderAuthoritative"
  shows "snd (snd (snd (handleListRecords w ctx s zone))) = []
    \<and> snd (snd (snd (handleCreateRecord w ctx r s zone))) = []
    \<and> snd (snd (snd (handleUpdateRecord w ctx r s zone rid))) = []
    \<and> snd (snd (snd (handleDeleteRecord w ctx s zone rid))) = []
    \<and> snd (zoneBackend w ctx s zone') \<noteq> Inl NilProvider"
proof -
  have b: "zoneBackend w ctx s zone = ([], Inr None)"
    using assms by (simp add: zoneBackend_def context_defs)
  have "snd (zoneBackend w ctx s zone') \<noteq> Inl NilProvider"
    by (auto simp: zoneBackend_def Let_def providerFor_def map_call_def ZoneProvider_def
        split: option.splits sum.splits prod.splits if_splits)
  then show ?thesis
    by (simp add: b handleListRecords_def handleCreateRecord_def handleUpdateRecord_def
        handleDeleteRecord_def Let_def split: option.splits sum.splits prod.splits)
qed

theorem authoritative_zone_is_local_witness:
  "snd (snd (snd (handleListRecords acme_world acme_context
     (fst (exec_op ''acme'' (DoCreateZone ''z'' 1 ''example.com'' ''authoritative'') NewStore)) ''example.com''))) = []"
proof -
  have "ZoneProvider (fst (exec_op ''acme'' (DoCreateZone ''z'' 1 ''example.com'' ''authoritative'') NewStore))
      (c_org acme_context) ''example.com'' = Some ProviderAuthoritative"
    by code_simp
  from authoritative_zone_is_local [OF this] show ?thesis by blast
qed

end
