(* ===== verification/DNS_Lib.thy ===== *)
theory DNS_Lib
  imports Prelude
begin

text \<open>
  Messages, and what the sources use of the \<^verbatim>\<open>miekg/dns\<close> library.

  The library is not part of the repository. Its message types are represented by their fields;
  its functions are the fields of a record \<open>dnslib\<close>, which every definition that calls one
  takes as an argument. The contracts below state documented behaviour of single functions; a
  property that needs one has it as a hypothesis. \<open>plain_lib\<close> is an instance, for names
  without escapes, in which witnesses evaluate.

  The second half models the small packages the plugins share: \<^verbatim>\<open>plugin.Zones\<close>,
  \<^verbatim>\<open>plugin.Name\<close>, \<^verbatim>\<open>fall\<close>, \<^verbatim>\<open>dnsutil\<close>, the accessors of \<^verbatim>\<open>request.Request\<close>, and the
  protocol between plugins, \<^verbatim>\<open>plugin.ClientWrite\<close> and \<^verbatim>\<open>plugin.NextOrFailure\<close>.
\<close>

section \<open>Messages\<close>

definition TypeA :: u16 where "TypeA = 1"
definition TypeNS :: u16 where "TypeNS = 2"
definition TypeCNAME :: u16 where "TypeCNAME = 5"
definition TypeSOA :: u16 where "TypeSOA = 6"
definition TypeMX :: u16 where "TypeMX = 15"
definition TypePTR :: u16 where "TypePTR = 12"
definition TypeHINFO :: u16 where "TypeHINFO = 13"
definition TypeTXT :: u16 where "TypeTXT = 16"
definition TypeAAAA :: u16 where "TypeAAAA = 28"
definition TypeSRV :: u16 where "TypeSRV = 33"
definition TypeDNAME :: u16 where "TypeDNAME = 39"
definition TypeOPT :: u16 where "TypeOPT = 41"
definition TypeDS :: u16 where "TypeDS = 43"
definition TypeRRSIG :: u16 where "TypeRRSIG = 46"
definition TypeNSEC :: u16 where "TypeNSEC = 47"
definition TypeNSEC3 :: u16 where "TypeNSEC3 = 50"
definition TypeNSEC3PARAM :: u16 where "TypeNSEC3PARAM = 51"
definition TypeSVCB :: u16 where "TypeSVCB = 64"
definition TypeIXFR :: u16 where "TypeIXFR = 251"
definition TypeAXFR :: u16 where "TypeAXFR = 252"
definition TypeANY :: u16 where "TypeANY = 255"
definition TypeCAA :: u16 where "TypeCAA = 257"
definition TypeHTTPS :: u16 where "TypeHTTPS = 65"
definition TypeNAPTR :: u16 where "TypeNAPTR = 35"

lemmas rr_types = TypeA_def TypeNS_def TypeCNAME_def TypeSOA_def TypeMX_def TypeTXT_def TypeAAAA_def
  TypeSRV_def TypeDNAME_def TypeOPT_def TypeDS_def TypeRRSIG_def TypeNSEC_def TypeNSEC3_def
  TypeNSEC3PARAM_def TypeSVCB_def TypeIXFR_def
  TypeAXFR_def TypeANY_def TypeCAA_def TypeHTTPS_def TypePTR_def TypeNAPTR_def

definition ClassINET :: u16 where "ClassINET = 1"

definition RcodeSuccess :: nat where "RcodeSuccess = 0"
definition RcodeFormatError :: nat where "RcodeFormatError = 1"
definition RcodeServerFailure :: nat where "RcodeServerFailure = 2"
definition RcodeNameError :: nat where "RcodeNameError = 3"
definition RcodeNotImplemented :: nat where "RcodeNotImplemented = 4"
definition RcodeRefused :: nat where "RcodeRefused = 5"
definition RcodeNotAuth :: nat where "RcodeNotAuth = 9"
definition RcodeBadVers :: nat where "RcodeBadVers = 16"

lemmas rcodes = RcodeSuccess_def RcodeFormatError_def RcodeServerFailure_def RcodeNameError_def
  RcodeNotImplemented_def RcodeRefused_def RcodeNotAuth_def RcodeBadVers_def

text \<open>
  Resource records: the header, and the data of the types the sources take apart. An address is a list
  of bytes, which is empty for Go's nil. The version and the flags of an OPT record are in its
  TTL, the buffer size in its class.
\<close>

text \<open>The options of an OPT record, by their Go types; an option of another type has its code and its data.\<close>

datatype edns0 =
    EDNS0_NSID string
  | EDNS0_SUBNET u16 u8 u8 "nat list"
  | EDNS0_LOCAL u16 string
  | EDNS0_Other u16 string

fun edns0_Option :: "edns0 \<Rightarrow> u16" where
  "edns0_Option (EDNS0_NSID _) = 3"
| "edns0_Option (EDNS0_SUBNET _ _ _ _) = 8"
| "edns0_Option (EDNS0_LOCAL code _) = code"
| "edns0_Option (EDNS0_Other code _) = code"

datatype rdata =
    RD_A "nat list"
  | RD_AAAA "nat list"
  | RD_CNAME string
  | RD_DNAME string
  | RD_NS string
  | RD_MX u16 string
  | RD_TXT "string list"
  | RD_SRV u16 u16 u16 string
  | RD_CAA u8 string string
  | RD_SOA string string u32 u32 u32 u32 u32
  | RD_RRSIG u16 string u32 u32
  | RD_SVCB string
  | RD_PTR string
  | RD_HINFO string string
  | RD_OPT "edns0 list"
  | RD_NAPTR string string
  | RD_Opaque string

record RR =
  rr_Name :: string
  rr_Type :: u16
  rr_Class :: u16
  rr_Ttl :: u32
  rr_data :: rdata

record Question =
  q_Name :: string
  q_Type :: u16
  q_Class :: u16

record Msg =
  m_Id :: u16
  m_Response :: bool
  m_Opcode :: nat
  m_Authoritative :: bool
  m_Truncated :: bool
  m_RecursionDesired :: bool
  m_RecursionAvailable :: bool
  m_AuthenticatedData :: bool
  m_CheckingDisabled :: bool
  m_Rcode :: nat
  m_Compress :: bool
  m_Question :: "Question list"
  m_Answer :: "RR list"
  m_Ns :: "RR list"
  m_Extra :: "RR list"

definition new_Msg :: Msg where
  "new_Msg = \<lparr>m_Id = 0, m_Response = False, m_Opcode = 0, m_Authoritative = False, m_Truncated = False,
     m_RecursionDesired = False, m_RecursionAvailable = False, m_AuthenticatedData = False,
     m_CheckingDisabled = False, m_Rcode = 0, m_Compress = False, m_Question = [], m_Answer = [],
     m_Ns = [], m_Extra = []\<rparr>"

section \<open>The library\<close>

record dnslib =
  IsSubDomain :: "string \<Rightarrow> string \<Rightarrow> bool"
  Fqdn :: "string \<Rightarrow> string"
  NextLabel :: "string \<Rightarrow> nat \<Rightarrow> nat \<times> bool"
  PrevLabel :: "string \<Rightarrow> nat \<Rightarrow> nat \<times> bool"
  CountLabel :: "string \<Rightarrow> nat"
  NameString :: "string \<Rightarrow> string"
  SetReply :: "Msg \<Rightarrow> Msg"
  SetRcode :: "Msg \<Rightarrow> nat \<Rightarrow> Msg"
  SplitDomainName :: "string \<Rightarrow> string list"
  PackDomainName :: "string \<Rightarrow> nat \<Rightarrow> string option"
  UnpackDomainName :: "string \<Rightarrow> string option"
  RR_Len :: "RR \<Rightarrow> int"
  IsEdns0 :: "Msg \<Rightarrow> RR option"
  opt_Do :: "RR \<Rightarrow> bool"
  opt_Version :: "RR \<Rightarrow> u8"
  opt_UDPSize :: "RR \<Rightarrow> u16"
  opt_SetDo :: "RR \<Rightarrow> RR"
  opt_SetVersion :: "RR \<Rightarrow> u8 \<Rightarrow> RR"
  opt_SetUDPSize :: "RR \<Rightarrow> u16 \<Rightarrow> RR"
  opt_SetExtendedRcode :: "RR \<Rightarrow> u16 \<Rightarrow> RR"
  SetEdns0 :: "Msg \<Rightarrow> u16 \<Rightarrow> bool \<Rightarrow> Msg"
  ValidityPeriod :: "RR \<Rightarrow> time \<Rightarrow> bool"
  Msg_Len :: "Msg \<Rightarrow> int"
  Truncate :: "Msg \<Rightarrow> int \<Rightarrow> Msg"
  Envelope_Msg :: "Msg \<Rightarrow> RR list \<Rightarrow> Msg"
  IsDomainName :: "string \<Rightarrow> bool"
  StringToType :: "string \<Rightarrow> u16 option"
  StringToClass :: "string \<Rightarrow> u16 option"
  StringToRcode :: "string \<Rightarrow> nat option"

text \<open>\<open>Envelope_Msg\<close> is the message that \<^verbatim>\<open>Transfer.Out\<close> writes for an envelope of a transfer.\<close>

text \<open>Documented behaviour.\<close>

definition NextLabel_ok :: "dnslib \<Rightarrow> bool" where
  "NextLabel_ok D \<longleftrightarrow>
     (\<forall>s off. snd (NextLabel D s off) \<or> (off < fst (NextLabel D s off) \<and> fst (NextLabel D s off) < length s))"

definition PrevLabel_ok :: "dnslib \<Rightarrow> bool" where
  "PrevLabel_ok D \<longleftrightarrow>
     PrevLabel D '''' 1 = (0, True)
     \<and> (\<forall>s. s \<noteq> '''' \<longrightarrow> fst (PrevLabel D s 1) < length s \<and> \<not> snd (PrevLabel D s 1))"

text \<open>
  A fully qualified name is at least as long as a zone without escapes that contains it, and
  printing a name keeps its last dot.
\<close>

definition plain_label :: "string \<Rightarrow> bool" where
  "plain_label l \<longleftrightarrow> l \<noteq> '''' \<and> CHR ''.'' \<notin> set l \<and> CHR 0x5C \<notin> set l"

definition SubDomain_ok :: "dnslib \<Rightarrow> bool" where
  "SubDomain_ok D \<longleftrightarrow>
     (\<forall>labels child. labels \<noteq> [] \<and> list_all plain_label labels \<and> HasSuffix child ''.''
        \<and> IsSubDomain D (Join labels ''.'' @ ''.'') child \<longrightarrow> length (Join labels ''.'' @ ''.'') \<le> length child)
     \<and> (\<forall>s. HasSuffix s ''.'' \<longrightarrow> HasSuffix (NameString D s) ''.'')"

definition Fqdn_ok :: "dnslib \<Rightarrow> bool" where
  "Fqdn_ok D \<longleftrightarrow> (\<forall>s. HasSuffix (Fqdn D s) ''.'')"

definition SetReply_ok :: "dnslib \<Rightarrow> bool" where
  "SetReply_ok D \<longleftrightarrow>
     (\<forall>r. m_Response (SetReply D r) \<and> m_Id (SetReply D r) = m_Id r
        \<and> m_Rcode (SetReply D r) = RcodeSuccess
        \<and> m_Answer (SetReply D r) = [] \<and> m_Ns (SetReply D r) = [] \<and> m_Extra (SetReply D r) = []
        \<and> m_Question (SetReply D r) = take 1 (m_Question r))"

definition SetRcode_ok :: "dnslib \<Rightarrow> bool" where
  "SetRcode_ok D \<longleftrightarrow>
     (\<forall>r rc. m_Response (SetRcode D r rc) \<and> m_Id (SetRcode D r rc) = m_Id r \<and> m_Rcode (SetRcode D r rc) = rc
        \<and> m_Answer (SetRcode D r rc) = [] \<and> m_Ns (SetRcode D r rc) = [] \<and> m_Extra (SetRcode D r rc) = []
        \<and> m_Question (SetRcode D r rc) = take 1 (m_Question r))"

text \<open>
  The flags of an OPT record are the lower half of its TTL, the highest of them is the DO bit (RFC 6891); the
  setters change what their names say and leave the type.
\<close>

definition OPT_ok :: "dnslib \<Rightarrow> bool" where
  "OPT_ok D \<longleftrightarrow>
     (\<forall>opt. opt_Do D opt = bit (rr_Ttl opt) 15)
     \<and> (\<forall>opt. opt_Do D (opt_SetDo D opt) \<and> rr_Type (opt_SetDo D opt) = rr_Type opt
          \<and> opt_UDPSize D (opt_SetDo D opt) = opt_UDPSize D opt)
     \<and> (\<forall>opt v. rr_Type (opt_SetVersion D opt v) = rr_Type opt \<and> opt_UDPSize D (opt_SetVersion D opt v) = opt_UDPSize D opt
          \<and> opt_Do D (opt_SetVersion D opt v) = opt_Do D opt)
     \<and> (\<forall>opt size. rr_Type (opt_SetUDPSize D opt size) = rr_Type opt \<and> opt_UDPSize D (opt_SetUDPSize D opt size) = size
          \<and> opt_Do D (opt_SetUDPSize D opt size) = opt_Do D opt)
     \<and> (\<forall>opt. opt_UDPSize D opt = rr_Class opt)"

definition IsEdns0_ok :: "dnslib \<Rightarrow> bool" where
  "IsEdns0_ok D \<longleftrightarrow>
     (\<forall>m. (IsEdns0 D m = None \<longleftrightarrow> (\<forall>rr \<in> set (m_Extra m). rr_Type rr \<noteq> TypeOPT))
        \<and> (\<forall>opt. IsEdns0 D m = Some opt \<longrightarrow> opt \<in> set (m_Extra m) \<and> rr_Type opt = TypeOPT))"

definition SetEdns0_ok :: "dnslib \<Rightarrow> bool" where
  "SetEdns0_ok D \<longleftrightarrow>
     (\<forall>m sz d. IsEdns0 D (SetEdns0 D m sz d) \<noteq> None \<and> m_Response (SetEdns0 D m sz d) = m_Response m
        \<and> m_Id (SetEdns0 D m sz d) = m_Id m \<and> m_Question (SetEdns0 D m sz d) = m_Question m
        \<and> m_Answer (SetEdns0 D m sz d) = m_Answer m \<and> m_Rcode (SetEdns0 D m sz d) = m_Rcode m
        \<and> m_Opcode (SetEdns0 D m sz d) = m_Opcode m)"

definition Truncate_ok :: "dnslib \<Rightarrow> bool" where
  "Truncate_ok D \<longleftrightarrow>
     (\<forall>m size. m_Response (Truncate D m size) = m_Response m \<and> m_Id (Truncate D m size) = m_Id m
        \<and> m_Rcode (Truncate D m size) = m_Rcode m \<and> m_Question (Truncate D m size) = m_Question m \<and> set (m_Answer (Truncate D m size)) \<subseteq> set (m_Answer m))"

definition Envelope_ok :: "dnslib \<Rightarrow> bool" where
  "Envelope_ok D \<longleftrightarrow> (\<forall>r rrs. m_Answer (Envelope_Msg D r rrs) = rrs)"

text \<open>
  An instance for names without escapes, in which a label ends at every dot.
\<close>

fun plain_labels :: "string \<Rightarrow> string list" where
  "plain_labels s = filter (\<lambda>l. l \<noteq> '''') (Split s CHR ''.'')"

definition plain_next :: "string \<Rightarrow> nat \<Rightarrow> nat \<times> bool" where
  "plain_next s off =
     (let k = length (takeWhile (\<lambda>c. c \<noteq> CHR ''.'') (drop off s)); off' = off + k + 1
      in if off' < length s then (off', False) else (length s, True))"

definition plain_prev :: "string \<Rightarrow> nat \<times> bool" where
  "plain_prev s =
     (if s = '''' then (0, True)
      else let t = (if last s = CHR ''.'' then butlast s else s);
               k = length (takeWhile (\<lambda>c. c \<noteq> CHR ''.'') (rev t))
           in (length t - k, False))"

definition plain_reply :: "Msg \<Rightarrow> Msg" where
  "plain_reply r = new_Msg\<lparr>m_Id := m_Id r, m_Response := True, m_Opcode := m_Opcode r,
     m_RecursionDesired := m_RecursionDesired r, m_CheckingDisabled := m_CheckingDisabled r,
     m_Question := take 1 (m_Question r)\<rparr>"

definition plain_lib :: dnslib where
  "plain_lib = \<lparr>IsSubDomain = (\<lambda>parent child.
       let p = plain_labels (ToLower parent); c = plain_labels (ToLower child)
       in length p \<le> length c \<and> drop (length c - length p) c = p),
     Fqdn = (\<lambda>s. if HasSuffix s ''.'' then s else s @ ''.''),
     NextLabel = plain_next, PrevLabel = (\<lambda>s n. plain_prev s),
     CountLabel = (\<lambda>s. length (plain_labels s)), NameString = (\<lambda>s. s),
     SetReply = plain_reply, SetRcode = (\<lambda>r rc. (plain_reply r)\<lparr>m_Rcode := rc\<rparr>),
     SplitDomainName = plain_labels, PackDomainName = (\<lambda>s n. if length s < n then Some s else None),
     UnpackDomainName = Some, RR_Len = (\<lambda>rr. int (length (rr_Name rr)) + 11),
     IsEdns0 = (\<lambda>m. find (\<lambda>rr. rr_Type rr = TypeOPT) (rev (m_Extra m))),
     opt_Do = (\<lambda>opt. bit (rr_Ttl opt) 15), opt_Version = (\<lambda>opt. ucast (drop_bit 16 (rr_Ttl opt))),
     opt_UDPSize = rr_Class, opt_SetDo = (\<lambda>opt. opt\<lparr>rr_Ttl := set_bit 15 (rr_Ttl opt)\<rparr>),
     opt_SetVersion = (\<lambda>opt v. opt\<lparr>rr_Ttl := or (and (rr_Ttl opt) 0xFF00FFFF) (push_bit 16 (ucast v))\<rparr>),
     opt_SetUDPSize = (\<lambda>opt size. opt\<lparr>rr_Class := size\<rparr>),
     opt_SetExtendedRcode = (\<lambda>opt v. opt\<lparr>rr_Ttl := or (and (rr_Ttl opt) 0x00FFFFFF) (push_bit 24 (ucast (drop_bit 4 v)))\<rparr>),
     SetEdns0 = (\<lambda>m sz do_bit. m\<lparr>m_Extra := m_Extra m @
       [\<lparr>rr_Name = ''.'', rr_Type = TypeOPT, rr_Class = sz, rr_Ttl = (if do_bit then 0x8000 else 0), rr_data = RD_OPT []\<rparr>]\<rparr>),
     ValidityPeriod = (\<lambda>rr t. case rr_data rr of RD_RRSIG _ _ a b \<Rightarrow> uint a \<le> t \<and> t \<le> uint b | _ \<Rightarrow> False),
     Msg_Len = (\<lambda>m. 12 + (\<Sum>rr\<leftarrow>m_Answer m @ m_Ns m @ m_Extra m. int (length (rr_Name rr)) + 11)),
     Truncate = (\<lambda>m size. m), Envelope_Msg = (\<lambda>r rrs. (plain_reply r)\<lparr>m_Authoritative := True, m_Answer := rrs\<rparr>),
     IsDomainName = (\<lambda>s. length s < 256),
     StringToType = map_of [(''A'', TypeA), (''NS'', TypeNS), (''CNAME'', TypeCNAME), (''SOA'', TypeSOA), (''PTR'', TypePTR),
       (''HINFO'', TypeHINFO), (''MX'', TypeMX), (''TXT'', TypeTXT), (''AAAA'', TypeAAAA), (''SRV'', TypeSRV), (''ANY'', TypeANY)],
     StringToClass = map_of [(''IN'', 1), (''CH'', 3), (''HS'', 4), (''ANY'', 255)],
     StringToRcode = map_of [(''NOERROR'', 0), (''FORMERR'', 1), (''SERVFAIL'', 2), (''NXDOMAIN'', 3), (''NOTIMP'', 4), (''REFUSED'', 5)]\<rparr>"

lemma plain_NextLabel_ok: "NextLabel_ok plain_lib"
  by (simp add: NextLabel_ok_def plain_lib_def plain_next_def Let_def)

lemma length_takeWhile_pos_less:
  "t \<noteq> '''' \<Longrightarrow> last t \<noteq> CHR ''.'' \<Longrightarrow> 0 < length (takeWhile (\<lambda>c. c \<noteq> CHR ''.'') (rev t))"
  by (cases t rule: rev_cases) auto

lemma plain_PrevLabel_ok: "PrevLabel_ok plain_lib"
  unfolding PrevLabel_ok_def
proof (intro conjI allI impI)
  show "PrevLabel plain_lib '''' 1 = (0, True)"
    by (simp add: plain_lib_def plain_prev_def)
  fix s :: string
  assume s: "s \<noteq> ''''"
  show "fst (PrevLabel plain_lib s 1) < length s"
    using s length_takeWhile_pos_less [of s] length_takeWhile_le [of "\<lambda>c. c \<noteq> CHR ''.''" "rev s"]
    by (auto simp: plain_lib_def plain_prev_def Let_def)
  show "\<not> snd (PrevLabel plain_lib s 1)"
    using s by (simp add: plain_lib_def plain_prev_def Let_def)
qed

lemma Split_size: "(\<Sum>p\<leftarrow>Split s c. length p + 1) = length s + 1"
  by (induction s) (auto split: list.split)

lemma Split_snoc: "Split (s @ [c]) c = Split s c @ [[]]"
  by (induction s) (auto split: list.split)

lemma Split_part: "c \<notin> set l \<Longrightarrow> Split (l @ c # s) c = l # Split s c"
  by (induction l) auto

lemma sum_list_filter_le: "sum_list (map f (filter P xs)) \<le> (sum_list (map f xs) :: nat)"
  by (induction xs) auto

lemma sum_list_drop_le: "sum_list (map f (drop k xs)) \<le> (sum_list (map f xs) :: nat)"
  by (metis append_take_drop_id le_add2 map_append sum_list_append)

lemma labels_size:
  assumes "HasSuffix s ''.''"
  shows "(\<Sum>l\<leftarrow>plain_labels s. length l + 1) \<le> length s"
proof -
  obtain t where s: "s = t @ ''.''" using assms by (auto simp: HasSuffix_iff)
  have "plain_labels s = filter (\<lambda>l. l \<noteq> '''') (Split t CHR ''.'')" by (simp add: s Split_snoc)
  then show ?thesis
    using sum_list_filter_le [of "\<lambda>l. length l + 1" "\<lambda>l. l \<noteq> ''''" "Split t CHR ''.''"] Split_size [of t "CHR ''.''"]
    by (simp add: s)
qed

lemma Join_size: "labels \<noteq> [] \<Longrightarrow> length (Join labels ''.'' @ ''.'') = (\<Sum>l\<leftarrow>labels. length l + 1)"
  by (induction labels "''.''" rule: Join.induct) auto

lemma plain_label_lower: "plain_label p \<Longrightarrow> CHR ''.'' \<notin> lower_char ` set p"
  unfolding plain_label_def by (metis imageE lower_dot_iff)

lemma lower_dot: "lower_char CHR ''.'' = CHR ''.''"
  by simp

lemma Join_labels:
  "labels \<noteq> [] \<Longrightarrow> list_all plain_label labels \<Longrightarrow>
     plain_labels (ToLower (Join labels ''.'' @ ''.'')) = map ToLower labels"
proof (induction labels "''.''" rule: Join.induct)
  case (2 p)
  then have "CHR ''.'' \<notin> set (map lower_char p)" by (simp add: plain_label_lower)
  with 2 Split_part [OF this, of "[]"] show ?case by (simp add: ToLower_def plain_label_def lower_dot)
next
  case (3 p q ps)
  then have "CHR ''.'' \<notin> set (map lower_char p)" by (simp add: plain_label_lower)
  with 3 Split_part [OF this] show ?case by (simp add: ToLower_def plain_label_def lower_dot)
qed simp

lemma plain_SubDomain_ok: "SubDomain_ok plain_lib"
proof -
  have "length (Join labels ''.'' @ ''.'') \<le> length child"
    if "labels \<noteq> []" "list_all plain_label labels" "HasSuffix child ''.''" "IsSubDomain plain_lib (Join labels ''.'' @ ''.'') child"
    for labels child
  proof -
    let ?c = "plain_labels (ToLower child)"
    have eq: "drop (length ?c - length labels) ?c = map ToLower labels"
      using that(4) Join_labels [OF that(1,2)] by (simp add: plain_lib_def Let_def del: plain_labels.simps)
    have "HasSuffix (ToLower child) ''.''" using that(3) by (auto simp: HasSuffix_iff ToLower_def)
    then have "(\<Sum>l\<leftarrow>?c. length l + 1) \<le> length child" using labels_size by (fastforce simp: ToLower_def simp del: plain_labels.simps)
    moreover have "(\<Sum>l\<leftarrow>map ToLower labels. length l + 1) \<le> (\<Sum>l\<leftarrow>?c. length l + 1)"
      using sum_list_drop_le [of "\<lambda>l. length l + 1" "length ?c - length labels" ?c] unfolding eq .
    moreover have "(\<Sum>l\<leftarrow>map ToLower labels. length l + 1) = (\<Sum>l\<leftarrow>labels. length l + 1)" by (simp add: ToLower_def comp_def)
    ultimately show ?thesis using Join_size [OF that(1)] by simp
  qed
  then show ?thesis by (auto simp: SubDomain_ok_def) (simp add: plain_lib_def)
qed

lemma plain_Fqdn_ok: "Fqdn_ok plain_lib"
  by (simp add: Fqdn_ok_def plain_lib_def HasSuffix_iff)

lemma plain_SetReply_ok: "SetReply_ok plain_lib"
  by (simp add: SetReply_ok_def plain_lib_def plain_reply_def new_Msg_def RcodeSuccess_def)

lemma plain_SetRcode_ok: "SetRcode_ok plain_lib"
  by (simp add: SetRcode_ok_def plain_lib_def plain_reply_def new_Msg_def)

lemma plain_OPT_ok: "OPT_ok plain_lib"
  by (simp add: OPT_ok_def plain_lib_def bit_simps)

lemma find_SomeD: "find P xs = Some x \<Longrightarrow> x \<in> set xs \<and> P x"
  by (induction xs) (auto split: if_splits)

lemma plain_IsEdns0_ok: "IsEdns0_ok plain_lib"
  using find_SomeD by (fastforce simp: IsEdns0_ok_def plain_lib_def find_None_iff)

lemma plain_SetEdns0_ok: "SetEdns0_ok plain_lib"
  by (simp add: SetEdns0_ok_def plain_lib_def)

lemma plain_Envelope_ok: "Envelope_ok plain_lib"
  by (simp add: Envelope_ok_def plain_lib_def)

lemma plain_Truncate_ok: "Truncate_ok plain_lib"
  by (simp add: Truncate_ok_def plain_lib_def)

section \<open>plugin.Zones and plugin.Name\<close>

fun matches_from :: "dnslib \<Rightarrow> string \<Rightarrow> string \<Rightarrow> string list \<Rightarrow> string" where
  "matches_from D qname zone [] = zone"
| "matches_from D qname zone (zname # zs) =
     matches_from D qname
       (if IsSubDomain D zname qname \<and> length zname > length zone then zname else zone) zs"

definition Zones_Matches :: "dnslib \<Rightarrow> string list \<Rightarrow> string \<Rightarrow> string" where
  "Zones_Matches D z qname = matches_from D qname '''' z"

definition Name_Normalize :: "dnslib \<Rightarrow> string \<Rightarrow> string" where
  "Name_Normalize D n = ToLower (Fqdn D n)"

definition Zones_Normalize :: "dnslib \<Rightarrow> string list \<Rightarrow> string list" where
  "Zones_Normalize D z = map (Name_Normalize D) z"

definition Name_Matches :: "dnslib \<Rightarrow> string \<Rightarrow> string \<Rightarrow> bool" where
  "Name_Matches D n child = (n = child \<or> IsSubDomain D n child)"

section \<open>Fallthrough\<close>

record F =
  f_Zones :: "string list"

definition Through :: "dnslib \<Rightarrow> F \<Rightarrow> string \<Rightarrow> bool" where
  "Through D f qname = (Zones_Matches D (f_Zones f) qname \<noteq> '''')"

section \<open>dnsutil\<close>

text \<open>\<^verbatim>\<open>dnsutil.TrimZone\<close>; \<open>None\<close> is its error.\<close>

definition TrimZone :: "dnslib \<Rightarrow> string \<Rightarrow> string \<Rightarrow> string option" where
  "TrimZone D q z =
     (let zl = CountLabel D z; (i, over) = PrevLabel D q zl
      in if over \<or> i < 1 then None else Some (take (i - 1) q))"

definition dnsutil_Join :: "dnslib \<Rightarrow> string list \<Rightarrow> string" where
  "dnsutil_Join D labels =
     (if last labels = ''.'' then Join (butlast labels) ''.'' @ ''.''
      else Fqdn D (Join labels ''.''))"

section \<open>Requests\<close>

definition req_Name :: "dnslib \<Rightarrow> Msg \<Rightarrow> string" where
  "req_Name D r =
     (case m_Question r of [] \<Rightarrow> ''.'' | q # _ \<Rightarrow> ToLower (NameString D (q_Name q)))"

definition req_QName :: "dnslib \<Rightarrow> Msg \<Rightarrow> string" where
  "req_QName D r = (case m_Question r of [] \<Rightarrow> ''.'' | q # _ \<Rightarrow> NameString D (q_Name q))"

definition req_QType :: "Msg \<Rightarrow> u16" where
  "req_QType r = (case m_Question r of [] \<Rightarrow> 0 | q # _ \<Rightarrow> q_Type q)"

definition req_QClass :: "Msg \<Rightarrow> u16" where
  "req_QClass r = (case m_Question r of [] \<Rightarrow> 0 | q # _ \<Rightarrow> q_Class q)"

definition req_Do :: "dnslib \<Rightarrow> Msg \<Rightarrow> bool" where
  "req_Do D r = (case IsEdns0 D r of Some opt \<Rightarrow> opt_Do D opt | None \<Rightarrow> False)"

text \<open>\<^verbatim>\<open>NewWithQuestion\<close>; \<open>None\<close> is the panic for a message without a question.\<close>

definition NewWithQuestion :: "dnslib \<Rightarrow> Msg \<Rightarrow> string \<Rightarrow> u16 \<Rightarrow> Msg option" where
  "NewWithQuestion D r name typ =
     (case m_Question r of
        [] \<Rightarrow> None
      | _ # qs \<Rightarrow> Some (r\<lparr>m_Question := \<lparr>q_Name = Fqdn D name, q_Type = typ, q_Class = ClassINET\<rparr> # qs\<rparr>))"

definition req_Match :: "dnslib \<Rightarrow> Msg \<Rightarrow> Msg \<Rightarrow> bool" where
  "req_Match D r reply =
     (case m_Question reply of
        [q] \<Rightarrow> m_Response reply \<and> ToLower (q_Name q) = req_Name D r \<and> q_Type q = req_QType r
      | _ \<Rightarrow> False)"

section \<open>The protocol between plugins\<close>

text \<open>
  A plugin answers with a return code, whether it also returned an error, and the messages it wrote to
  the response writer, in order. \<open>None\<close> is a panic.
\<close>

type_synonym answer = "nat \<times> bool \<times> Msg list"
type_synonym handler = "Msg \<Rightarrow> answer option"

definition ClientWrite :: "nat \<Rightarrow> bool" where
  "ClientWrite rcode =
     (\<not> (rcode = RcodeServerFailure \<or> rcode = RcodeRefused \<or> rcode = RcodeFormatError
         \<or> rcode = RcodeNotImplemented))"

definition NextOrFailure :: "handler option \<Rightarrow> handler" where
  "NextOrFailure nxt r =
     (case nxt of Some h \<Rightarrow> h r | None \<Rightarrow> Some (RcodeServerFailure, True, []))"

text \<open>The chain of a configuration, which \<^verbatim>\<open>NewServer\<close> builds from the last plugin to the first.\<close>

fun compile_plugins :: "(handler option \<Rightarrow> handler) list \<Rightarrow> handler option" where
  "compile_plugins [] = None"
| "compile_plugins (p # ps) = Some (p (compile_plugins ps))"

text \<open>
  The contract of \<^verbatim>\<open>plugin.Handler\<close>: the return code tells whether the response was written; a
  response is written once, and it is a reply to the request that repeats the question.
\<close>

definition reply_to :: "Msg \<Rightarrow> Msg \<Rightarrow> bool" where
  "reply_to r m \<longleftrightarrow> m_Response m \<and> m_Id m = m_Id r \<and> m_Question m = take 1 (m_Question r)"

lemma reply_to_SetReply:
  "SetReply_ok D \<Longrightarrow> m_Response m = m_Response (SetReply D r) \<Longrightarrow> m_Id m = m_Id (SetReply D r) \<Longrightarrow>
     m_Question m = m_Question (SetReply D r) \<Longrightarrow> reply_to r m"
  by (simp add: SetReply_ok_def reply_to_def)

definition obeys_protocol :: "Msg \<Rightarrow> answer option \<Rightarrow> bool" where
  "obeys_protocol r res \<longleftrightarrow>
     (\<exists>rcode err ws. res = Some (rcode, err, ws) \<and> length ws = (if ClientWrite rcode then 1 else 0)
        \<and> (\<forall>m \<in> set ws. reply_to r m))"

lemma obeys_written: "ClientWrite rcode \<Longrightarrow> reply_to r m \<Longrightarrow> obeys_protocol r (Some (rcode, err, [m]))"
  by (simp add: obeys_protocol_def)

lemma obeys_left: "\<not> ClientWrite rcode \<Longrightarrow> obeys_protocol r (Some (rcode, err, []))"
  by (simp add: obeys_protocol_def)

lemma ClientWrite_codes [simp]:
  "ClientWrite RcodeSuccess" "ClientWrite RcodeNameError" "\<not> ClientWrite RcodeServerFailure" "\<not> ClientWrite RcodeRefused"
  by (simp_all add: ClientWrite_def rcodes)

lemma NextOrFailure_protocol:
  "(\<And>h. nxt = Some h \<Longrightarrow> obeys_protocol r (h r)) \<Longrightarrow> obeys_protocol r (NextOrFailure nxt r)"
  by (cases nxt) (simp_all add: NextOrFailure_def obeys_left)

text \<open>
  What every plugin promises of an ordinary query, whose name is fully qualified as all names of a
  received message are: in front of plugins that keep the protocol it
  keeps the protocol. A chain of such plugins then keeps it as a whole.
\<close>

definition OpcodeNotify :: nat where
  "OpcodeNotify = 4"

definition is_query :: "Msg \<Rightarrow> bool" where
  "is_query r \<longleftrightarrow>
     m_Question r \<noteq> [] \<and> HasSuffix (q_Name (hd (m_Question r))) ''.'' \<and> m_Opcode r \<noteq> OpcodeNotify"

locale plugin_link =
  fixes wrap :: "'c \<Rightarrow> handler option \<Rightarrow> handler" and ok :: "'c \<Rightarrow> bool"
  assumes link: "ok c \<Longrightarrow> is_query r \<Longrightarrow>
      (\<And>h r'. nxt = Some h \<Longrightarrow> is_query r' \<Longrightarrow> obeys_protocol r' (h r')) \<Longrightarrow> obeys_protocol r (wrap c nxt r)"
begin

lemma chain_obeys:
  "list_all ok cs \<Longrightarrow> compile_plugins (map wrap cs) = Some h \<Longrightarrow> is_query r \<Longrightarrow> obeys_protocol r (h r)"
proof (induction cs arbitrary: h r)
  case (Cons c cs)
  then have "h = wrap c (compile_plugins (map wrap cs))" by simp
  with Cons show ?case by (auto intro: link)
qed simp

end

section \<open>The most specific zone\<close>

lemma matches_from_spec:
  "(matches_from D qname zone zs = zone
      \<or> matches_from D qname zone zs \<in> set zs \<and> IsSubDomain D (matches_from D qname zone zs) qname)
   \<and> length zone \<le> length (matches_from D qname zone zs)
   \<and> (\<forall>z \<in> set zs. IsSubDomain D z qname \<longrightarrow> length z \<le> length (matches_from D qname zone zs))"
proof (induction zs arbitrary: zone)
  case (Cons z zs)
  let ?zone = "if IsSubDomain D z qname \<and> length z > length zone then z else zone"
  show ?case
    using Cons.IH [of ?zone] by auto
qed simp

lemma Zones_Matches_spec:
  "Zones_Matches D zs qname \<noteq> '''' \<Longrightarrow>
     Zones_Matches D zs qname \<in> set zs \<and> IsSubDomain D (Zones_Matches D zs qname) qname"
  "z \<in> set zs \<Longrightarrow> IsSubDomain D z qname \<Longrightarrow> length z \<le> length (Zones_Matches D zs qname)"
  using matches_from_spec [of D qname "''''" zs] by (auto simp: Zones_Matches_def)

text \<open>The most specific zone wins. \<open>Zones.Matches\<close> gives a zone of the list that contains the
  name and that is at least as long as every other such zone; it gives the empty string exactly
  when no zone of the list, other than the empty string, contains the name. The order of the
  list matters only among zones of the same length.\<close>

theorem longest_zone_match:
  "(if Zones_Matches D zs qname = ''''
    then \<not> (\<exists>z \<in> set zs. z \<noteq> '''' \<and> IsSubDomain D z qname)
    else Zones_Matches D zs qname \<in> set zs \<and> IsSubDomain D (Zones_Matches D zs qname) qname)
   \<and> {z \<in> set zs. IsSubDomain D z qname \<and> length z > length (Zones_Matches D zs qname)} = {}"
proof -
  have upper: "length z \<le> length (Zones_Matches D zs qname)" if "z \<in> set zs" "IsSubDomain D z qname" for z
    using that by (rule Zones_Matches_spec(2))
  show ?thesis
  proof (cases "Zones_Matches D zs qname = ''''")
    case True
    then show ?thesis using upper by fastforce
  next
    case False
    then show ?thesis using Zones_Matches_spec(1) [OF False] upper by fastforce
  qed
qed

end
