(* ===== verification/Go_Net.thy ===== *)
theory Go_Net
  imports Prelude
begin

text \<open>
  What the sources use of Go's package \<^verbatim>\<open>net\<close>: addresses as lists of bytes, their text, masks, and the split of an address into host
  and port.
\<close>

unbundle bit_operations_syntax

section \<open>Addresses\<close>

text \<open>
  \<^verbatim>\<open>net.ParseIP\<close>, which is \<^verbatim>\<open>netip.ParseAddr\<close> without zones: the first dot or colon decides
  between the two notations. An address is a list of 16 bytes, an IPv4 address its mapped form.
\<close>

definition v4_field :: "string \<Rightarrow> nat option" where
  "v4_field s =
     (if s \<noteq> '''' \<and> length s \<le> 3 \<and> list_all is_digit s \<and> (length s = 1 \<or> hd s \<noteq> CHR ''0'') \<and> dec_val 0 s \<le> 255
      then Some (nat (dec_val 0 s)) else None)"

definition parse_v4 :: "string \<Rightarrow> nat list option" where
  "parse_v4 s =
     (case map v4_field (Split s CHR ''.'') of
        [Some a, Some b, Some c, Some d] \<Rightarrow> Some [a, b, c, d]
      | _ \<Rightarrow> None)"

definition hex_val :: "char \<Rightarrow> nat option" where
  "hex_val c =
     (let n = (of_char c :: nat) in
      if 48 \<le> n \<and> n \<le> 57 then Some (n - 48)
      else if 97 \<le> n \<and> n \<le> 102 then Some (n - 87)
      else if 65 \<le> n \<and> n \<le> 70 then Some (n - 55)
      else None)"

definition is_hex :: "char \<Rightarrow> bool" where
  "is_hex c = (hex_val c \<noteq> None)"

definition hex_group :: "string \<Rightarrow> nat" where
  "hex_group ds = foldl (\<lambda>acc c. 16 * acc + the (hex_val c)) 0 ds"

text \<open>
  The loop of \<^verbatim>\<open>parseIPv6\<close>, at most eight rounds: the bytes so far, where the double colon stood,
  and the rest of the text.
\<close>

fun v6_groups :: "nat \<Rightarrow> nat list \<Rightarrow> nat option \<Rightarrow> string \<Rightarrow> (nat list \<times> nat option \<times> string) option" where
  "v6_groups 0 bs ell s = Some (bs, ell, s)"
| "v6_groups (Suc n) bs ell s =
     (let ds = takeWhile is_hex s; rest = dropWhile is_hex s in
      if ds = '''' \<or> length ds > 4 then None
      else if rest \<noteq> '''' \<and> hd rest = CHR ''.'' then
        (if ell = None \<and> length bs \<noteq> 12 \<or> length bs + 4 > 16 then None
         else map_option (\<lambda>v. (bs @ v, ell, '''')) (parse_v4 s))
      else
        let bs' = bs @ [hex_group ds div 256, hex_group ds mod 256] in
        if rest = '''' then Some (bs', ell, '''')
        else if hd rest \<noteq> CHR '':'' \<or> tl rest = '''' then None
        else if hd (tl rest) = CHR '':'' then
          (if ell \<noteq> None then None
           else if tl (tl rest) = '''' then Some (bs', Some (length bs'), '''')
           else v6_groups n bs' (Some (length bs')) (tl (tl rest)))
        else v6_groups n bs' ell (tl rest))"

definition v6_finish :: "nat list \<times> nat option \<times> string \<Rightarrow> nat list option" where
  "v6_finish x =
     (case x of (bs, ell, s) \<Rightarrow>
        if s \<noteq> '''' then None
        else if length bs < 16 then
          (case ell of
             None \<Rightarrow> None
           | Some e \<Rightarrow> Some (take e bs @ replicate (16 - length bs) 0 @ drop e bs))
        else if ell \<noteq> None then None else Some bs)"

definition parse_v6 :: "string \<Rightarrow> nat list option" where
  "parse_v6 s =
     (if HasPrefix s ''::'' then
        (if length s = 2 then Some (replicate 16 0)
         else Option.bind (v6_groups 8 [] (Some 0) (drop 2 s)) v6_finish)
      else Option.bind (v6_groups 8 [] None s) v6_finish)"

definition ParseIP :: "string \<Rightarrow> nat list option" where
  "ParseIP s =
     (if CHR ''%'' \<in> set s then None
      else case find (\<lambda>c. c = CHR ''.'' \<or> c = CHR '':'') s of
        None \<Rightarrow> None
      | Some c \<Rightarrow>
          if c = CHR ''.'' then map_option (\<lambda>v. replicate 10 0 @ [255, 255] @ v) (parse_v4 s)
          else parse_v6 s)"

text \<open>\<^verbatim>\<open>IP.To4\<close> gives the four bytes of a mapped address and nil, the empty list, otherwise.\<close>

definition To4 :: "nat list \<Rightarrow> nat list" where
  "To4 ip = (if take 12 ip = replicate 10 0 @ [255, 255] then drop 12 ip else [])"

text \<open>\<^verbatim>\<open>IP.To16\<close>; addresses of four bytes get the prefix of mapped addresses.\<close>

definition To16 :: "nat list \<Rightarrow> nat list" where
  "To16 ip = (if length ip = 4 then replicate 10 0 @ [255, 255] @ ip else if length ip = 16 then ip else [])"

text \<open>\<^verbatim>\<open>net.CIDRMask\<close> for a length within the number of bits, and \<^verbatim>\<open>IP.Mask\<close>; the empty list is nil.\<close>

definition CIDRMask :: "nat \<Rightarrow> nat \<Rightarrow> nat list" where
  "CIDRMask ones bits = map (\<lambda>i. let n = ones - 8 * i in if n \<ge> 8 then 255 else 255 - 255 div 2 ^ n) [0 ..< bits div 8]"

definition IP_Mask :: "nat list \<Rightarrow> nat list \<Rightarrow> nat list" where
  "IP_Mask ip msk =
     (let msk = (if length msk = 16 \<and> length ip = 4 \<and> take 12 msk = replicate 12 255 then drop 12 msk else msk);
          ip = (if length msk = 4 \<and> length ip = 16 \<and> take 12 ip = replicate 10 0 @ [255, 255] then drop 12 ip else ip)
      in if length ip \<noteq> length msk then [] else map2 (AND) ip msk)"

section \<open>Hosts and ports\<close>

text \<open>\<^verbatim>\<open>net.SplitHostPort\<close>; \<open>None\<close> is its error.\<close>

definition SplitHostPort :: "string \<Rightarrow> (string \<times> string) option" where
  "SplitHostPort s =
     (if CHR '':'' \<notin> set s then None
      else
        let i = length s - 1 - length (takeWhile (\<lambda>c. c \<noteq> CHR '':'') (rev s)) in
        if HasPrefix s ''['' then
          (if CHR '']'' \<notin> set s then None
           else let e = length (takeWhile (\<lambda>c. c \<noteq> CHR '']'') s) in
             if e + 1 \<noteq> i then None
             else if CHR ''['' \<in> set (drop 1 s) \<or> CHR '']'' \<in> set (drop (e + 1) s) then None
             else Some (take (e - 1) (drop 1 s), drop (i + 1) s))
        else if CHR '':'' \<in> set (take i s) then None
        else if CHR ''['' \<in> set s \<or> CHR '']'' \<in> set s then None
        else Some (take i s, drop (i + 1) s))"

end
