(* ===== verification/DNS_Request.thy ===== *)
theory DNS_Request
  imports DNS_Lib Go_Net
begin

text \<open>
  The client's side of a request, \<^verbatim>\<open>request/request.go\<close>, \<^verbatim>\<open>request/edns0.go\<close>, \<^verbatim>\<open>request/writer.go\<close> and
  \<^verbatim>\<open>plugin/pkg/edns/edns.go\<close>: the transport, the size of the client's buffer, the OPT record of a reply, and the
  writer that makes a reply fit.

  The OPT record of the request is shared with the reply and changed in place, so \<open>SizeAndDo\<close> gives the new request
  besides the new reply. When the reply carries the very record of the request, the changes repeat those that
  were made before and the request stays as it is.
\<close>

section \<open>The transport\<close>

text \<open>The remote address: its kind with the bytes of the IP address, and its text.\<close>

datatype addr = UDPAddr "nat list" | TCPAddr "nat list" | OtherAddr

record client =
  cl_addr :: addr
  cl_text :: string

definition req_Proto :: "client \<Rightarrow> string" where
  "req_Proto c = (case cl_addr c of UDPAddr _ \<Rightarrow> ''udp'' | TCPAddr _ \<Rightarrow> ''tcp'' | OtherAddr \<Rightarrow> ''udp'')"

text \<open>Whether \<^verbatim>\<open>IP.To4\<close> gives an address: for four bytes, or sixteen with the prefix of mapped addresses.\<close>

definition is_IPv4 :: "nat list \<Rightarrow> bool" where
  "is_IPv4 ip \<longleftrightarrow> length ip = 4 \<or> length ip = 16 \<and> take 12 ip = replicate 10 0 @ [255, 255]"

definition req_Family :: "client \<Rightarrow> nat" where
  "req_Family c =
     (let a = (case cl_addr c of UDPAddr ip \<Rightarrow> ip | TCPAddr ip \<Rightarrow> ip | OtherAddr \<Rightarrow> [])
      in if is_IPv4 a then 1 else 2)"

definition req_IP :: "string \<Rightarrow> string" where
  "req_IP remote = (case SplitHostPort remote of Some (ip, _) \<Rightarrow> ip | None \<Rightarrow> remote)"

definition req_Port :: "client \<Rightarrow> string" where
  "req_Port c = (case SplitHostPort (cl_text c) of Some (_, port) \<Rightarrow> port | None \<Rightarrow> ''0'')"

definition req_LocalIP :: "string \<Rightarrow> string" where
  "req_LocalIP local = (case SplitHostPort local of Some (ip, _) \<Rightarrow> ip | None \<Rightarrow> local)"

definition req_LocalPort :: "string \<Rightarrow> string" where
  "req_LocalPort local = (case SplitHostPort local of Some (_, port) \<Rightarrow> port | None \<Rightarrow> ''0'')"

section \<open>EDNS\<close>

definition MaxMsgSize :: u16 where "MaxMsgSize = 65535"
definition MinMsgSize :: u16 where "MinMsgSize = 512"

definition edns_Size :: "string \<Rightarrow> u16 \<Rightarrow> u16" where
  "edns_Size proto sz =
     (if proto = ''tcp'' then MaxMsgSize else if sz < MinMsgSize then MinMsgSize else sz)"

definition new_OPT :: RR where
  "new_OPT = \<lparr>rr_Name = ''.'', rr_Type = TypeOPT, rr_Class = 0, rr_Ttl = 0, rr_data = RD_OPT []\<rparr>"

text \<open>\<open>None\<close> when the version is one that the server speaks, otherwise the reply to send.\<close>

definition edns_Version :: "dnslib \<Rightarrow> Msg \<Rightarrow> Msg option" where
  "edns_Version D r =
     (case IsEdns0 D r of
        None \<Rightarrow> None
      | Some opt \<Rightarrow>
          if opt_Version D opt = 0 then None
          else
            let m = SetReply D r;
                o1 = opt_SetExtendedRcode D (opt_SetVersion D new_OPT 0) (of_nat RcodeBadVers)
            in Some (m\<lparr>m_Rcode := RcodeBadVers, m_Extra := [o1]\<rparr>))"

text \<open>The options the server echoes: five that are built in, and those that plugins registered.\<close>

definition EDNS0NSID :: u16 where "EDNS0NSID = 3"
definition EDNS0SUBNET :: u16 where "EDNS0SUBNET = 8"
definition EDNS0EXPIRE :: u16 where "EDNS0EXPIRE = 9"
definition EDNS0COOKIE :: u16 where "EDNS0COOKIE = 10"
definition EDNS0TCPKEEPALIVE :: u16 where "EDNS0TCPKEEPALIVE = 11"
definition EDNS0PADDING :: u16 where "EDNS0PADDING = 12"

definition SetSupportedOption :: "u16 \<Rightarrow> u16 list \<Rightarrow> u16 list" where
  "SetSupportedOption code extra = List.insert code extra"

definition SupportedOption :: "u16 list \<Rightarrow> u16 \<Rightarrow> bool" where
  "SupportedOption extra code = (code \<in> set extra)"

definition supportedOptions :: "u16 list \<Rightarrow> edns0 list \<Rightarrow> edns0 list" where
  "supportedOptions extra opts =
     filter (\<lambda>opt. edns0_Option opt \<in> {EDNS0NSID, EDNS0EXPIRE, EDNS0COOKIE, EDNS0TCPKEEPALIVE, EDNS0PADDING}
       \<or> SupportedOption extra (edns0_Option opt)) opts"

definition req_Size :: "dnslib \<Rightarrow> client \<Rightarrow> Msg \<Rightarrow> int" where
  "req_Size D c r =
     uint (edns_Size (req_Proto c) (case IsEdns0 D r of Some opt \<Rightarrow> opt_UDPSize D opt | None \<Rightarrow> 0))"

text \<open>Writing through the pointer to a record of the additional section.\<close>

fun replace_rr :: "RR \<Rightarrow> RR \<Rightarrow> RR list \<Rightarrow> RR list" where
  "replace_rr old new [] = []"
| "replace_rr old new (rr # rrs) = (if rr = old then new # rrs else rr # replace_rr old new rrs)"

definition SizeAndDo :: "dnslib \<Rightarrow> u16 list \<Rightarrow> Msg \<Rightarrow> Msg \<Rightarrow> bool \<times> Msg \<times> Msg" where
  "SizeAndDo D extra r m =
     (case IsEdns0 D r of
        None \<Rightarrow> (False, r, m)
      | Some opt \<Rightarrow>
          (case IsEdns0 D m of
             Some mo \<Rightarrow>
               (let m1 = opt_SetVersion D (mo\<lparr>rr_Name := ''.'', rr_Type := TypeOPT\<rparr>) 0;
                    m2 = opt_SetUDPSize D m1 (opt_UDPSize D opt);
                    m3 = m2\<lparr>rr_Ttl := and (rr_Ttl m2) 0xff00\<rparr>;
                    m4 = (if opt_Do D opt then opt_SetDo D m3 else m3)
                in (True, r, m\<lparr>m_Extra := replace_rr mo m4 (m_Extra m)\<rparr>))
           | None \<Rightarrow>
               (let o1 = opt_SetVersion D (opt\<lparr>rr_Name := ''.'', rr_Type := TypeOPT\<rparr>) 0;
                    o2 = o1\<lparr>rr_Ttl := and (rr_Ttl o1) 0xff00\<rparr>;
                    o3 = (case rr_data o2 of RD_OPT opts \<Rightarrow> o2\<lparr>rr_data := RD_OPT (supportedOptions extra opts)\<rparr> | _ \<Rightarrow> o2)
                in (True, r\<lparr>m_Extra := replace_rr opt o3 (m_Extra r)\<rparr>, m\<lparr>m_Extra := m_Extra m @ [o3]\<rparr>))))"

section \<open>Fitting the reply\<close>

definition Scrub :: "dnslib \<Rightarrow> client \<Rightarrow> Msg \<Rightarrow> Msg \<Rightarrow> Msg" where
  "Scrub D c r reply =
     (let reply = Truncate D reply (req_Size D c r) in
      if m_Compress reply then reply
      else if req_Proto c = ''udp'' then
        (let rl = Msg_Len D reply;
             reply = (if rl > 1480 \<and> req_Family c = 1 then reply\<lparr>m_Compress := True\<rparr> else reply)
         in if rl > 1220 \<and> req_Family c = 2 then reply\<lparr>m_Compress := True\<rparr> else reply)
      else reply)"

text \<open>\<^verbatim>\<open>ScrubWriter.WriteMsg\<close>: the request afterwards, and the message that goes out.\<close>

definition Scrub_WriteMsg :: "dnslib \<Rightarrow> u16 list \<Rightarrow> client \<Rightarrow> Msg \<Rightarrow> Msg \<Rightarrow> Msg \<times> Msg" where
  "Scrub_WriteMsg D extra c r m = (let (_, r', m') = SizeAndDo D extra r m in (r', Scrub D c r' m'))"

section \<open>Properties\<close>

text \<open>The size of the client's buffer is within bounds. It is at least 512 bytes and at most 65535; over TCP it is the
  maximum, over UDP what the client advertised, but never less than 512.\<close>

theorem size_within_bounds:
  "512 \<le> req_Size D c r \<and> req_Size D c r \<le> 65535
   \<and> req_Size D c r = (if req_Proto c = ''tcp'' then 65535
        else max 512 (case IsEdns0 D r of Some opt \<Rightarrow> uint (opt_UDPSize D opt) | None \<Rightarrow> 0))"
proof -
  have "uint s \<le> 65535" for s :: u16 using uint_lt2p [of s] by simp
  then show ?thesis
    by (auto simp: req_Size_def edns_Size_def MaxMsgSize_def MinMsgSize_def word_less_alt split: option.splits)
qed

lemma replace_rr_in: "old \<in> set rrs \<Longrightarrow> new \<in> set (replace_rr old new rrs)"
  by (induction rrs) auto

lemma set_replace_rr: "set (replace_rr old new rrs) \<subseteq> insert new (set rrs)"
  by (induction rrs) auto

lemma mask_DO: "bit (and (t :: u32) 0xff00) 15 = bit t 15"
  by (simp add: bit_simps)

lemma OPT_okD:
  assumes "OPT_ok D"
  shows "opt_Do D opt = bit (rr_Ttl opt) 15" "opt_UDPSize D opt = rr_Class opt"
    "rr_Type (opt_SetVersion D opt v) = rr_Type opt" "rr_Class (opt_SetVersion D opt v) = rr_Class opt"
    "bit (rr_Ttl (opt_SetVersion D opt v)) 15 = bit (rr_Ttl opt) 15"
    "rr_Type (opt_SetUDPSize D opt s) = rr_Type opt" "rr_Class (opt_SetUDPSize D opt s) = s"
    "bit (rr_Ttl (opt_SetUDPSize D opt s)) 15 = bit (rr_Ttl opt) 15"
    "rr_Type (opt_SetDo D opt) = rr_Type opt" "rr_Class (opt_SetDo D opt) = rr_Class opt" "bit (rr_Ttl (opt_SetDo D opt)) 15"
  using assms unfolding OPT_ok_def by metis+

text \<open>A reply speaks EDNS exactly when the client does. Without an OPT record in the request the reply is left alone;
  with one, the reply has an OPT record too, and if it had none before, that record has the
  client's buffer size and DO bit and only options that the server supports. Nothing else of
  the reply changes.\<close>

theorem reply_mirrors_edns:
  assumes "OPT_ok D" and "IsEdns0_ok D" and "IsEdns0 D m = None"
  shows "case SizeAndDo D extra r m of (found, r', m') \<Rightarrow>
    (case IsEdns0 D r of
       None \<Rightarrow> \<not> found \<and> m' = m
     | Some opt \<Rightarrow> found \<and> (\<exists>opt'. m' = m\<lparr>m_Extra := m_Extra m @ [opt']\<rparr> \<and> rr_Type opt' = TypeOPT
         \<and> opt_UDPSize D opt' = opt_UDPSize D opt \<and> opt_Do D opt' = opt_Do D opt
         \<and> (\<forall>opts. rr_data opt' = RD_OPT opts \<longrightarrow> (\<forall>opt \<in> set opts. edns0_Option opt \<in> {3, 9, 10, 11, 12} \<union> set extra))))"
proof (cases "IsEdns0 D r")
  case None
  then show ?thesis by (simp add: SizeAndDo_def)
next
  case (Some opt)
  define o1 where "o1 = opt_SetVersion D (opt\<lparr>rr_Name := ''.'', rr_Type := TypeOPT\<rparr>) 0"
  define o2 where "o2 = o1\<lparr>rr_Ttl := and (rr_Ttl o1) 0xff00\<rparr>"
  define o3 where "o3 = (case rr_data o2 of RD_OPT opts \<Rightarrow> o2\<lparr>rr_data := RD_OPT (supportedOptions extra opts)\<rparr> | _ \<Rightarrow> o2)"
  have "rr_Type o3 = rr_Type o2" "rr_Class o3 = rr_Class o2" "rr_Ttl o3 = rr_Ttl o2"
    by (simp_all add: o3_def split: rdata.split)
  then have o3: "rr_Type o3 = TypeOPT" "rr_Class o3 = rr_Class opt" "bit (rr_Ttl o3) 15 = bit (rr_Ttl opt) 15"
    by (simp_all add: o2_def o1_def mask_DO OPT_okD [OF assms(1)])
  have opts: "\<forall>opts. rr_data o3 = RD_OPT opts \<longrightarrow> (\<forall>opt \<in> set opts. edns0_Option opt \<in> {3, 9, 10, 11, 12} \<union> set extra)"
    by (auto simp: o3_def supportedOptions_def SupportedOption_def EDNS0NSID_def EDNS0EXPIRE_def EDNS0COOKIE_def
        EDNS0TCPKEEPALIVE_def EDNS0PADDING_def split: rdata.splits)
  have "SizeAndDo D extra r m = (True, r\<lparr>m_Extra := replace_rr opt o3 (m_Extra r)\<rparr>, m\<lparr>m_Extra := m_Extra m @ [o3]\<rparr>)"
    using Some assms(3) by (simp only: SizeAndDo_def Let_def option.case o3_def o2_def o1_def)
  then show ?thesis using o3 opts Some by (simp only: prod.case option.case OPT_okD(1,2) [OF assms(1)]) blast
qed


definition ex_opt :: "u32 \<Rightarrow> RR" where
  "ex_opt ttl = new_OPT\<lparr>rr_Class := 1232, rr_Ttl := ttl, rr_data := RD_OPT [EDNS0_Other 10 ''cookie'', EDNS0_SUBNET 1 24 0 [10, 0, 0, 0]]\<rparr>"

theorem reply_mirrors_edns_witness:
  "\<exists>opt'. snd (snd (SizeAndDo plain_lib [] (new_Msg\<lparr>m_Extra := [ex_opt 0x8000]\<rparr>) new_Msg)) = new_Msg\<lparr>m_Extra := [opt']\<rparr>
     \<and> rr_Type opt' = TypeOPT \<and> opt_UDPSize plain_lib opt' = 1232 \<and> opt_Do plain_lib opt'"
proof -
  let ?r = "new_Msg\<lparr>m_Extra := [ex_opt 0x8000]\<rparr>"
  have edns: "IsEdns0 plain_lib new_Msg = None" "IsEdns0 plain_lib ?r = Some (ex_opt 0x8000)"
    "opt_UDPSize plain_lib (ex_opt 0x8000) = 1232" "opt_Do plain_lib (ex_opt 0x8000)"
    by (simp_all add: plain_lib_def new_Msg_def ex_opt_def new_OPT_def)
  obtain found r' m' where sd: "SizeAndDo plain_lib [] ?r new_Msg = (found, r', m')" by (cases "SizeAndDo plain_lib [] ?r new_Msg")
  from reply_mirrors_edns [OF plain_OPT_ok plain_IsEdns0_ok edns(1), of "[]" ?r] show ?thesis
    unfolding sd edns(2) using edns(3,4) by (auto simp: new_Msg_def)
qed

text \<open>The mask that is meant to clear the flags of a reply's own OPT record keeps the upper ones: a DO bit
  that a plugin set reaches a client that has not asked for it.\<close>

theorem do_bit_not_cleared:
  assumes "OPT_ok D" and "IsEdns0_ok D" and "IsEdns0 D r = Some opt" and "\<not> opt_Do D opt"
    and "IsEdns0 D m = Some mo" and "opt_Do D mo"
  shows "\<exists>rr \<in> set (m_Extra (snd (snd (SizeAndDo D extra r m)))). rr_Type rr = TypeOPT \<and> opt_Do D rr"
proof -
  let ?m1 = "opt_SetVersion D (mo\<lparr>rr_Name := ''.'', rr_Type := TypeOPT\<rparr>) 0"
  let ?m2 = "opt_SetUDPSize D ?m1 (opt_UDPSize D opt)"
  let ?m3 = "?m2\<lparr>rr_Ttl := and (rr_Ttl ?m2) 0xff00\<rparr>"
  have "mo \<in> set (m_Extra m)" using assms(2,5) by (simp add: IsEdns0_ok_def)
  then have "?m3 \<in> set (m_Extra (snd (snd (SizeAndDo D extra r m))))"
    using assms(3-5) by (simp add: SizeAndDo_def Let_def replace_rr_in)
  moreover have "rr_Type ?m3 = TypeOPT" "opt_Do D ?m3"
    using assms(6) by (simp_all add: OPT_okD [OF assms(1)] mask_DO)
  ultimately show ?thesis by blast
qed

section \<open>What the writer keeps\<close>

lemma SizeAndDo_header:
  assumes "SizeAndDo D extra r m = (found, r', m')"
  shows "m_Id m' = m_Id m" "m_Response m' = m_Response m" "m_Rcode m' = m_Rcode m" "m_Answer m' = m_Answer m" "m_Id r' = m_Id r"
    "m_Question r' = m_Question r" "m_Question m' = m_Question m"
  using assms by (auto simp: SizeAndDo_def Let_def split: option.splits)

lemma Scrub_header:
  assumes "Truncate_ok D"
  shows "m_Id (Scrub D c r m) = m_Id m" "m_Response (Scrub D c r m) = m_Response m" "m_Rcode (Scrub D c r m) = m_Rcode m"
    "set (m_Answer (Scrub D c r m)) \<subseteq> set (m_Answer m)" "m_Question (Scrub D c r m) = m_Question m"
  using assms by (simp_all add: Scrub_def Let_def Truncate_ok_def)

lemma Scrub_WriteMsg_header:
  assumes "Truncate_ok D" and "Scrub_WriteMsg D extra c r m = (r', m')"
  shows "m_Id m' = m_Id m" "m_Response m' = m_Response m" "m_Rcode m' = m_Rcode m" "set (m_Answer m') \<subseteq> set (m_Answer m)"
    "m_Id r' = m_Id r" "m_Question r' = m_Question r" "m_Question m' = m_Question m"
proof -
  obtain found r1 m1 where sd: "SizeAndDo D extra r m = (found, r1, m1)" by (cases "SizeAndDo D extra r m")
  then have "r' = r1" "m' = Scrub D c r1 m1" using assms(2) by (auto simp: Scrub_WriteMsg_def)
  then show "m_Id m' = m_Id m" "m_Response m' = m_Response m" "m_Rcode m' = m_Rcode m" "set (m_Answer m') \<subseteq> set (m_Answer m)"
    "m_Id r' = m_Id r" "m_Question r' = m_Question r" "m_Question m' = m_Question m"
    using SizeAndDo_header [OF sd] Scrub_header [OF assms(1), of c r1 m1] by simp_all
qed

end
