(* ===== verification/DNS_Server.thy ===== *)
theory DNS_Server
  imports DNS_Request
begin

text \<open>
  The entry point of the server, \<^verbatim>\<open>core/dnsserver/server.go\<close>: \<^verbatim>\<open>ServeDNS\<close> checks a request, finds the configuration of
  the most specific zone, runs its chain of plugins, and answers in its place when the chain says so or
  panics. The context values of metadata and views are not modelled.

  The properties: every request is answered exactly once, whatever the plugins do within their protocol, and the
  configuration that serves it is that of the longest zone.
\<close>

section \<open>Model\<close>

text \<open>What a chain of plugins does: it returns a code, or panics, after writing messages. \<open>outcome_of\<close> makes one of a handler.\<close>

datatype outcome = Returned nat "Msg list" | Panicked "Msg list"

definition outcome_of :: "handler \<Rightarrow> Msg \<Rightarrow> outcome" where
  "outcome_of h r = (case h r of None \<Rightarrow> Panicked [] | Some (rcode, _, ws) \<Rightarrow> Returned rcode ws)"

record Config =
  cf_Zone :: string
  cf_pluginChain :: "(Msg \<Rightarrow> outcome) option"
  cf_FilterFuncs :: "(Msg \<Rightarrow> bool) list"

record Server =
  s_zones :: "(string \<times> Config list) list"
  s_debug :: bool
  s_classChaos :: bool
  s_options :: "u16 list"

fun passAllFilterFuncs :: "(Msg \<Rightarrow> bool) list \<Rightarrow> Msg \<Rightarrow> bool" where
  "passAllFilterFuncs [] r = True"
| "passAllFilterFuncs (ff # ffs) r = (if \<not> ff r then False else passAllFilterFuncs ffs r)"

text \<open>The message of \<^verbatim>\<open>errorFunc\<close> and \<^verbatim>\<open>errorAndMetricsFunc\<close>, and the request afterwards.\<close>

definition errorFunc :: "dnslib \<Rightarrow> u16 list \<Rightarrow> Msg \<Rightarrow> nat \<Rightarrow> Msg \<times> Msg" where
  "errorFunc D extra r rc = (let (_, r', answer) = SizeAndDo D extra r (SetRcode D r rc) in (r', answer))"

text \<open>
  The configurations of one zone, tried in order: one without plugins ends the search, one whose filters pass
  is used, or remembered when the question is for a DS record.
\<close>

datatype pick = Serve Config | No_plugins | Search_on "Config option"

fun scan_configs :: "Msg \<Rightarrow> bool \<Rightarrow> Config list \<Rightarrow> Config option \<Rightarrow> pick" where
  "scan_configs r is_DS [] dshandler = Search_on dshandler"
| "scan_configs r is_DS (h # hs) dshandler =
     (if cf_pluginChain h = None then No_plugins
      else if passAllFilterFuncs (cf_FilterFuncs h) r then
        (if \<not> is_DS then Serve h else scan_configs r is_DS hs (Some h))
      else scan_configs r is_DS hs dshandler)"

fun scan_labels :: "dnslib \<Rightarrow> Server \<Rightarrow> Msg \<Rightarrow> bool \<Rightarrow> string \<Rightarrow> nat \<Rightarrow> nat \<Rightarrow> Config option \<Rightarrow> pick option" where
  "scan_labels D s r is_DS q 0 off dshandler = None"
| "scan_labels D s r is_DS q (Suc k) off dshandler =
     (let go_on = (\<lambda>dsh. case NextLabel D q off of (off', end') \<Rightarrow>
            if end' then Some (Search_on dsh) else scan_labels D s r is_DS q k off' dsh) in
      case map_of (s_zones s) (drop off q) of
        None \<Rightarrow> go_on dshandler
      | Some z \<Rightarrow>
          (case scan_configs r is_DS z dshandler of
             Search_on dsh \<Rightarrow> go_on dsh
           | p \<Rightarrow> Some p))"

fun scan_root :: "Msg \<Rightarrow> Config list \<Rightarrow> Config option" where
  "scan_root r [] = None"
| "scan_root r (h # hs) =
     (if cf_pluginChain h = None then scan_root r hs
      else if passAllFilterFuncs (cf_FilterFuncs h) r then Some h
      else scan_root r hs)"

text \<open>The configuration that serves a request; \<open>None\<close> when it is refused.\<close>

definition route :: "dnslib \<Rightarrow> Server \<Rightarrow> Msg \<Rightarrow> Config option option" where
  "route D s r =
     (let q = (case m_Question r of [] \<Rightarrow> '''' | q # _ \<Rightarrow> ToLower (q_Name q)); is_DS = (req_QType r = TypeDS) in
      case scan_labels D s r is_DS q (length q + 1) 0 None of
        None \<Rightarrow> None
      | Some (Serve h) \<Rightarrow> Some (Some h)
      | Some No_plugins \<Rightarrow> Some None
      | Some (Search_on dshandler) \<Rightarrow>
          if is_DS \<and> dshandler \<noteq> None then Some dshandler
          else Some (case map_of (s_zones s) ''.'' of Some z \<Rightarrow> scan_root r z | None \<Rightarrow> None))"

text \<open>The messages that a chain wrote go through the scrubbing writer, which may touch the request.\<close>

fun write_all :: "dnslib \<Rightarrow> u16 list \<Rightarrow> client \<Rightarrow> Msg \<Rightarrow> Msg list \<Rightarrow> Msg \<times> Msg list" where
  "write_all D extra c r [] = (r, [])"
| "write_all D extra c r (m # ms) =
     (let (r1, out) = Scrub_WriteMsg D extra c r m; (r2, outs) = write_all D extra c r1 ms in (r2, out # outs))"

definition write_error :: "dnslib \<Rightarrow> u16 list \<Rightarrow> client \<Rightarrow> Msg \<Rightarrow> nat \<Rightarrow> Msg" where
  "write_error D extra c r rc = (let (r', answer) = errorFunc D extra r rc in snd (Scrub_WriteMsg D extra c r' answer))"

text \<open>What the client gets. \<open>None\<close> is a panic that ends the process, which happens in debug mode only.\<close>

definition run_chain :: "dnslib \<Rightarrow> Server \<Rightarrow> client \<Rightarrow> (Msg \<Rightarrow> outcome) \<Rightarrow> Msg \<Rightarrow> Msg list option" where
  "run_chain D s c chain r =
     (case chain r of
        Returned rcode ws \<Rightarrow>
          (let (r', out) = write_all D (s_options s) c r ws
           in Some (if \<not> ClientWrite rcode then out @ [write_error D (s_options s) c r' rcode] else out))
      | Panicked ws \<Rightarrow>
          (let (r', out) = write_all D (s_options s) c r ws
           in if s_debug s then None else Some (out @ [write_error D (s_options s) c r' RcodeServerFailure])))"

definition Server_ServeDNS :: "dnslib \<Rightarrow> Server \<Rightarrow> client \<Rightarrow> Msg \<Rightarrow> Msg list option" where
  "Server_ServeDNS D s c r =
     (if m_Question r = [] then Some [snd (errorFunc D (s_options s) r RcodeServerFailure)]
      else if \<not> s_classChaos s \<and> req_QClass r \<noteq> ClassINET then Some [snd (errorFunc D (s_options s) r RcodeRefused)]
      else
        (case edns_Version D r of
           Some m \<Rightarrow> Some [m]
         | None \<Rightarrow>
             (case route D s r of
                None \<Rightarrow> None
              | Some None \<Rightarrow> Some [write_error D (s_options s) c r RcodeRefused]
              | Some (Some h) \<Rightarrow>
                  (case cf_pluginChain h of
                     None \<Rightarrow> None
                   | Some chain \<Rightarrow> run_chain D s c chain r))))"

section \<open>Routing\<close>

definition scan_zone :: "Server \<Rightarrow> Msg \<Rightarrow> bool \<Rightarrow> string \<Rightarrow> Config option \<Rightarrow> pick" where
  "scan_zone s r is_DS zone dsh =
     (case map_of (s_zones s) zone of None \<Rightarrow> Search_on dsh | Some z \<Rightarrow> scan_configs r is_DS z dsh)"

lemma scan_labels_Suc:
  "scan_labels D s r is_DS q (Suc k) off dsh =
     (case scan_zone s r is_DS (drop off q) dsh of
        Search_on d \<Rightarrow> (case NextLabel D q off of (off', end') \<Rightarrow>
          if end' then Some (Search_on d) else scan_labels D s r is_DS q k off' d)
      | p \<Rightarrow> Some p)"
  by (simp add: scan_zone_def split: option.split)

declare scan_labels.simps(2) [simp del]

lemma scan_labels_ends:
  assumes "NextLabel_ok D"
  shows "length q < k + off \<Longrightarrow> off \<le> length q \<Longrightarrow> scan_labels D s r is_DS q k off dsh \<noteq> None"
proof (induction k arbitrary: off dsh)
  case (Suc k)
  obtain off' end' where nl: "NextLabel D q off = (off', end')" by (cases "NextLabel D q off")
  have "scan_labels D s r is_DS q k off' d \<noteq> None" if "\<not> end'" for d
  proof -
    have "off < off'" "off' < length q" using assms nl that unfolding NextLabel_ok_def by (metis fst_conv snd_conv)+
    then show ?thesis using Suc.IH [of off' d] Suc.prems(1) by simp
  qed
  then show ?case using nl by (simp add: scan_labels_Suc split: pick.split)
qed simp

lemma scan_configs_chain:
  "scan_configs r is_DS hs dsh = Serve h \<Longrightarrow> h \<in> set hs \<and> cf_pluginChain h \<noteq> None"
  "scan_configs r is_DS hs dsh = Search_on (Some h) \<Longrightarrow> dsh = Some h \<or> h \<in> set hs \<and> cf_pluginChain h \<noteq> None"
  by (induction hs arbitrary: dsh) (auto split: if_splits)

lemma scan_root_chain: "scan_root r hs = Some h \<Longrightarrow> h \<in> set hs \<and> cf_pluginChain h \<noteq> None"
  by (induction hs) (auto split: if_splits)

definition configs :: "Server \<Rightarrow> Config set" where
  "configs s = (\<Union>hs \<in> snd ` set (s_zones s). set hs)"

lemma in_configs: "map_of (s_zones s) z = Some hs \<Longrightarrow> h \<in> set hs \<Longrightarrow> h \<in> configs s"
  by (force simp: configs_def dest: map_of_SomeD)


lemma scan_zone_chain:
  "scan_zone s r is_DS zone dsh = Serve h \<Longrightarrow> h \<in> configs s \<and> cf_pluginChain h \<noteq> None"
  "scan_zone s r is_DS zone dsh = Search_on (Some h) \<Longrightarrow> dsh = Some h \<or> h \<in> configs s \<and> cf_pluginChain h \<noteq> None"
  using scan_configs_chain [of r is_DS _ dsh h] in_configs [of s zone]
  by (cases "map_of (s_zones s) zone"; fastforce simp: scan_zone_def)+

lemma scan_labels_chain:
  "scan_labels D s r is_DS q k off dsh = Some p \<Longrightarrow> p = Serve h \<or> p = Search_on (Some h) \<and> dsh \<noteq> Some h \<Longrightarrow>
     h \<in> configs s \<and> cf_pluginChain h \<noteq> None"
proof (induction k arbitrary: off dsh)
  case (Suc k)
  show ?case
  proof (cases "scan_zone s r is_DS (drop off q) dsh")
    case (Search_on d)
    obtain off' end' where nl: "NextLabel D q off = (off', end')" by (cases "NextLabel D q off")
    show ?thesis
    proof (cases "d = Some h \<and> dsh \<noteq> Some h")
      case True
      then show ?thesis using scan_zone_chain(2) Search_on by blast
    next
      case False
      then show ?thesis using Search_on Suc.prems Suc.IH [of off' d] nl by (auto simp: scan_labels_Suc split: if_splits)
    qed
  qed (use Suc.prems scan_zone_chain(1) in \<open>auto simp: scan_labels_Suc\<close>)
qed simp

lemma route_ok:
  assumes "NextLabel_ok D"
  shows "\<exists>res. route D s r = Some res \<and> (\<forall>h. res = Some h \<longrightarrow> h \<in> configs s \<and> cf_pluginChain h \<noteq> None)"
proof -
  let ?q = "case m_Question r of [] \<Rightarrow> '''' | q # _ \<Rightarrow> ToLower (q_Name q)" and ?ds = "req_QType r = TypeDS"
  obtain p where p: "scan_labels D s r ?ds ?q (length ?q + 1) 0 None = Some p"
    using scan_labels_ends [OF assms, of ?q "length ?q + 1" 0 s r ?ds None] by auto
  have root: "h \<in> configs s \<and> cf_pluginChain h \<noteq> None"
    if "(case map_of (s_zones s) ''.'' of Some z \<Rightarrow> scan_root r z | None \<Rightarrow> None) = Some h" for h
    using that scan_root_chain in_configs by (cases "map_of (s_zones s) ''.''") fastforce+
  show ?thesis
  proof (cases p)
    case (Serve h)
    then show ?thesis using p scan_labels_chain [OF p, of h] by (simp add: route_def)
  next
    case No_plugins
    then show ?thesis using p by (simp add: route_def)
  next
    case (Search_on dsh)
    then have "route D s r = Some (if ?ds \<and> dsh \<noteq> None then dsh
        else case map_of (s_zones s) ''.'' of Some z \<Rightarrow> scan_root r z | None \<Rightarrow> None)"
      using p by (auto simp: route_def)
    then show ?thesis using Search_on root scan_labels_chain [OF p] by (auto split: if_splits)
  qed
qed

section \<open>One reply\<close>

text \<open>The contract of a chain: it writes once or not at all, as its code says, and only replies to the request.\<close>

definition chain_ok :: "(Msg \<Rightarrow> outcome) \<Rightarrow> Msg \<Rightarrow> bool" where
  "chain_ok chain r \<longleftrightarrow>
     (case chain r of
        Returned rcode ws \<Rightarrow> length ws = (if ClientWrite rcode then 1 else 0) \<and> (\<forall>m \<in> set ws. reply_to r m)
      | Panicked ws \<Rightarrow> ws = [])"

lemma chain_ok_handler: "obeys_protocol r (h r) \<Longrightarrow> chain_ok (outcome_of h) r"
  by (auto simp: obeys_protocol_def chain_ok_def outcome_of_def)

lemma errorFunc_reply:
  assumes "SetRcode_ok D"
  shows "reply_to r (snd (errorFunc D extra r rc))" "m_Id (fst (errorFunc D extra r rc)) = m_Id r"
    "m_Rcode (snd (errorFunc D extra r rc)) = rc"
proof -
  obtain found r' m where sd: "SizeAndDo D extra r (SetRcode D r rc) = (found, r', m)"
    by (cases "SizeAndDo D extra r (SetRcode D r rc)")
  have "m_Response (SetRcode D r rc)" "m_Id (SetRcode D r rc) = m_Id r" "m_Rcode (SetRcode D r rc) = rc"
    "m_Question (SetRcode D r rc) = take 1 (m_Question r)"
    using assms by (simp_all add: SetRcode_ok_def)
  then show "reply_to r (snd (errorFunc D extra r rc))" "m_Id (fst (errorFunc D extra r rc)) = m_Id r"
    "m_Rcode (snd (errorFunc D extra r rc)) = rc"
    using SizeAndDo_header [OF sd] by (simp_all add: errorFunc_def sd reply_to_def)
qed

lemma write_error_reply:
  assumes "SetRcode_ok D" and "Truncate_ok D"
  shows "reply_to r (write_error D extra c r rc)" "m_Rcode (write_error D extra c r rc) = rc"
proof -
  obtain r' answer where e: "errorFunc D extra r rc = (r', answer)" by (cases "errorFunc D extra r rc")
  obtain r2 m2 where w: "Scrub_WriteMsg D extra c r' answer = (r2, m2)" by (cases "Scrub_WriteMsg D extra c r' answer")
  show "reply_to r (write_error D extra c r rc)" "m_Rcode (write_error D extra c r rc) = rc"
    using errorFunc_reply [OF assms(1), where r = r and extra = extra and rc = rc] Scrub_WriteMsg_header [OF assms(2) w]
    by (simp_all add: e w write_error_def reply_to_def)
qed

lemma run_chain_once:
  assumes "SetRcode_ok D" and "Truncate_ok D" and "chain_ok chain r" and "\<not> s_debug s"
  shows "\<exists>m. run_chain D s c chain r = Some [m] \<and> reply_to r m"
proof -
  have ok: "case chain r of
        Returned rcode ws \<Rightarrow> length ws = (if ClientWrite rcode then 1 else 0) \<and> (\<forall>m \<in> set ws. reply_to r m)
      | Panicked ws \<Rightarrow> ws = []" using assms(3) unfolding chain_ok_def .
  show ?thesis
  proof (cases "chain r")
    case (Panicked ws)
    then have "ws = []" using ok by simp
    then show ?thesis using Panicked assms(4) write_error_reply(1) [OF assms(1,2)] by (simp add: run_chain_def)
  next
    case (Returned rcode ws)
    then have len: "length ws = (if ClientWrite rcode then 1 else 0)" and rep: "\<forall>m \<in> set ws. reply_to r m"
      using ok by simp_all
    show ?thesis
    proof (cases "ClientWrite rcode")
      case False
      then show ?thesis using Returned len write_error_reply(1) [OF assms(1,2)] by (simp add: run_chain_def)
    next
      case True
      then obtain m where ws: "ws = [m]" using len by (cases ws) auto
      obtain r' out where w: "Scrub_WriteMsg D (s_options s) c r m = (r', out)" by (cases "Scrub_WriteMsg D (s_options s) c r m")
      then have "reply_to r out" using rep ws Scrub_WriteMsg_header [OF assms(2) w] by (simp add: reply_to_def)
      then show ?thesis using Returned True ws w by (simp add: run_chain_def)
    qed
qed
qed

lemma Server_once:
  assumes "NextLabel_ok D" and "SetReply_ok D" and "SetRcode_ok D" and "Truncate_ok D"
    and "\<forall>h \<in> configs s. \<forall>chain. cf_pluginChain h = Some chain \<longrightarrow> chain_ok chain r" and "\<not> s_debug s"
  shows "\<exists>m. Server_ServeDNS D s c r = Some [m] \<and> m_Response m \<and> m_Id m = m_Id r"
proof -
  obtain res where route: "route D s r = Some res" "\<And>h. res = Some h \<Longrightarrow> h \<in> configs s \<and> cf_pluginChain h \<noteq> None"
    using route_ok [OF assms(1)] by blast
  have vers: "reply_to r m" if "edns_Version D r = Some m" for m
    using that assms(2) by (auto simp: edns_Version_def Let_def SetReply_ok_def reply_to_def split: option.splits if_splits)
  have "\<exists>m. Server_ServeDNS D s c r = Some [m] \<and> reply_to r m"
  proof (cases "m_Question r = [] \<or> \<not> s_classChaos s \<and> req_QClass r \<noteq> ClassINET \<or> edns_Version D r \<noteq> None")
    case True
    then have "(\<exists>rc. Server_ServeDNS D s c r = Some [snd (errorFunc D (s_options s) r rc)])
      \<or> (\<exists>m. Server_ServeDNS D s c r = Some [m] \<and> edns_Version D r = Some m)"
      by (auto simp: Server_ServeDNS_def)
    then show ?thesis using errorFunc_reply(1) [OF assms(3)] vers by blast
  next
    case False
    then have "Server_ServeDNS D s c r = (case res of None \<Rightarrow> Some [write_error D (s_options s) c r RcodeRefused]
        | Some h \<Rightarrow> (case cf_pluginChain h of None \<Rightarrow> None | Some chain \<Rightarrow> run_chain D s c chain r))"
      using route(1) by (auto simp: Server_ServeDNS_def split: option.split)
    moreover have "\<exists>chain m. cf_pluginChain h = Some chain \<and> run_chain D s c chain r = Some [m] \<and> reply_to r m" if "res = Some h" for h
    proof -
      note h = route(2) [OF that]
      then obtain chain where chain: "cf_pluginChain h = Some chain" by blast
      then have "chain_ok chain r" using assms(5) h by blast
      from run_chain_once [OF assms(3,4) this assms(6), of c] chain show ?thesis by blast
    qed
    ultimately show ?thesis using write_error_reply(1) [OF assms(3,4)] by (cases res) auto
  qed
  then show ?thesis by (auto simp: reply_to_def)
qed



definition ex_config :: "string \<Rightarrow> nat \<Rightarrow> Config" where
  "ex_config zone rc =
     \<lparr>cf_Zone = zone,
      cf_pluginChain = Some (\<lambda>r. if rc = RcodeSuccess then Returned rc [SetReply plain_lib r]
        else if rc = RcodeRefused then Returned rc [] else Panicked []),
      cf_FilterFuncs = []\<rparr>"

definition ex_server :: Server where
  "ex_server =
     \<lparr>s_zones = [(''example.org.'', [ex_config ''example.org.'' RcodeRefused]), (''org.'', [ex_config ''org.'' RcodeServerFailure]),
        (''.'', [ex_config ''.'' RcodeSuccess])], s_debug = False, s_classChaos = False, s_options = []\<rparr>"

lemma ex_server_chains: "\<forall>h \<in> configs ex_server. \<forall>chain. cf_pluginChain h = Some chain \<longrightarrow> chain_ok chain r"
  by (auto simp: configs_def ex_server_def ex_config_def chain_ok_def ClientWrite_def rcodes plain_lib_def plain_reply_def new_Msg_def
      reply_to_def)


section \<open>The most specific zone\<close>

text \<open>The offsets at which the labels of a name start.\<close>

fun label_starts :: "dnslib \<Rightarrow> string \<Rightarrow> nat \<Rightarrow> nat \<Rightarrow> nat list" where
  "label_starts D q 0 off = []"
| "label_starts D q (Suc k) off = off # (case NextLabel D q off of (off', end') \<Rightarrow> if end' then [] else label_starts D q k off')"

definition passing :: "Server \<Rightarrow> Msg \<Rightarrow> string \<Rightarrow> Config option" where
  "passing s r zone =
     (case map_of (s_zones s) zone of None \<Rightarrow> None | Some hs \<Rightarrow> find (\<lambda>h. passAllFilterFuncs (cf_FilterFuncs h) r) hs)"

definition first_passing :: "Server \<Rightarrow> Msg \<Rightarrow> string list \<Rightarrow> Config option" where
  "first_passing s r zones = (case List.map_filter (passing s r) zones of [] \<Rightarrow> None | h # _ \<Rightarrow> Some h)"

lemma first_passing_Cons:
  "first_passing s r (z # zs) = (case passing s r z of Some h \<Rightarrow> Some h | None \<Rightarrow> first_passing s r zs)"
  by (simp add: first_passing_def map_filter_simps split: option.split)

lemma scan_configs_find:
  "\<forall>h \<in> set hs. cf_pluginChain h \<noteq> None \<Longrightarrow>
    scan_configs r False hs dsh = (case find (\<lambda>h. passAllFilterFuncs (cf_FilterFuncs h) r) hs of Some h \<Rightarrow> Serve h | None \<Rightarrow> Search_on dsh)"
  by (induction hs) auto

lemma scan_root_find:
  "\<forall>h \<in> set hs. cf_pluginChain h \<noteq> None \<Longrightarrow> scan_root r hs = find (\<lambda>h. passAllFilterFuncs (cf_FilterFuncs h) r) hs"
  by (induction hs) auto

lemma scan_zone_passing:
  assumes "\<forall>h \<in> configs s. cf_pluginChain h \<noteq> None"
  shows "scan_zone s r False zone dsh = (case passing s r zone of Some h \<Rightarrow> Serve h | None \<Rightarrow> Search_on dsh)"
proof (cases "map_of (s_zones s) zone")
  case (Some hs)
  then have "\<forall>h \<in> set hs. cf_pluginChain h \<noteq> None" using assms in_configs by blast
  then show ?thesis using Some by (simp add: scan_zone_def passing_def scan_configs_find)
qed (simp add: scan_zone_def passing_def)

lemma scan_labels_first:
  assumes "NextLabel_ok D" and "\<forall>h \<in> configs s. cf_pluginChain h \<noteq> None"
  shows "length q < k + off \<Longrightarrow> off \<le> length q \<Longrightarrow>
    scan_labels D s r False q k off None =
      Some (case first_passing s r (map (\<lambda>i. drop i q) (label_starts D q k off)) of Some h \<Rightarrow> Serve h | None \<Rightarrow> Search_on None)"
proof (induction k arbitrary: off)
  case (Suc k)
  obtain off' end' where nl: "NextLabel D q off = (off', end')" by (cases "NextLabel D q off")
  have "off < off' \<and> off' < length q" if "\<not> end'"
    using assms(1) nl that unfolding NextLabel_ok_def by (metis fst_conv snd_conv)
  then have "scan_labels D s r False q k off' None =
      Some (case first_passing s r (map (\<lambda>i. drop i q) (label_starts D q k off')) of Some h \<Rightarrow> Serve h | None \<Rightarrow> Search_on None)" if "\<not> end'"
    using Suc.IH [of off'] Suc.prems that by simp
  then show ?case using nl
    by (cases "passing s r (drop off q)")
      (auto simp: scan_labels_Suc scan_zone_passing [OF assms(2)] first_passing_Cons, simp add: first_passing_def map_filter_simps)
qed simp

text \<open>C40: The most specific zone serves a request. For a question other than for a DS record, and when every configuration has
  plugins, the configuration that serves is the first whose filters pass, over the suffixes of the
  name from the longest to the shortest and then the root zone; the request is refused if there is none.\<close>

theorem most_specific_zone_serves:
  assumes "NextLabel_ok D" and "\<forall>h \<in> configs s. cf_pluginChain h \<noteq> None"
    and "m_Question r = q # qs" and "q_Type q \<noteq> TypeDS"
  shows "route D s r =
    Some (first_passing s r (map (\<lambda>i. drop i (ToLower (q_Name q))) (label_starts D (ToLower (q_Name q)) (length (q_Name q) + 1) 0) @ [''.'']))"
proof -
  let ?n = "ToLower (q_Name q)"
  let ?first = "first_passing s r (map (\<lambda>i. drop i ?n) (label_starts D ?n (length ?n + 1) 0))"
  have scan: "scan_labels D s r False ?n (length ?n + 1) 0 None = Some (case ?first of Some h \<Rightarrow> Serve h | None \<Rightarrow> Search_on None)"
    by (rule scan_labels_first [OF assms(1,2)]) simp_all
  have root: "(case map_of (s_zones s) ''.'' of Some z \<Rightarrow> scan_root r z | None \<Rightarrow> None) = passing s r ''.''"
    using assms(2) in_configs scan_root_find by (cases "map_of (s_zones s) ''.''") (fastforce simp: passing_def)+
  have app: "first_passing s r (zs @ [z]) = (case first_passing s r zs of Some h \<Rightarrow> Some h | None \<Rightarrow> passing s r z)" for zs z
    by (induction zs) (simp_all add: first_passing_Cons split: option.split, simp add: first_passing_def map_filter_simps)
  have "route D s r = Some (case ?first of Some h \<Rightarrow> Some h | None \<Rightarrow> passing s r ''.'')"
    unfolding root [symmetric] using scan assms(3,4) by (simp add: route_def req_QType_def split: option.splits)
  then show ?thesis unfolding app by simp
qed

theorem most_specific_zone_serves_witness:
  "map_option (map_option cf_Zone) (route plain_lib ex_server
      (new_Msg\<lparr>m_Question := [\<lparr>q_Name = ''a.example.ORG.'', q_Type = TypeA, q_Class = 1\<rparr>]\<rparr>)) = Some (Some ''example.org.'')"
proof -
  let ?q = "\<lparr>q_Name = ''a.example.ORG.'', q_Type = TypeA, q_Class = 1\<rparr>"
  have chains: "\<forall>h \<in> configs ex_server. cf_pluginChain h \<noteq> None"
    by (simp add: configs_def ex_server_def ex_config_def)
  have q: "m_Question (new_Msg\<lparr>m_Question := [?q]\<rparr>) = [?q]" "q_Type ?q \<noteq> TypeDS" by (simp_all add: TypeA_def TypeDS_def)
  show ?thesis unfolding most_specific_zone_serves [OF plain_NextLabel_ok chains q] by code_simp
qed

end
