(* ===== verification/DNS_Response.thy ===== *)
theory DNS_Response
  imports DNS_Lib
begin

text \<open>
  What kind of reply a message is: \<^verbatim>\<open>plugin/pkg/response\<close>, and the time a message may be kept,
  \<^verbatim>\<open>plugin/pkg/dnsutil/ttl.go\<close>. The plugins \<^verbatim>\<open>minimal\<close> and \<^verbatim>\<open>cache\<close> rest on it.
\<close>

section \<open>Types and classes of replies\<close>

datatype resp_type = R_NoError | R_NameError | R_ServerError | R_NoData | R_Delegation | R_Meta | R_Update | R_OtherError

datatype resp_class = C_All | C_Success | C_Denial | C_Error

definition resp_types :: "(resp_type \<times> string) list" where
  "resp_types = [(R_NoError, ''NOERROR''), (R_NameError, ''NXDOMAIN''), (R_ServerError, ''SERVERERROR''), (R_NoData, ''NODATA''),
     (R_Delegation, ''DELEGATION''), (R_Meta, ''META''), (R_Update, ''UPDATE''), (R_OtherError, ''OTHERERROR'')]"

definition Type_String :: "resp_type \<Rightarrow> string" where
  "Type_String t = (case map_of resp_types t of Some s \<Rightarrow> s | None \<Rightarrow> '''')"

text \<open>The flag is set when there is an error.\<close>

definition TypeFromString :: "string \<Rightarrow> resp_type \<times> bool" where
  "TypeFromString s = (case find (\<lambda>(_, str). s = str) resp_types of Some (t, _) \<Rightarrow> (t, False) | None \<Rightarrow> (R_NoError, True))"

definition Class_String :: "resp_class \<Rightarrow> string" where
  "Class_String c = (case c of C_All \<Rightarrow> ''all'' | C_Success \<Rightarrow> ''success'' | C_Denial \<Rightarrow> ''denial'' | C_Error \<Rightarrow> ''error'')"

definition ClassFromString :: "string \<Rightarrow> resp_class \<times> bool" where
  "ClassFromString s =
     (if s = ''all'' then (C_All, False) else if s = ''success'' then (C_Success, False)
      else if s = ''denial'' then (C_Denial, False) else if s = ''error'' then (C_Error, False) else (C_All, True))"

definition OpcodeUpdate :: nat where "OpcodeUpdate = 5"

definition typifyExpiredRRSIG :: "dnslib \<Rightarrow> RR list \<Rightarrow> time \<Rightarrow> bool" where
  "typifyExpiredRRSIG D rrs t = list_ex (\<lambda>r. rr_Type r = TypeRRSIG \<and> \<not> ValidityPeriod D r t) rrs"

definition typifyExpired :: "dnslib \<Rightarrow> Msg \<Rightarrow> time \<Rightarrow> bool" where
  "typifyExpired D m t =
     (typifyExpiredRRSIG D (m_Answer m) t \<or> typifyExpiredRRSIG D (m_Ns m) t \<or> typifyExpiredRRSIG D (m_Extra m) t)"

definition Typify :: "dnslib \<Rightarrow> Msg option \<Rightarrow> time \<Rightarrow> resp_type" where
  "Typify D msg t =
     (case msg of
        None \<Rightarrow> R_OtherError
      | Some m \<Rightarrow>
          let soa = list_ex (\<lambda>r. rr_Type r = TypeSOA) (m_Ns m); ns = list_ex (\<lambda>r. rr_Type r = TypeNS) (m_Ns m) in
          if m_Opcode m = OpcodeUpdate then R_Update
          else if m_Opcode m = OpcodeNotify then R_Meta
          else if m_Question m \<noteq> [] \<and> q_Type (hd (m_Question m)) \<in> {TypeAXFR, TypeIXFR} then R_Meta
          else if req_Do D m \<and> typifyExpired D m t then R_OtherError
          else if m_Answer m \<noteq> [] \<and> m_Rcode m = RcodeSuccess then R_NoError
          else if soa \<and> m_Rcode m = RcodeSuccess then R_NoData
          else if soa \<and> m_Rcode m = RcodeNameError then R_NameError
          else if m_Rcode m = RcodeServerFailure \<or> m_Rcode m = RcodeNotImplemented then R_ServerError
          else if ns \<and> m_Rcode m = RcodeSuccess then R_Delegation
          else if m_Rcode m = RcodeSuccess then R_NoError
          else R_OtherError)"

definition Classify :: "resp_type \<Rightarrow> resp_class" where
  "Classify t =
     (if t \<in> {R_NoError, R_Delegation} then C_Success else if t \<in> {R_NameError, R_NoData} then C_Denial else C_Error)"

section \<open>How long a reply may be kept\<close>

text \<open>
  \<^verbatim>\<open>Duration.Seconds\<close>, cut to an integer. The floating point number in between is exact enough for every
  duration below \<open>2\<^sup>2\<^sup>4\<close> seconds.
\<close>

definition secs :: "duration \<Rightarrow> int" where
  "secs d = (if 0 \<le> d then d div second else - ((- d) div second))"

definition MinimalDefaultTTL :: duration where "MinimalDefaultTTL = 5 * second"
definition MaximumDefaultTTL :: duration where "MaximumDefaultTTL = 3600 * second"

fun lowest_ttl :: "duration \<Rightarrow> RR list \<Rightarrow> duration" where
  "lowest_ttl minTTL [] = minTTL"
| "lowest_ttl minTTL (r # rs) =
     lowest_ttl (if rr_Ttl r < of_int (secs minTTL) then uint (rr_Ttl r) * second else minTTL) rs"

definition MinimalTTL :: "Msg \<Rightarrow> resp_type \<Rightarrow> duration" where
  "MinimalTTL m mt =
     (if mt \<noteq> R_NoError \<and> mt \<noteq> R_NameError \<and> mt \<noteq> R_NoData then MinimalDefaultTTL
      else if length (m_Answer m) + length (m_Ns m) = 0
           \<and> (m_Extra m = [] \<or> length (m_Extra m) = 1 \<and> rr_Type (hd (m_Extra m)) = TypeOPT) then MinimalDefaultTTL
      else
        lowest_ttl (lowest_ttl (lowest_ttl MaximumDefaultTTL (m_Answer m)) (m_Ns m)) (filter (\<lambda>r. rr_Type r \<noteq> TypeOPT) (m_Extra m)))"

lemma secs_mult [simp]: "secs (n * second) = n"
proof (cases "0 \<le> n")
  case False
  then have "secs (n * second) = - ((- n * second) div second)" by (simp add: secs_def second_def)
  then show ?thesis by (simp add: second_def)
qed (simp add: secs_def second_def)

lemma Type_from_to: "TypeFromString (Type_String t) = (t, False)"
  by (cases t) (simp_all add: TypeFromString_def Type_String_def resp_types_def)

lemma Class_from_to: "ClassFromString (Class_String c) = (c, False)"
  by (cases c) (simp_all add: ClassFromString_def Class_String_def)

text \<open>The lowest TTL is no more than that of any record, nor than the bound it starts from.\<close>

lemma lowest_ttl_spec:
  assumes "0 \<le> k" and "k < 2 ^ 32"
  shows "\<exists>n. lowest_ttl (k * second) rs = n * second \<and> 0 \<le> n \<and> n \<le> k \<and> (\<forall>r \<in> set rs. n \<le> uint (rr_Ttl r))"
  using assms
proof (induction rs arbitrary: k)
  case (Cons r rs)
  have lt: "rr_Ttl r < of_int (secs (k * second)) \<longleftrightarrow> uint (rr_Ttl r) < k"
    using Cons.prems by (simp add: word_less_def uint_word_of_int)
  have "\<exists>n. lowest_ttl (min k (uint (rr_Ttl r)) * second) rs = n * second \<and> 0 \<le> n \<and> n \<le> min k (uint (rr_Ttl r))
      \<and> (\<forall>r \<in> set rs. n \<le> uint (rr_Ttl r))"
    using Cons.prems by (intro Cons.IH) auto
  moreover have "lowest_ttl (k * second) (r # rs) = lowest_ttl (min k (uint (rr_Ttl r)) * second) rs"
    using lt by (simp add: min_def)
  ultimately show ?case by auto
qed auto

end
