(* ===== verification/Sharded_Cache.thy ===== *)
theory Sharded_Cache
  imports Prelude
begin

unbundle bit_operations_syntax

text \<open>
  The bounded map of \<^verbatim>\<open>plugin/pkg/cache/cache.go\<close>: 256 shards, each a map of limited size that drops an
  arbitrary entry to make room; and the hash FNV-1 of \<^verbatim>\<open>hash/fnv\<close>, which makes its keys.

  The entry to drop is the first that \<^verbatim>\<open>range\<close> visits; its position is an argument. Operations hold the lock of
  a shard, so they are atomic. The locale \<open>lossy_map\<close> is what the users of the cache rely on.
\<close>

section \<open>Model\<close>

definition fnv_offset :: u64 where "fnv_offset = 14695981039346656037"
definition fnv_prime :: u64 where "fnv_prime = 1099511628211"

definition fnv_write :: "u64 \<Rightarrow> string \<Rightarrow> u64" where
  "fnv_write h what = foldl (\<lambda>h c. (h * fnv_prime) XOR of_char c) h what"

definition Hash :: "string \<Rightarrow> u64" where
  "Hash what = fnv_write fnv_offset what"

definition shardSize :: nat where "shardSize = 256"

record 'a shard =
  sh_items :: "(u64, 'a) gomap"
  sh_size :: int

type_synonym 'a Cache = "'a shard list"

definition newShard :: "int \<Rightarrow> 'a shard" where
  "newShard sz = \<lparr>sh_items = [], sh_size = sz\<rparr>"

definition Cache_New :: "int \<Rightarrow> 'a Cache" where
  "Cache_New sz = replicate shardSize (newShard (max (sz div int shardSize) 4))"

text \<open>Dropping the entry that \<^verbatim>\<open>range\<close> visits first, if there is one.\<close>

definition shard_Evict :: "nat \<Rightarrow> 'a shard \<Rightarrow> 'a shard" where
  "shard_Evict n s =
     (case sh_items s of
        [] \<Rightarrow> s
      | items \<Rightarrow> s\<lparr>sh_items := map_del (fst (items ! (n mod length items))) items\<rparr>)"

definition shard_Add :: "nat \<Rightarrow> u64 \<Rightarrow> 'a \<Rightarrow> 'a shard \<Rightarrow> 'a shard \<times> bool" where
  "shard_Add n key el s =
     (let full = int (length (sh_items s)) \<ge> sh_size s \<and> map_of (sh_items s) key = None;
          eviction = (full \<and> sh_items s \<noteq> []);
          s = (if full then shard_Evict n s else s)
      in (s\<lparr>sh_items := map_put key el (sh_items s)\<rparr>, eviction))"

definition shard_Remove :: "u64 \<Rightarrow> 'a shard \<Rightarrow> 'a shard" where
  "shard_Remove key s = s\<lparr>sh_items := map_del key (sh_items s)\<rparr>"

definition shard_Get :: "u64 \<Rightarrow> 'a shard \<Rightarrow> 'a option" where
  "shard_Get key s = map_of (sh_items s) key"

definition shard_of :: "u64 \<Rightarrow> nat" where
  "shard_of key = unat (key AND (of_nat shardSize - 1))"

definition Cache_Add :: "nat \<Rightarrow> u64 \<Rightarrow> 'a \<Rightarrow> 'a Cache \<Rightarrow> 'a Cache \<times> bool" where
  "Cache_Add n key el c =
     (let i = shard_of key; (s, eviction) = shard_Add n key el (c ! i) in (c[i := s], eviction))"

definition Cache_Get :: "u64 \<Rightarrow> 'a Cache \<Rightarrow> 'a option" where
  "Cache_Get key c = shard_Get key (c ! shard_of key)"

definition Cache_Remove :: "u64 \<Rightarrow> 'a Cache \<Rightarrow> 'a Cache" where
  "Cache_Remove key c = c[shard_of key := shard_Remove key (c ! shard_of key)]"

definition Cache_Len :: "'a Cache \<Rightarrow> nat" where
  "Cache_Len c = (\<Sum>s\<leftarrow>c. length (sh_items s))"

text \<open>
  A walk takes the keys of a shard first and then calls the function for each, which may change the map and
  may end the walk of the shard.
\<close>

fun walk_keys :: "((u64, 'a) gomap \<Rightarrow> u64 \<Rightarrow> (u64, 'a) gomap \<times> bool) \<Rightarrow> u64 list \<Rightarrow> (u64, 'a) gomap \<Rightarrow> (u64, 'a) gomap" where
  "walk_keys f [] items = items"
| "walk_keys f (k # ks) items = (case f items k of (items', go_on) \<Rightarrow> if go_on then walk_keys f ks items' else items')"

definition shard_Walk :: "((u64, 'a) gomap \<Rightarrow> u64 \<Rightarrow> (u64, 'a) gomap \<times> bool) \<Rightarrow> 'a shard \<Rightarrow> 'a shard" where
  "shard_Walk f s = s\<lparr>sh_items := walk_keys f (map fst (sh_items s)) (sh_items s)\<rparr>"

definition Cache_Walk :: "((u64, 'a) gomap \<Rightarrow> u64 \<Rightarrow> (u64, 'a) gomap \<times> bool) \<Rightarrow> 'a Cache \<Rightarrow> 'a Cache" where
  "Cache_Walk f c = map (shard_Walk f) c"

text \<open>Writing to an element through a pointer to it: the entry changes, no other is dropped.\<close>

definition Cache_Modify :: "u64 \<Rightarrow> ('a \<Rightarrow> 'a) \<Rightarrow> 'a Cache \<Rightarrow> 'a Cache" where
  "Cache_Modify key f c =
     c[shard_of key := (c ! shard_of key)\<lparr>sh_items := map (\<lambda>(k, v). (k, if k = key then f v else v)) (sh_items (c ! shard_of key))\<rparr>]"

section \<open>What users rely on\<close>

text \<open>
  A map that may lose entries: after an insertion the new entry is there, and every other entry is the one that was there or
  is gone.
\<close>

locale lossy_map =
  fixes get :: "'k \<Rightarrow> 'c \<Rightarrow> 'v option" and add :: "nat \<Rightarrow> 'k \<Rightarrow> 'v \<Rightarrow> 'c \<Rightarrow> 'c" and remove :: "'k \<Rightarrow> 'c \<Rightarrow> 'c"
    and ok :: "'c \<Rightarrow> bool"
  assumes get_add: "ok c \<Longrightarrow> get k (add n k v c) = Some v"
    and get_add_other: "ok c \<Longrightarrow> k' \<noteq> k \<Longrightarrow> get k' (add n k v c) = get k' c \<or> get k' (add n k v c) = None"
    and get_remove: "ok c \<Longrightarrow> get k' (remove k c) = (if k' = k then None else get k' c)"
    and ok_add: "ok c \<Longrightarrow> ok (add n k v c)"
    and ok_remove: "ok c \<Longrightarrow> ok (remove k c)"
begin

definition entries :: "('k \<Rightarrow> 'v \<Rightarrow> bool) \<Rightarrow> 'c \<Rightarrow> bool" where
  "entries P c \<longleftrightarrow> (\<forall>k v. get k c = Some v \<longrightarrow> P k v)"

lemma entries_get: "entries P c \<Longrightarrow> get k c = Some v \<Longrightarrow> P k v"
  by (simp add: entries_def)

lemma entries_add:
  assumes "ok c" and "entries P c" and "P k v"
  shows "entries P (add n k v c)"
  unfolding entries_def
proof (intro allI impI)
  fix k' v'
  assume got: "get k' (add n k v c) = Some v'"
  show "P k' v'"
  proof (cases "k' = k")
    case True
    then show ?thesis using got get_add [OF assms(1)] assms(3) by simp
  next
    case False
    then show ?thesis using got get_add_other [OF assms(1) False, of n v] assms(2) by (auto simp: entries_def)
  qed
qed

lemma entries_remove: "ok c \<Longrightarrow> entries P c \<Longrightarrow> entries P (remove k c)"
  by (simp add: entries_def get_remove)

end

section \<open>The invariant\<close>

definition shard_ok :: "nat \<Rightarrow> 'a shard \<Rightarrow> bool" where
  "shard_ok i s \<longleftrightarrow> map_ok (sh_items s) \<and> 4 \<le> sh_size s \<and> int (length (sh_items s)) \<le> sh_size s
     \<and> (\<forall>k v. map_of (sh_items s) k = Some v \<longrightarrow> shard_of k = i)"

definition cache_ok :: "'a Cache \<Rightarrow> bool" where
  "cache_ok c \<longleftrightarrow> length c = shardSize \<and> (\<forall>i < shardSize. shard_ok i (c ! i))"

lemma shard_of_less [simp]: "shard_of k < shardSize"
proof -
  have "(of_nat shardSize - 1 :: u64) = mask 8" by (simp add: shardSize_def mask_eq_exp_minus_1)
  then have "shard_of k = unat (take_bit 8 k)" by (simp add: shard_of_def take_bit_eq_mask)
  then show ?thesis using take_bit_nat_less_exp [of 8 "unat k"] by (simp add: shardSize_def unsigned_take_bit_eq)
qed
lemma shard_okI:
  "map_ok (sh_items s) \<Longrightarrow> 4 \<le> sh_size s \<Longrightarrow> int (length (sh_items s)) \<le> sh_size s \<Longrightarrow>
     (\<And>k v. map_of (sh_items s) k = Some v \<Longrightarrow> shard_of k = i) \<Longrightarrow> shard_ok i s"
  by (simp add: shard_ok_def)

lemma shard_okD:
  assumes "shard_ok i s"
  shows "map_ok (sh_items s)" and "4 \<le> sh_size s" and "int (length (sh_items s)) \<le> sh_size s"
    and "\<And>k v. map_of (sh_items s) k = Some v \<Longrightarrow> shard_of k = i"
  using assms unfolding shard_ok_def by blast+

lemma cache_shard: "cache_ok c \<Longrightarrow> shard_ok (shard_of k) (c ! shard_of k)" "cache_ok c \<Longrightarrow> shard_of k < length c"
  by (simp_all add: cache_ok_def)

lemma cache_ok_update: "cache_ok c \<Longrightarrow> shard_ok (shard_of k) s \<Longrightarrow> cache_ok (c[shard_of k := s])"
  unfolding cache_ok_def by (metis length_list_update nth_list_update_eq nth_list_update_neq)

lemma length_shard_Evict:
  assumes "map_ok (sh_items s)" and "sh_items s \<noteq> []"
  shows "Suc (length (sh_items (shard_Evict n s))) = length (sh_items s)"
proof -
  let ?k = "fst (sh_items s ! (n mod length (sh_items s)))"
  have "n mod length (sh_items s) < length (sh_items s)" using assms(2) by simp
  then have "?k \<in> fst ` set (sh_items s)" by simp
  then have "map_of (sh_items s) ?k \<noteq> None" by (simp add: map_of_eq_None_iff)
  from length_map_del [OF assms(1) this] show ?thesis
    using assms(2) by (cases "sh_items s") (simp_all add: shard_Evict_def)
qed

lemma shard_Evict_get: "map_of (sh_items (shard_Evict n s)) k = map_of (sh_items s) k \<or> map_of (sh_items (shard_Evict n s)) k = None"
  by (cases "sh_items s") (simp_all add: shard_Evict_def)

lemma shard_Evict_size [simp]: "sh_size (shard_Evict n s) = sh_size s"
  by (cases "sh_items s") (simp_all add: shard_Evict_def)

lemma shard_Evict_map_ok: "map_ok (sh_items s) \<Longrightarrow> map_ok (sh_items (shard_Evict n s))"
  by (cases "sh_items s") (simp_all add: shard_Evict_def del: length_Cons nth_Cons)

lemma shard_Add_ok:
  assumes "shard_ok i s" and "shard_of key = i"
  shows "shard_ok i (fst (shard_Add n key el s))"
proof -
  note s = shard_okD [OF assms(1)]
  let ?full = "int (length (sh_items s)) \<ge> sh_size s \<and> map_of (sh_items s) key = None"
  let ?s = "if ?full then shard_Evict n s else s"
  have res: "fst (shard_Add n key el s) = ?s\<lparr>sh_items := map_put key el (sh_items ?s)\<rparr>"
    by (simp add: shard_Add_def Let_def)
  have get: "map_of (sh_items ?s) k = Some v \<Longrightarrow> map_of (sh_items s) k = Some v" for k v
    using shard_Evict_get [of n s k] by (auto split: if_splits)
  show ?thesis
    unfolding res
  proof (rule shard_okI)
    show "map_ok (sh_items (?s\<lparr>sh_items := map_put key el (sh_items ?s)\<rparr>))" using s(1) by (simp add: shard_Evict_map_ok)
    show "4 \<le> sh_size (?s\<lparr>sh_items := map_put key el (sh_items ?s)\<rparr>)" using s(2) by simp
    show "int (length (sh_items (?s\<lparr>sh_items := map_put key el (sh_items ?s)\<rparr>))) \<le> sh_size (?s\<lparr>sh_items := map_put key el (sh_items ?s)\<rparr>)"
    proof (cases ?full)
      case True
      then have "sh_items s \<noteq> []" using s(2) by auto
      then have "Suc (length (sh_items ?s)) = length (sh_items s)" using True length_shard_Evict [OF s(1)] by simp
      then show ?thesis using s(3) by (auto simp: length_map_put)
    next
      case False
      then show ?thesis using s(3) by (auto simp: length_map_put)
    qed
    fix k v
    assume "map_of (sh_items (?s\<lparr>sh_items := map_put key el (sh_items ?s)\<rparr>)) k = Some v"
    then have "k = key \<or> map_of (sh_items ?s) k = Some v" by (cases "k = key") simp_all
    then show "shard_of k = i" using get s(4) assms(2) by blast
  qed
qed

lemma shard_Add_get:
  "map_of (sh_items (fst (shard_Add n key el s))) key = Some el"
  "k \<noteq> key \<Longrightarrow> map_of (sh_items (fst (shard_Add n key el s))) k = map_of (sh_items s) k
     \<or> map_of (sh_items (fst (shard_Add n key el s))) k = None"
  using shard_Evict_get [of n s k] by (auto simp: shard_Add_def Let_def)

lemma Cache_New_ok: "cache_ok (Cache_New sz)"
  by (auto simp: cache_ok_def Cache_New_def shard_ok_def newShard_def max_def)

lemma Cache_Add_ok: "cache_ok c \<Longrightarrow> cache_ok (fst (Cache_Add n key el c))"
  by (simp add: Cache_Add_def Let_def split_beta cache_ok_update shard_Add_ok cache_shard)

lemma Cache_Add_get:
  assumes "cache_ok c"
  shows "Cache_Get key (fst (Cache_Add n key el c)) = Some el"
    and "k \<noteq> key \<Longrightarrow> Cache_Get k (fst (Cache_Add n key el c)) = Cache_Get k c \<or> Cache_Get k (fst (Cache_Add n key el c)) = None"
proof -
  have len: "shard_of k' < length c" for k' using assms by (simp add: cache_ok_def)
  show "Cache_Get key (fst (Cache_Add n key el c)) = Some el"
    using len by (simp add: Cache_Get_def Cache_Add_def shard_Get_def Let_def split_beta shard_Add_get(1))
  assume "k \<noteq> key"
  then show "Cache_Get k (fst (Cache_Add n key el c)) = Cache_Get k c \<or> Cache_Get k (fst (Cache_Add n key el c)) = None"
    using len shard_Add_get(2) [of k key n el "c ! shard_of k"]
    by (cases "shard_of k = shard_of key") (simp_all add: Cache_Get_def Cache_Add_def shard_Get_def Let_def split_beta)
qed

lemma Cache_Remove_ok:
  assumes "cache_ok c"
  shows "cache_ok (Cache_Remove key c)"
  unfolding Cache_Remove_def
proof (rule cache_ok_update [OF assms], rule shard_okI)
  note s = shard_okD [OF cache_shard(1) [OF assms, of key]]
  let ?s = "c ! shard_of key"
  have "length (map_del key (sh_items ?s)) \<le> length (sh_items ?s)" by (simp add: map_del_def length_delete_le)
  then show "map_ok (sh_items (shard_Remove key ?s))" "4 \<le> sh_size (shard_Remove key ?s)"
    "int (length (sh_items (shard_Remove key ?s))) \<le> sh_size (shard_Remove key ?s)"
    using s(1-3) by (simp_all add: shard_Remove_def)
  fix k v
  assume "map_of (sh_items (shard_Remove key ?s)) k = Some v"
  then have "map_of (sh_items ?s) k = Some v" by (simp add: shard_Remove_def split: if_splits)
  then show "shard_of k = shard_of key" by (rule s(4))
qed

lemma Cache_Remove_get: "cache_ok c \<Longrightarrow> Cache_Get k (Cache_Remove key c) = (if k = key then None else Cache_Get k c)"
  by (cases "shard_of k = shard_of key")
    (auto simp: Cache_Get_def Cache_Remove_def shard_Get_def shard_Remove_def cache_ok_def)

interpretation sc: lossy_map Cache_Get "\<lambda>n k v c. fst (Cache_Add n k v c)" Cache_Remove cache_ok
  by unfold_locales (simp_all add: Cache_Add_get Cache_Remove_get Cache_Add_ok Cache_Remove_ok)

lemma map_of_modify: "map_of (map (\<lambda>(k, v). (k, if k = key then f v else v)) m) k = map_option (if k = key then f else id) (map_of m k)"
  by (induction m) auto

lemma keys_modify: "map fst (map (\<lambda>(k, v). (k, if k = key then f v else v)) m) = map fst m"
  by (induction m) auto

lemma Cache_Modify_ok:
  assumes "cache_ok c"
  shows "cache_ok (Cache_Modify key f c)"
  unfolding Cache_Modify_def
proof (rule cache_ok_update [OF assms], rule shard_okI)
  note s = shard_okD [OF cache_shard(1) [OF assms, of key]]
  let ?items = "map (\<lambda>(k, v). (k, if k = key then f v else v)) (sh_items (c ! shard_of key))"
  let ?s = "(c ! shard_of key)\<lparr>sh_items := ?items\<rparr>"
  show "map_ok (sh_items ?s)" using s(1) by (simp add: map_ok_def keys_modify del: map_map)
  show "4 \<le> sh_size ?s" "int (length (sh_items ?s)) \<le> sh_size ?s" using s(2,3) by simp_all
  fix k v
  assume "map_of (sh_items ?s) k = Some v"
  then have "\<exists>w. map_of (sh_items (c ! shard_of key)) k = Some w" by (auto simp: map_of_modify)
  then show "shard_of k = shard_of key" using s(4) by blast
qed

lemma Cache_Modify_get: "cache_ok c \<Longrightarrow> Cache_Get k (Cache_Modify key f c) = map_option (if k = key then f else id) (Cache_Get k c)"
  by (cases "shard_of k = shard_of key")
    (auto simp: Cache_Get_def Cache_Modify_def shard_Get_def cache_ok_def map_of_modify option.map_id)

lemma Cache_New_shards:
  "set (Cache_New sz) = {newShard (max (sz div 256) 4)}" "Cache_New sz ! shard_of k = newShard (max (sz div 256) 4)"
proof -
  have n: "int shardSize = 256" "shardSize \<noteq> 0" by (simp_all add: shardSize_def)
  show "set (Cache_New sz) = {newShard (max (sz div 256) 4)}" unfolding Cache_New_def n(1) by (simp add: set_replicate [OF n(2)])
  show "Cache_New sz ! shard_of k = newShard (max (sz div 256) 4)" unfolding Cache_New_def n(1) by (simp add: nth_replicate)
qed

section \<open>Properties\<close>

text \<open>The operations on a cache, and the caches that sequences of them reach.\<close>

datatype 'a cache_op = Op_Add nat u64 'a | Op_Remove u64

fun cache_do :: "'a cache_op \<Rightarrow> 'a Cache \<Rightarrow> 'a Cache" where
  "cache_do (Op_Add n k v) c = fst (Cache_Add n k v c)"
| "cache_do (Op_Remove k) c = Cache_Remove k c"

text \<open>The reference: what a map without a bound holds after the operations.\<close>

fun map_do :: "'a cache_op \<Rightarrow> (u64 \<rightharpoonup> 'a) \<Rightarrow> (u64 \<rightharpoonup> 'a)" where
  "map_do (Op_Add n k v) m = m(k \<mapsto> v)"
| "map_do (Op_Remove k) m = m(k := None)"

lemma cache_do_step:
  assumes "cache_ok c" and "(\<lambda>k. Cache_Get k c) \<subseteq>\<^sub>m m"
  shows "cache_ok (cache_do op c)" and "(\<lambda>k. Cache_Get k (cache_do op c)) \<subseteq>\<^sub>m map_do op m"
proof -
  show "cache_ok (cache_do op c)" using assms(1) by (cases op) (simp_all add: Cache_Add_ok Cache_Remove_ok)
  show "(\<lambda>k. Cache_Get k (cache_do op c)) \<subseteq>\<^sub>m map_do op m"
  proof (cases op)
    case (Op_Add n k v)
    show ?thesis
      unfolding map_le_def Op_Add
    proof (intro ballI)
      fix k'
      assume "k' \<in> dom (\<lambda>j. Cache_Get j (cache_do (Op_Add n k v) c))"
      then obtain v' where v': "Cache_Get k' (fst (Cache_Add n k v c)) = Some v'" by auto
      show "Cache_Get k' (cache_do (Op_Add n k v) c) = map_do (Op_Add n k v) m k'"
      proof (cases "k' = k")
        case True
        then show ?thesis using sc.get_add [OF assms(1)] by simp
      next
        case False
        then have "Cache_Get k' c = Some v'" using sc.get_add_other [OF assms(1) False, of n v] v' by simp
        then have "m k' = Some v'" using assms(2) by (auto simp: map_le_def dom_def)
        then show ?thesis using False v' by simp
      qed
    qed
  next
    case (Op_Remove k)
    then show ?thesis using assms by (auto simp: map_le_def dom_def Cache_Remove_get)
  qed
qed

lemma cache_sum_le: "(\<And>s. s \<in> set c \<Longrightarrow> int (length (sh_items s)) \<le> b) \<Longrightarrow> int (\<Sum>s\<leftarrow>c. length (sh_items s)) \<le> int (length c) * b"
proof (induction c)
  case (Cons s c)
  have "int (length (sh_items s)) \<le> b" "int (\<Sum>s\<leftarrow>c. length (sh_items s)) \<le> int (length c) * b" using Cons by simp_all
  then show ?case by (simp add: algebra_simps)
qed simp

lemma cache_len_le:
  assumes "cache_ok c" and "\<forall>s \<in> set c. sh_size s = b"
  shows "int (Cache_Len c) \<le> 256 * b"
proof -
  have "int (length (sh_items s)) \<le> b" if mem: "s \<in> set c" for s
  proof -
    obtain i where i: "i < length c" "c ! i = s" using mem unfolding in_set_conv_nth by blast
    have "\<forall>i < length c. shard_ok i (c ! i)" using assms(1) unfolding cache_ok_def by metis
    then have "shard_ok i s" using i by blast
    then have "int (length (sh_items s)) \<le> sh_size s" by (rule shard_okD(3))
    moreover have "sh_size s = b" using assms(2) mem by blast
    ultimately show ?thesis by simp
  qed
  then have "int (Cache_Len c) \<le> int (length c) * b" unfolding Cache_Len_def by (rule cache_sum_le)
  moreover have "length c = shardSize" using assms(1) by (simp add: cache_ok_def)
  ultimately show ?thesis by (simp add: shardSize_def)
qed

lemma cache_run:
  assumes "cache_ok c" and "(\<lambda>k. Cache_Get k c) \<subseteq>\<^sub>m m" and "\<forall>s \<in> set c. sh_size s = b"
  shows "cache_ok (fold cache_do ops c) \<and> (\<lambda>k. Cache_Get k (fold cache_do ops c)) \<subseteq>\<^sub>m fold map_do ops m
    \<and> (\<forall>s \<in> set (fold cache_do ops c). sh_size s = b)"
  using assms
proof (induction ops arbitrary: c m)
  case (Cons op ops)
  have i: "shard_of k < length c" for k using Cons.prems(1) by (simp add: cache_ok_def)
  then have at: "sh_size (c ! shard_of k) = b" for k using Cons.prems(3) by (simp add: all_set_conv_all_nth)
  have "\<forall>s \<in> set (cache_do op c). sh_size s = b"
  proof (cases op)
    case (Op_Add n k v)
    have "set (cache_do op c) \<subseteq> insert (fst (shard_Add n k v (c ! shard_of k))) (set c)"
      by (simp add: Op_Add Cache_Add_def Let_def split_beta set_update_subset_insert)
    moreover have "sh_size (fst (shard_Add n k v (c ! shard_of k))) = b" using at by (simp add: shard_Add_def Let_def)
    ultimately show ?thesis using Cons.prems(3) by blast
  next
    case (Op_Remove k)
    have "set (cache_do op c) \<subseteq> insert (shard_Remove k (c ! shard_of k)) (set c)"
      by (simp add: Op_Remove Cache_Remove_def set_update_subset_insert)
    moreover have "sh_size (shard_Remove k (c ! shard_of k)) = b" using at by (simp add: shard_Remove_def)
    ultimately show ?thesis using Cons.prems(3) by blast
  qed
  then show ?case using Cons.IH [OF cache_do_step [OF Cons.prems(1,2)]] by simp
qed simp

text \<open>C17: The cache is a map that may forget, within its bound. After any sequence of insertions and removals, whichever entries were
  dropped, what it holds under a key is what was last stored there and not removed since; and it never holds more than
  256 times the size of a shard, which is the 256th part of the capacity or four.\<close>

theorem cache_refines_map:
  "(\<lambda>k. Cache_Get k (fold cache_do ops (Cache_New sz))) \<subseteq>\<^sub>m fold map_do ops Map.empty
   \<and> int (Cache_Len (fold cache_do ops (Cache_New sz))) \<le> 256 * max (sz div 256) 4"
proof -
  let ?c = "fold cache_do ops (Cache_New sz)"
  have run: "cache_ok ?c \<and> (\<lambda>k. Cache_Get k ?c) \<subseteq>\<^sub>m fold map_do ops Map.empty \<and> (\<forall>s \<in> set ?c. sh_size s = max (sz div 256) 4)"
    by (intro cache_run Cache_New_ok) (simp_all add: map_le_def dom_def Cache_Get_def shard_Get_def Cache_New_shards newShard_def)
  then show ?thesis using cache_len_le by blast
qed

end
