(* ===== verification/DNS_Cache.thy ===== *)
theory DNS_Cache
  imports DNS_Response Sharded_Cache
begin

text \<open>
  The plugin \<^verbatim>\<open>cache\<close>: \<^verbatim>\<open>plugin/cache/cache.go\<close>, \<^verbatim>\<open>handler.go\<close>, \<^verbatim>\<open>item.go\<close>, \<^verbatim>\<open>dnssec.go\<close> and \<^verbatim>\<open>freq/freq.go\<close>.

  The record \<open>env\<close> holds what a call takes from outside: the clock when the request comes and when the next plugin
  has answered, the entries that are dropped to make room, the wildcard name in the metadata, the floating point
  threshold for prefetching, and whether a verification ends before its timer. A background task that a request starts is a
  \<open>job\<close> in its result; \<open>run_job\<close> is what the task does. Items are shared by pointer; the number \<open>it_addr\<close> tells one allocation from
  another. Metrics and the metadata of the context are not modelled.
\<close>

section \<open>Frequencies\<close>

definition zero_time :: time where
  "zero_time = - 62135596800 * second"

record Freq =
  fr_last :: time
  fr_hits :: int

definition Freq_New :: "time \<Rightarrow> Freq" where
  "Freq_New t = \<lparr>fr_last = t, fr_hits = 0\<rparr>"

definition Freq_Update :: "duration \<Rightarrow> time \<Rightarrow> Freq \<Rightarrow> Freq" where
  "Freq_Update d now f = (if fr_last f < now - d then \<lparr>fr_last = now, fr_hits = 1\<rparr> else \<lparr>fr_last = now, fr_hits = fr_hits f + 1\<rparr>)"

definition Freq_Reset :: "time \<Rightarrow> int \<Rightarrow> Freq \<Rightarrow> Freq" where
  "Freq_Reset t hits f = \<lparr>fr_last = t, fr_hits = hits\<rparr>"

section \<open>Items\<close>

record item =
  it_Name :: string
  it_QType :: u16
  it_Rcode :: nat
  it_AuthenticatedData :: bool
  it_RecursionAvailable :: bool
  it_Answer :: "RR list"
  it_Ns :: "RR list"
  it_Extra :: "RR list"
  it_wildcard :: string
  it_origTTL :: u32
  it_stored :: time
  it_Freq :: Freq
  it_refreshing :: bool
  it_addr :: nat

definition newItem :: "nat \<Rightarrow> Msg \<Rightarrow> time \<Rightarrow> duration \<Rightarrow> item" where
  "newItem addr m now d =
     \<lparr>it_Name = (case m_Question m of [] \<Rightarrow> '''' | q # _ \<Rightarrow> q_Name q), it_QType = (case m_Question m of [] \<Rightarrow> 0 | q # _ \<Rightarrow> q_Type q),
      it_Rcode = m_Rcode m, it_AuthenticatedData = m_AuthenticatedData m, it_RecursionAvailable = m_RecursionAvailable m,
      it_Answer = m_Answer m, it_Ns = m_Ns m, it_Extra = filter (\<lambda>e. rr_Type e \<noteq> TypeOPT) (m_Extra m), it_wildcard = '''',
      it_origTTL = of_int (secs d), it_stored = now, it_Freq = Freq_New zero_time, it_refreshing = False, it_addr = addr\<rparr>"

definition filterRRSlice :: "RR list \<Rightarrow> u32 \<Rightarrow> RR list" where
  "filterRRSlice rrs ttl = map (\<lambda>r. r\<lparr>rr_Ttl := ttl\<rparr>) (filter (\<lambda>r. rr_Type r \<noteq> TypeOPT) rrs)"

definition item_ttl :: "item \<Rightarrow> time \<Rightarrow> int" where
  "item_ttl i now = uint (it_origTTL i) - secs (now - it_stored i)"

text \<open>The conversion of the remaining time to 32 bits wraps when it is negative.\<close>

definition toMsg :: "dnslib \<Rightarrow> item \<Rightarrow> Msg \<Rightarrow> time \<Rightarrow> bool \<Rightarrow> bool \<Rightarrow> Msg" where
  "toMsg D i m now do_bit ad =
     (let ttl = of_int (item_ttl i now) in
      (SetReply D m)\<lparr>m_Authoritative := True, m_AuthenticatedData := ((do_bit \<or> ad) \<and> it_AuthenticatedData i),
        m_RecursionAvailable := it_RecursionAvailable i, m_Rcode := it_Rcode i,
        m_Answer := filterRRSlice (it_Answer i) ttl, m_Ns := filterRRSlice (it_Ns i) ttl, m_Extra := filterRRSlice (it_Extra i) ttl\<rparr>)"

definition item_matches :: "dnslib \<Rightarrow> item \<Rightarrow> Msg \<Rightarrow> bool" where
  "item_matches D i r = (req_QType r = it_QType i \<and> EqualFold (req_QName D r) (it_Name i))"

section \<open>The cache\<close>

record DCache =
  c_Zones :: "string list"
  c_ncache :: "item Cache"
  c_nttl :: duration
  c_minnttl :: duration
  c_pcache :: "item Cache"
  c_pttl :: duration
  c_minpttl :: duration
  c_failttl :: duration
  c_prefetch :: int
  c_duration :: duration
  c_percentage :: int
  c_staleUpTo :: duration
  c_verifyStale :: bool
  c_verifyStaleTimeout :: duration
  c_pexcept :: "string list"
  c_nexcept :: "string list"
  c_keepttl :: bool
  c_allocs :: nat

definition defaultCap :: int where "defaultCap = 10000"

definition DCache_New :: DCache where
  "DCache_New =
     \<lparr>c_Zones = [''.''], c_ncache = Cache_New defaultCap, c_nttl = MaximumDefaultTTL div 2, c_minnttl = MinimalDefaultTTL,
      c_pcache = Cache_New defaultCap, c_pttl = MaximumDefaultTTL, c_minpttl = MinimalDefaultTTL, c_failttl = MinimalDefaultTTL,
      c_prefetch = 0, c_duration = 60 * second, c_percentage = 10, c_staleUpTo = 0, c_verifyStale = False, c_verifyStaleTimeout = 0,
      c_pexcept = [], c_nexcept = [], c_keepttl = False, c_allocs = 0\<rparr>"

record env =
  e_now :: time
  e_done :: time
  e_victim :: "nat \<Rightarrow> nat"
  e_wildcard :: string
  e_threshold :: "int \<Rightarrow> u32 \<Rightarrow> int"
  e_timely :: bool

definition cache_hash :: "string \<Rightarrow> u16 \<Rightarrow> bool \<Rightarrow> bool \<Rightarrow> u64" where
  "cache_hash qname qtype do_bit cd =
     fnv_write (fnv_write (fnv_write (fnv_write fnv_offset (if do_bit then ''1'' else ''0'')) (if cd then ''1'' else ''0''))
       [char_of (unat (drop_bit 8 qtype)), char_of (unat (take_bit 8 qtype))]) qname"

text \<open>The key of a reply: \<open>None\<close> is the panic for a message without a question, \<open>Some None\<close> a reply that is not stored.\<close>

definition cache_key :: "string \<Rightarrow> Msg \<Rightarrow> resp_type \<Rightarrow> bool \<Rightarrow> bool \<Rightarrow> u64 option option" where
  "cache_key qname m t do_bit cd =
     (if m_Truncated m then Some None
      else if t = R_OtherError \<or> t = R_Meta \<or> t = R_Update then Some None
      else case m_Question m of [] \<Rightarrow> None | q # _ \<Rightarrow> Some (Some (cache_hash qname (q_Type q) do_bit cd)))"

definition computeTTL :: "duration \<Rightarrow> duration \<Rightarrow> duration \<Rightarrow> duration" where
  "computeTTL msgTTL minTTL maxTTL = min (max msgTTL minTTL) maxTTL"

text \<open>The writer that stores replies; \<open>w_wildcard\<close> is \<open>None\<close> where the code leaves the function nil.\<close>

record cwriter =
  w_req :: Msg
  w_do :: bool
  w_cd :: bool
  w_ad :: bool
  w_prefetch :: bool
  w_wildcard :: "string option"
  w_pexcept :: "string list"
  w_nexcept :: "string list"

definition newPrefetchResponseWriter :: "Msg \<Rightarrow> bool \<Rightarrow> bool \<Rightarrow> cwriter" where
  "newPrefetchResponseWriter req do_bit cd =
     \<lparr>w_req = req, w_do = do_bit, w_cd = cd, w_ad = False, w_prefetch = True, w_wildcard = None, w_pexcept = [], w_nexcept = []\<rparr>"

text \<open>Which of the two caches an item is in.\<close>

datatype side = Positive | Negative

definition cache_store :: "side \<Rightarrow> nat \<Rightarrow> u64 \<Rightarrow> item \<Rightarrow> DCache \<Rightarrow> DCache" where
  "cache_store s n key i c =
     (case s of
        Positive \<Rightarrow> c\<lparr>c_pcache := fst (Cache_Add n key i (c_pcache c)), c_allocs := c_allocs c + 1\<rparr>
      | Negative \<Rightarrow> c\<lparr>c_ncache := fst (Cache_Add n key i (c_ncache c)), c_allocs := c_allocs c + 1\<rparr>)"

definition drop_denial :: "u64 \<Rightarrow> DCache \<Rightarrow> DCache" where
  "drop_denial key c = c\<lparr>c_ncache := Cache_Remove key (c_ncache c)\<rparr>"

definition cache_set :: "dnslib \<Rightarrow> env \<Rightarrow> cwriter \<Rightarrow> Msg \<Rightarrow> u64 \<Rightarrow> resp_type \<Rightarrow> duration \<Rightarrow> DCache \<Rightarrow> DCache" where
  "cache_set D e w m key mt duration c =
     (let qname = (case m_Question m of [] \<Rightarrow> '''' | q # _ \<Rightarrow> q_Name q);
          i = (newItem (c_allocs c) m (e_done e) duration)\<lparr>it_wildcard := (case w_wildcard w of Some s \<Rightarrow> s | None \<Rightarrow> '''')\<rparr>;
          n = e_victim e (c_allocs c) in
      if mt = R_NoError \<or> mt = R_Delegation then
        (if Zones_Matches D (w_pexcept w) qname \<noteq> '''' then c
         else if w_prefetch w then drop_denial key (cache_store Positive n key i c) else cache_store Positive n key i c)
      else if mt = R_NameError \<or> mt = R_NoData \<or> mt = R_ServerError then
        (if Zones_Matches D (w_nexcept w) qname \<noteq> '''' then c else cache_store Negative n key i c)
      else c)"

definition reply_duration :: "DCache \<Rightarrow> Msg \<Rightarrow> resp_type \<Rightarrow> duration" where
  "reply_duration c res mt =
     (if mt = R_NameError \<or> mt = R_NoData then computeTTL (MinimalTTL res mt) (c_minnttl c) (c_nttl c)
      else if mt = R_ServerError then c_failttl c
      else computeTTL (MinimalTTL res mt) (c_minpttl c) (c_pttl c))"

definition capped :: "cwriter \<Rightarrow> Msg \<Rightarrow> duration \<Rightarrow> Msg" where
  "capped w res duration =
     (let ttl = of_int (secs duration) in
      res\<lparr>m_Answer := filterRRSlice (m_Answer res) ttl, m_Ns := filterRRSlice (m_Ns res) ttl, m_Extra := filterRRSlice (m_Extra res) ttl,
        m_AuthenticatedData := ((w_do w \<or> w_ad w) \<and> m_AuthenticatedData res)\<rparr>)"

text \<open>The message that goes to the client, if any, and the cache; \<open>None\<close> is a panic.\<close>

definition cache_WriteMsg :: "dnslib \<Rightarrow> env \<Rightarrow> cwriter \<Rightarrow> Msg \<Rightarrow> DCache \<Rightarrow> (Msg list \<times> DCache) option" where
  "cache_WriteMsg D e w res c =
     (let mt = Typify D (Some res) (e_done e) in
      case cache_key (req_Name D (w_req w)) res mt (w_do w) (w_cd w) of
        None \<Rightarrow> None
      | Some k \<Rightarrow>
          let duration = reply_duration c res mt; res = capped w res duration;
              c = (case k of
                     Some key \<Rightarrow> if duration > 0 \<and> req_Match D (w_req w) res then cache_set D e w res key mt duration c else c
                   | None \<Rightarrow> c)
          in Some (if w_prefetch w then [] else [res], c))"

fun cache_writes :: "dnslib \<Rightarrow> env \<Rightarrow> cwriter \<Rightarrow> Msg list \<Rightarrow> DCache \<Rightarrow> (Msg list \<times> DCache) option" where
  "cache_writes D e w [] c = Some ([], c)"
| "cache_writes D e w (m # ms) c =
     (case cache_WriteMsg D e w m c of
        None \<Rightarrow> None
      | Some (out, c1) \<Rightarrow> map_option (\<lambda>(outs, c2). (out @ outs, c2)) (cache_writes D e w ms c1))"

text \<open>The writer for verifying a stale item; the flag is \<^verbatim>\<open>refreshed\<close>.\<close>

fun verify_writes :: "dnslib \<Rightarrow> env \<Rightarrow> cwriter \<Rightarrow> Msg list \<Rightarrow> bool \<Rightarrow> DCache \<Rightarrow> (Msg list \<times> bool \<times> DCache) option" where
  "verify_writes D e w [] refreshed c = Some ([], refreshed, c)"
| "verify_writes D e w (m # ms) refreshed c =
     (if m_Rcode m = RcodeSuccess \<or> m_Rcode m = RcodeNameError then
        (case cache_WriteMsg D e w m c of
           None \<Rightarrow> None
         | Some (out, c1) \<Rightarrow> map_option (\<lambda>(outs, rf, c2). (out @ outs, rf, c2)) (verify_writes D e w ms True c1))
      else verify_writes D e w ms False c)"

definition doRefresh :: "dnslib \<Rightarrow> env \<Rightarrow> cwriter \<Rightarrow> handler option \<Rightarrow> DCache \<Rightarrow> (answer \<times> DCache) option" where
  "doRefresh D e w nxt c =
     (case NextOrFailure nxt (w_req w) of
        None \<Rightarrow> None
      | Some (rcode, err, ws) \<Rightarrow> map_option (\<lambda>(outs, c'). ((rcode, err, outs), c')) (cache_writes D e w ws c))"

definition doVerify :: "dnslib \<Rightarrow> env \<Rightarrow> cwriter \<Rightarrow> handler option \<Rightarrow> DCache \<Rightarrow> (answer \<times> bool \<times> DCache) option" where
  "doVerify D e w nxt c =
     (case NextOrFailure nxt (w_req w) of
        None \<Rightarrow> None
      | Some (rcode, err, ws) \<Rightarrow> map_option (\<lambda>(outs, rf, c'). ((rcode, err, outs), rf, c')) (verify_writes D e w ws False c))"

section \<open>Looking up\<close>

definition side_get :: "side \<Rightarrow> u64 \<Rightarrow> DCache \<Rightarrow> item option" where
  "side_get s k c = (case s of Positive \<Rightarrow> Cache_Get k (c_pcache c) | Negative \<Rightarrow> Cache_Get k (c_ncache c))"

definition side_modify :: "side \<Rightarrow> u64 \<Rightarrow> (item \<Rightarrow> item) \<Rightarrow> DCache \<Rightarrow> DCache" where
  "side_modify s k f c =
     (case s of Positive \<Rightarrow> c\<lparr>c_pcache := Cache_Modify k f (c_pcache c)\<rparr> | Negative \<Rightarrow> c\<lparr>c_ncache := Cache_Modify k f (c_ncache c)\<rparr>)"

definition req_key :: "dnslib \<Rightarrow> Msg \<Rightarrow> u64" where
  "req_key D r = cache_hash (req_Name D r) (req_QType r) (req_Do D r) (m_CheckingDisabled r)"

definition usable :: "dnslib \<Rightarrow> DCache \<Rightarrow> time \<Rightarrow> Msg \<Rightarrow> item \<Rightarrow> bool" where
  "usable D c now r i =
     (item_matches D i r \<and> (item_ttl i now > 0 \<or> c_staleUpTo c > 0 \<and> - item_ttl i now < secs (c_staleUpTo c)))"

definition side_usable :: "dnslib \<Rightarrow> side \<Rightarrow> time \<Rightarrow> Msg \<Rightarrow> DCache \<Rightarrow> (side \<times> item) option" where
  "side_usable D s now r c =
     (case side_get s (req_key D r) c of Some i \<Rightarrow> if usable D c now r i then Some (s, i) else None | None \<Rightarrow> None)"

definition getIfNotStale :: "dnslib \<Rightarrow> time \<Rightarrow> Msg \<Rightarrow> DCache \<Rightarrow> (side \<times> item) option" where
  "getIfNotStale D now r c =
     (case side_usable D Negative now r c of
        Some (s, i) \<Rightarrow>
          if it_Rcode i = RcodeServerFailure then
            (case side_usable D Positive now r c of Some p \<Rightarrow> Some p | None \<Rightarrow> Some (s, i))
          else Some (s, i)
      | None \<Rightarrow> side_usable D Positive now r c)"

definition cache_exists :: "u64 \<Rightarrow> DCache \<Rightarrow> (side \<times> item) option" where
  "cache_exists k c =
     (case side_get Negative k c of
        Some i \<Rightarrow> Some (Negative, i)
      | None \<Rightarrow> map_option (Pair Positive) (side_get Positive k c))"

section \<open>Background tasks\<close>

text \<open>A prefetch keeps the item it was started for; a verification is one whose timer has run out.\<close>

datatype job = Prefetch_job Msg bool bool side item time | Verify_job cwriter

definition tryPrefetch :: "dnslib \<Rightarrow> Msg \<Rightarrow> side \<Rightarrow> item \<Rightarrow> time \<Rightarrow> DCache \<Rightarrow> DCache \<times> job option" where
  "tryPrefetch D r s i now c =
     (if it_refreshing i then (c, None)
      else (side_modify s (req_key D r) (\<lambda>i. i\<lparr>it_refreshing := True\<rparr>) c,
        Some (Prefetch_job r (req_Do D r) (m_CheckingDisabled r) s i now)))"

text \<open>The flag is only looked at through the address of the item: another item under the key is left alone.\<close>

definition at_addr :: "nat \<Rightarrow> (item \<Rightarrow> item) \<Rightarrow> item \<Rightarrow> item" where
  "at_addr a f i = (if it_addr i = a then f i else i)"

definition doPrefetch :: "dnslib \<Rightarrow> env \<Rightarrow> handler option \<Rightarrow> Msg \<Rightarrow> bool \<Rightarrow> bool \<Rightarrow> side \<Rightarrow> item \<Rightarrow> time \<Rightarrow> DCache \<Rightarrow> DCache option" where
  "doPrefetch D e nxt r do_bit cd s i now c =
     (let k = cache_hash (req_Name D r) (req_QType r) do_bit cd;
          hits = (case side_get s k c of Some j \<Rightarrow> if it_addr j = it_addr i then fr_hits (it_Freq j) else fr_hits (it_Freq i)
                  | None \<Rightarrow> fr_hits (it_Freq i)) in
      case doRefresh D e (newPrefetchResponseWriter r do_bit cd) nxt c of
        None \<Rightarrow> None
      | Some (_, c1) \<Rightarrow>
          let c2 = (case cache_exists k c1 of
                      Some (s1, _) \<Rightarrow> side_modify s1 k (\<lambda>j. j\<lparr>it_Freq := Freq_Reset now hits (it_Freq j)\<rparr>) c1
                    | None \<Rightarrow> c1)
          in Some (side_modify s k (at_addr (it_addr i) (\<lambda>j. j\<lparr>it_refreshing := False\<rparr>)) c2))"

definition run_job :: "dnslib \<Rightarrow> env \<Rightarrow> handler option \<Rightarrow> job \<Rightarrow> DCache \<Rightarrow> DCache option" where
  "run_job D e nxt j c =
     (case j of
        Prefetch_job r do_bit cd s i now \<Rightarrow> doPrefetch D e nxt r do_bit cd s i now c
      | Verify_job w \<Rightarrow> map_option (\<lambda>(_, _, c'). c') (doVerify D e w nxt c))"

section \<open>The handler\<close>

text \<open>The item afterwards too: a query counts towards its frequency.\<close>

definition shouldPrefetch :: "dnslib \<Rightarrow> env \<Rightarrow> Msg \<Rightarrow> side \<Rightarrow> item \<Rightarrow> DCache \<Rightarrow> bool \<times> item \<times> DCache" where
  "shouldPrefetch D e r s i c =
     (if c_prefetch c \<le> 0 then (False, i, c)
      else
        let up = (\<lambda>i. i\<lparr>it_Freq := Freq_Update (c_duration c) (e_now e) (it_Freq i)\<rparr>); i = up i;
            threshold = e_threshold e (c_percentage c) (it_origTTL i)
        in (fr_hits (it_Freq i) \<ge> c_prefetch c \<and> item_ttl i (e_now e) \<le> threshold, i, side_modify s (req_key D r) up c))"

definition item_reply :: "dnslib \<Rightarrow> Msg \<Rightarrow> item \<Rightarrow> time \<Rightarrow> DCache \<Rightarrow> Msg" where
  "item_reply D r i now c = toMsg D i r (if c_keepttl c then it_stored i else now) (req_Do D r) (m_AuthenticatedData r)"

text \<open>
  \<^verbatim>\<open>verifyWithTimeout\<close>: the answer if the request is done with, otherwise the messages already written; the cache, and the task that goes on.
\<close>

definition verifyWithTimeout ::
  "dnslib \<Rightarrow> env \<Rightarrow> cwriter \<Rightarrow> handler option \<Rightarrow> Msg \<Rightarrow> DCache \<Rightarrow> (answer option \<times> Msg list \<times> DCache \<times> job option) option" where
  "verifyWithTimeout D e w nxt r c =
     (if \<not> e_timely e then Some (None, [], c, Some (Verify_job w))
      else
        case doVerify D e w nxt c of
          None \<Rightarrow> None
        | Some ((rcode, err, outs), refreshed, c1) \<Rightarrow>
            if \<not> refreshed then Some (None, outs, c1, None)
            else
              case cache_exists (req_key D r) c1 of
                None \<Rightarrow> Some (Some (rcode, err, outs), [], c1, None)
              | Some (_, fresh) \<Rightarrow> Some (Some (RcodeSuccess, False, outs @ [item_reply D r fresh (e_done e) c1]), [], c1, None))"

definition verify_writer :: "dnslib \<Rightarrow> Msg \<Rightarrow> DCache \<Rightarrow> cwriter" where
  "verify_writer D r c =
     \<lparr>w_req = r, w_do = req_Do D r, w_cd = m_CheckingDisabled r, w_ad = False, w_prefetch = (c_verifyStaleTimeout c > 0), w_wildcard = None,
      w_pexcept = [], w_nexcept = []\<rparr>"

text \<open>The messages that the verification has already written come first.\<close>

definition verify_stale :: "dnslib \<Rightarrow> env \<Rightarrow> handler option \<Rightarrow> Msg \<Rightarrow> DCache \<Rightarrow> (answer option \<times> Msg list \<times> DCache \<times> job option) option" where
  "verify_stale D e nxt r c =
     (if \<not> c_verifyStale c then Some (None, [], c, None)
      else if c_verifyStaleTimeout c = 0 then
        map_option (\<lambda>((rcode, err, outs), refreshed, c1). if refreshed then (Some (rcode, err, outs), [], c1, None) else (None, outs, c1, None))
          (doVerify D e (verify_writer D r c) nxt c)
      else verifyWithTimeout D e (verify_writer D r c) nxt r c)"

definition serve_item :: "dnslib \<Rightarrow> env \<Rightarrow> handler option \<Rightarrow> Msg \<Rightarrow> side \<Rightarrow> item \<Rightarrow> DCache \<Rightarrow> (answer \<times> DCache \<times> job option) option" where
  "serve_item D e nxt r s i c =
     (let ttl = item_ttl i (e_now e) in
      if ttl < 0 then
        (case verify_stale D e nxt r c of
           None \<Rightarrow> None
         | Some (Some a, _, c1, j) \<Rightarrow> Some (a, c1, j)
         | Some (None, outs, c1, j) \<Rightarrow>
             let now = e_now e + ttl * second; (c2, j2) = (if c_verifyStale c then (c1, j) else tryPrefetch D r s i now c1)
             in Some ((RcodeSuccess, False, outs @ [item_reply D r i now c2]), c2, j2))
      else
        let (prefetch, i, c1) = shouldPrefetch D e r s i c; (c2, j) = (if prefetch then tryPrefetch D r s i (e_now e) c1 else (c1, None))
        in Some ((RcodeSuccess, False, [item_reply D r i (e_now e) c2]), c2, j))"

definition miss_writer :: "dnslib \<Rightarrow> env \<Rightarrow> Msg \<Rightarrow> DCache \<Rightarrow> cwriter" where
  "miss_writer D e r c =
     \<lparr>w_req = r, w_do = req_Do D r, w_cd = m_CheckingDisabled r, w_ad = m_AuthenticatedData r, w_prefetch = False,
      w_wildcard = Some (e_wildcard e), w_pexcept = c_pexcept c, w_nexcept = c_nexcept c\<rparr>"

definition Cache_ServeDNS :: "dnslib \<Rightarrow> env \<Rightarrow> handler option \<Rightarrow> Msg \<Rightarrow> DCache \<Rightarrow> (answer \<times> DCache \<times> job option) option" where
  "Cache_ServeDNS D e nxt r c =
     (if Zones_Matches D (c_Zones c) (req_Name D r) = '''' then map_option (\<lambda>a. (a, c, None)) (NextOrFailure nxt r)
      else
        case getIfNotStale D (e_now e) r c of
          None \<Rightarrow>
            map_option (\<lambda>(a, c'). (a, c', None))
              (doRefresh D e (miss_writer D e r c) nxt c)
        | Some (s, i) \<Rightarrow> serve_item D e nxt r s i c)"

section \<open>Invariants\<close>

text \<open>The configuration, which no operation changes.\<close>

definition cfg :: "DCache \<Rightarrow> DCache" where
  "cfg c = c\<lparr>c_ncache := [], c_pcache := [], c_allocs := 0\<rparr>"

lemma cfg_fields:
  assumes "cfg c = cfg c'"
  shows "c_nttl c = c_nttl c'" "c_pttl c = c_pttl c'" "c_failttl c = c_failttl c'" "c_staleUpTo c = c_staleUpTo c'"
    "c_keepttl c = c_keepttl c'" "c_verifyStale c = c_verifyStale c'" "c_Zones c = c_Zones c'"
  using assms by (cases c; cases c'; simp add: cfg_def)+

lemma cfg_updates [simp]:
  "cfg (c\<lparr>c_ncache := x\<rparr>) = cfg c" "cfg (c\<lparr>c_pcache := x\<rparr>) = cfg c" "cfg (c\<lparr>c_allocs := n\<rparr>) = cfg c"
  by (simp_all add: cfg_def)

text \<open>
  What is known of a stored item: it lies under the hash of its question, its records carry the time it was stored for, which is
  within the bound of its side, and the side fits its return code.
\<close>

definition cap :: "side \<Rightarrow> DCache \<Rightarrow> int" where
  "cap s c = secs (case s of Positive \<Rightarrow> c_pttl c | Negative \<Rightarrow> max (c_nttl c) (c_failttl c))"

definition item_wf :: "side \<Rightarrow> DCache \<Rightarrow> u64 \<Rightarrow> item \<Rightarrow> bool" where
  "item_wf s c k i \<longleftrightarrow>
     (\<exists>do_bit cd. k = cache_hash (ToLower (it_Name i)) (it_QType i) do_bit cd)
     \<and> (\<forall>rr \<in> set (it_Answer i @ it_Ns i @ it_Extra i). rr_Ttl rr = it_origTTL i \<and> rr_Type rr \<noteq> TypeOPT)
     \<and> uint (it_origTTL i) \<le> cap s c
     \<and> it_Rcode i \<in> (case s of Positive \<Rightarrow> {RcodeSuccess}
          | Negative \<Rightarrow> {RcodeSuccess, RcodeNameError, RcodeServerFailure, RcodeNotImplemented})"

definition DCache_ok :: "DCache \<Rightarrow> bool" where
  "DCache_ok c \<longleftrightarrow> cache_ok (c_ncache c) \<and> cache_ok (c_pcache c)
     \<and> sc.entries (item_wf Negative c) (c_ncache c) \<and> sc.entries (item_wf Positive c) (c_pcache c)"

lemma item_wf_cfg: "cfg c = cfg c' \<Longrightarrow> item_wf s c = item_wf s c'"
  using cfg_fields [of c c'] by (intro ext) (simp add: item_wf_def cap_def split: side.split)

lemma DCache_ok_get:
  assumes "DCache_ok c" and "side_get s k c = Some i"
  shows "item_wf s c k i"
proof (cases s)
  case Positive
  then show ?thesis using assms sc.entries_get [of "item_wf Positive c" "c_pcache c"] unfolding DCache_ok_def side_get_def by simp
next
  case Negative
  then show ?thesis using assms sc.entries_get [of "item_wf Negative c" "c_ncache c"] unfolding DCache_ok_def side_get_def by simp
qed

lemma DCache_caches:
  assumes "DCache_ok c"
  shows "cache_ok (c_ncache c)" and "cache_ok (c_pcache c)"
  using assms unfolding DCache_ok_def by blast+

lemma DCache_okI:
  assumes "cache_ok (c_ncache c)" and "cache_ok (c_pcache c)"
    and "\<And>k i. Cache_Get k (c_ncache c) = Some i \<Longrightarrow> item_wf Negative c k i"
    and "\<And>k i. Cache_Get k (c_pcache c) = Some i \<Longrightarrow> item_wf Positive c k i"
  shows "DCache_ok c"
  using assms by (simp add: DCache_ok_def sc.entries_def)

lemma DCache_New_ok: "DCache_ok DCache_New"
  by (rule DCache_okI)
    (simp_all add: DCache_New_def Cache_New_ok Cache_Get_def shard_Get_def Cache_New_shards newShard_def)

lemma side_modify_ok:
  assumes "DCache_ok c" and "\<And>i. item_wf s c k i \<Longrightarrow> item_wf s c k (f i)"
  shows "DCache_ok (side_modify s k f c)" and "cfg (side_modify s k f c) = cfg c"
    and "side_get s' k' (side_modify s k f c) = map_option (if s' = s \<and> k' = k then f else id) (side_get s' k' c)"
proof -
  note c = DCache_caches [OF assms(1)]
  show cfg: "cfg (side_modify s k f c) = cfg c" by (cases s) (simp_all add: side_modify_def)
  show get: "side_get s' k' (side_modify s k f c) = map_option (if s' = s \<and> k' = k then f else id) (side_get s' k' c)" for s' k'
    using c by (cases s; cases s') (simp_all add: side_modify_def side_get_def Cache_Modify_get option.map_id)
  have wf: "item_wf s' (side_modify s k f c) k' i" if got: "side_get s' k' (side_modify s k f c) = Some i" for s' k' i
  proof -
    obtain j where "side_get s' k' c = Some j" "i = (if s' = s \<and> k' = k then f else id) j" using got get by auto
    then show ?thesis
      using DCache_ok_get [OF assms(1)] assms(2) item_wf_cfg [OF cfg] by (auto split: if_splits)
  qed
  show "DCache_ok (side_modify s k f c)"
  proof (rule DCache_okI)
    show "cache_ok (c_ncache (side_modify s k f c))" "cache_ok (c_pcache (side_modify s k f c))"
      using c by (cases s; simp add: side_modify_def Cache_Modify_ok)+
  qed (use wf [of Negative] wf [of Positive] in \<open>simp_all add: side_get_def\<close>)
qed

lemma secs_sign: "0 \<le> d \<Longrightarrow> 0 \<le> secs d" "d \<le> 0 \<Longrightarrow> secs d \<le> 0"
  by (auto simp: secs_def second_def pos_imp_zdiv_nonneg_iff)

lemma secs_mono:
  assumes "a \<le> b"
  shows "secs a \<le> secs b"
proof -
  consider "0 \<le> a" | "a < 0" "0 \<le> b" | "b < 0" using assms by linarith
  then show ?thesis
  proof cases
    case 1
    then show ?thesis using assms zdiv_mono1 [of a b second] by (simp add: secs_def second_def)
  next
    case 2
    then show ?thesis using secs_sign(1) [of b] secs_sign(2) [of a] by simp
  next
    case 3
    then show ?thesis using assms zdiv_mono1 [of "- b" "- a" second] by (simp add: secs_def second_def)
  qed
qed

lemma uint_secs_le: "0 \<le> d \<Longrightarrow> uint (of_int (secs d) :: u32) \<le> secs d"
proof -
  assume "0 \<le> d"
  then have "0 \<le> secs d" by (rule secs_sign(1))
  then show ?thesis by (simp add: uint_word_of_int zmod_le_nonneg_dividend)
qed

lemma filterRRSlice_in: "rr \<in> set (filterRRSlice rrs ttl) \<Longrightarrow> rr_Ttl rr = ttl \<and> rr_Type rr \<noteq> TypeOPT"
  by (auto simp: filterRRSlice_def)

section \<open>Storing\<close>

lemma computeTTL_le: "computeTTL a lo hi \<le> hi"
  by (simp add: computeTTL_def)

lemma Typify_codes:
  "Typify D (Some m) t \<in> {R_NoError, R_Delegation} \<Longrightarrow> m_Rcode m = RcodeSuccess"
  "Typify D (Some m) t \<in> {R_NameError, R_NoData, R_ServerError} \<Longrightarrow>
     m_Rcode m \<in> {RcodeSuccess, RcodeNameError, RcodeServerFailure, RcodeNotImplemented}"
  by (auto simp: Typify_def Let_def split: if_splits)

lemma cache_store_ok:
  assumes "DCache_ok c" and "item_wf s c k i"
  shows "DCache_ok (cache_store s n k i c)" and "cfg (cache_store s n k i c) = cfg c"
proof -
  show cfg: "cfg (cache_store s n k i c) = cfg c" by (cases s) (simp_all add: cache_store_def)
  have wf: "item_wf s' (cache_store s n k i c) = item_wf s' c" for s' using cfg by (rule item_wf_cfg)
  note c = assms(1) [unfolded DCache_ok_def]
  show "DCache_ok (cache_store s n k i c)"
  proof (cases s)
    case Positive
    then have "sc.entries (item_wf Positive c) (fst (Cache_Add n k i (c_pcache c)))" using c assms(2) by (intro sc.entries_add) simp_all
    then show ?thesis unfolding DCache_ok_def wf using c by (simp add: Positive cache_store_def Cache_Add_ok)
  next
    case Negative
    then have "sc.entries (item_wf Negative c) (fst (Cache_Add n k i (c_ncache c)))" using c assms(2) by (intro sc.entries_add) simp_all
    then show ?thesis unfolding DCache_ok_def wf using c by (simp add: Negative cache_store_def Cache_Add_ok)
  qed
qed

lemma drop_denial_ok:
  assumes "DCache_ok c"
  shows "DCache_ok (drop_denial k c)" and "cfg (drop_denial k c) = cfg c"
proof -
  show cfg: "cfg (drop_denial k c) = cfg c" by (simp add: drop_denial_def)
  have wf: "item_wf s' (drop_denial k c) = item_wf s' c" for s' using cfg by (rule item_wf_cfg)
  show "DCache_ok (drop_denial k c)"
    using assms unfolding DCache_ok_def wf by (simp add: drop_denial_def Cache_Remove_ok sc.entries_remove)
qed

lemma cache_set_ok:
  assumes "DCache_ok c"
    and "\<And>wild. mt \<in> {R_NoError, R_Delegation} \<Longrightarrow> item_wf Positive c k ((newItem (c_allocs c) m (e_done e) d)\<lparr>it_wildcard := wild\<rparr>)"
    and "\<And>wild. mt \<in> {R_NameError, R_NoData, R_ServerError} \<Longrightarrow> item_wf Negative c k ((newItem (c_allocs c) m (e_done e) d)\<lparr>it_wildcard := wild\<rparr>)"
  shows "DCache_ok (cache_set D e w m k mt d c) \<and> cfg (cache_set D e w m k mt d c) = cfg c"
  unfolding cache_set_def Let_def using assms by (simp add: cache_store_ok drop_denial_ok)

lemma cache_exists_iff: "cache_exists k c \<noteq> None \<longleftrightarrow> Cache_Get k (c_ncache c) \<noteq> None \<or> Cache_Get k (c_pcache c) \<noteq> None"
  by (auto simp: cache_exists_def side_get_def split: option.split)

lemma cache_store_exists:
  assumes "DCache_ok c"
  shows "cache_exists k (cache_store s n k i c) \<noteq> None" and "cache_exists k (drop_denial k (cache_store Positive n k i c)) \<noteq> None"
proof -
  note c = DCache_caches [OF assms]
  show "cache_exists k (cache_store s n k i c) \<noteq> None"
    unfolding cache_exists_iff using c by (cases s) (simp_all add: cache_store_def Cache_Add_get(1) del: not_None_eq)
  show "cache_exists k (drop_denial k (cache_store Positive n k i c)) \<noteq> None"
    unfolding cache_exists_iff using c by (simp add: cache_store_def drop_denial_def Cache_Add_get(1) del: not_None_eq)
qed

lemma cache_set_exists:
  assumes "DCache_ok c" and "cache_exists k c \<noteq> None"
  shows "cache_exists k (cache_set D e w m k mt d c) \<noteq> None"
  unfolding cache_set_def Let_def using assms(2) cache_store_exists [OF assms(1)] by (simp del: not_None_eq)

lemma capped_keeps [simp]:
  "m_Question (capped w m d) = m_Question m" "m_Rcode (capped w m d) = m_Rcode m" "m_Id (capped w m d) = m_Id m"
  "m_Response (capped w m d) = m_Response m"
  by (simp_all add: capped_def Let_def)

lemma capped_item_wf:
  assumes "req_Match D req (capped w m d)" and "m_Question m = q # qs" and "0 < d" and "secs d \<le> cap s c"
    and "m_Rcode m \<in> (case s of Positive \<Rightarrow> {RcodeSuccess} | Negative \<Rightarrow> {RcodeSuccess, RcodeNameError, RcodeServerFailure, RcodeNotImplemented})"
  shows "item_wf s c (cache_hash (req_Name D req) (q_Type q) b1 b2) ((newItem a (capped w m d) now d)\<lparr>it_wildcard := wild\<rparr>)"
proof -
  let ?i = "(newItem a (capped w m d) now d)\<lparr>it_wildcard := wild\<rparr>"
  have "ToLower (it_Name ?i) = req_Name D req" "it_QType ?i = q_Type q"
    using assms(1,2) by (auto simp: req_Match_def newItem_def split: list.splits)
  moreover have "rr_Ttl rr = it_origTTL ?i \<and> rr_Type rr \<noteq> TypeOPT" if "rr \<in> set (it_Answer ?i @ it_Ns ?i @ it_Extra ?i)" for rr
    using that filterRRSlice_in [of rr] by (auto simp: newItem_def capped_def Let_def)
  moreover have "uint (it_origTTL ?i) \<le> cap s c"
    using uint_secs_le [of d] assms(3,4) by (simp add: newItem_def)
  moreover have "it_Rcode ?i = m_Rcode m" by (simp add: newItem_def)
  ultimately show ?thesis using assms(5) unfolding item_wf_def by metis
qed

lemma reply_duration_cap:
  "mt \<in> {R_NoError, R_Delegation} \<Longrightarrow> secs (reply_duration c m mt) \<le> cap Positive c"
  "mt \<in> {R_NameError, R_NoData, R_ServerError} \<Longrightarrow> secs (reply_duration c m mt) \<le> cap Negative c"
  by (auto simp: reply_duration_def cap_def computeTTL_def intro!: secs_mono)

lemma cache_key_cases:
  "cache_key qname m t b1 b2 = Some (Some key) \<Longrightarrow> \<exists>q qs. m_Question m = q # qs \<and> key = cache_hash qname (q_Type q) b1 b2"
  by (cases "m_Question m") (auto simp: cache_key_def split: if_splits)

lemma cache_WriteMsg_cases:
  fixes D e w res c
  defines "mt \<equiv> Typify D (Some res) (e_done e)"
  defines "d \<equiv> reply_duration c res mt"
  assumes "cache_WriteMsg D e w res c = Some (outs, c')"
  shows "outs = (if w_prefetch w then [] else [capped w res d])"
    and "c' = c \<or> (\<exists>q qs. m_Question res = q # qs \<and> 0 < d \<and> req_Match D (w_req w) (capped w res d)
       \<and> c' = cache_set D e w (capped w res d) (cache_hash (req_Name D (w_req w)) (q_Type q) (w_do w) (w_cd w)) mt d c)"
proof -
  obtain k where k: "cache_key (req_Name D (w_req w)) res mt (w_do w) (w_cd w) = Some k"
    using assms(3) by (cases "cache_key (req_Name D (w_req w)) res mt (w_do w) (w_cd w)") (simp_all add: cache_WriteMsg_def mt_def)
  have res: "outs = (if w_prefetch w then [] else [capped w res d])"
    "c' = (case k of Some key \<Rightarrow> if d > 0 \<and> req_Match D (w_req w) (capped w res d) then cache_set D e w (capped w res d) key mt d c else c
           | None \<Rightarrow> c)"
    using assms(3) k unfolding cache_WriteMsg_def Let_def mt_def [symmetric] d_def [symmetric] by simp_all
  show "outs = (if w_prefetch w then [] else [capped w res d])" by (rule res(1))
  show "c' = c \<or> (\<exists>q qs. m_Question res = q # qs \<and> 0 < d \<and> req_Match D (w_req w) (capped w res d)
       \<and> c' = cache_set D e w (capped w res d) (cache_hash (req_Name D (w_req w)) (q_Type q) (w_do w) (w_cd w)) mt d c)"
  proof (cases k)
    case (Some key)
    then obtain q qs where "m_Question res = q # qs" "key = cache_hash (req_Name D (w_req w)) (q_Type q) (w_do w) (w_cd w)"
      using cache_key_cases k by blast
    then show ?thesis using res(2) Some by (simp split: if_splits)
  qed (use res(2) in simp)
qed

lemma cache_WriteMsg_ok:
  assumes "DCache_ok c" and "cache_WriteMsg D e w res c = Some (outs, c')"
  shows "DCache_ok c' \<and> cfg c' = cfg c"
proof -
  let ?mt = "Typify D (Some res) (e_done e)"
  let ?d = "reply_duration c res ?mt"
  have "DCache_ok c' \<and> cfg c' = cfg c"
    if q: "m_Question res = q # qs" "0 < ?d" "req_Match D (w_req w) (capped w res ?d)"
      and c': "c' = cache_set D e w (capped w res ?d) (cache_hash (req_Name D (w_req w)) (q_Type q) (w_do w) (w_cd w)) ?mt ?d c" for q qs
    unfolding c'
  proof (rule cache_set_ok [OF assms(1)])
    fix wild
    let ?i = "(newItem (c_allocs c) (capped w res ?d) (e_done e) ?d)\<lparr>it_wildcard := wild\<rparr>"
    show "item_wf Positive c (cache_hash (req_Name D (w_req w)) (q_Type q) (w_do w) (w_cd w)) ?i" if mt: "?mt \<in> {R_NoError, R_Delegation}"
      using capped_item_wf [OF q(3,1,2) reply_duration_cap(1) [OF mt]] Typify_codes(1) [OF mt] by simp
    show "item_wf Negative c (cache_hash (req_Name D (w_req w)) (q_Type q) (w_do w) (w_cd w)) ?i" if mt: "?mt \<in> {R_NameError, R_NoData, R_ServerError}"
      using capped_item_wf [OF q(3,1,2) reply_duration_cap(2) [OF mt]] Typify_codes(2) [OF mt] by simp
  qed
  then show ?thesis using cache_WriteMsg_cases(2) [OF assms(2)] assms(1) by blast
qed

lemma cache_WriteMsg_exists:
  assumes "DCache_ok c" and "cache_WriteMsg D e w res c = Some (outs, c')" and "w_req w = r" and "w_do w = req_Do D r"
    and "w_cd w = m_CheckingDisabled r" and "cache_exists (req_key D r) c \<noteq> None"
  shows "cache_exists (req_key D r) c' \<noteq> None"
proof -
  let ?mt = "Typify D (Some res) (e_done e)"
  let ?d = "reply_duration c res ?mt"
  have "cache_exists (req_key D r) c' \<noteq> None"
    if q: "m_Question res = q # qs" "req_Match D (w_req w) (capped w res ?d)"
      and c': "c' = cache_set D e w (capped w res ?d) (cache_hash (req_Name D (w_req w)) (q_Type q) (w_do w) (w_cd w)) ?mt ?d c" for q qs
  proof -
    have "q_Type q = req_QType r" using q assms(3) by (auto simp: req_Match_def split: list.splits)
    then have key: "cache_hash (req_Name D (w_req w)) (q_Type q) (w_do w) (w_cd w) = req_key D r"
      using assms(3-5) by (simp add: req_key_def)
    show ?thesis unfolding c' key by (rule cache_set_exists [OF assms(1,6)])
  qed
  then show ?thesis using cache_WriteMsg_cases(2) [OF assms(2)] assms(6) by blast
qed

lemma cache_WriteMsg_total:
  assumes "m_Question res \<noteq> []"
  shows "\<exists>m c'. cache_WriteMsg D e w res c = Some (if w_prefetch w then [] else [m], c')
    \<and> m_Question m = m_Question res \<and> m_Id m = m_Id res \<and> m_Response m = m_Response res"
proof -
  let ?m = "capped w res (reply_duration c res (Typify D (Some res) (e_done e)))"
  have "\<exists>c'. cache_WriteMsg D e w res c = Some (if w_prefetch w then [] else [?m], c')"
    using assms by (cases "m_Question res") (auto simp: cache_WriteMsg_def cache_key_def Let_def)
  then show ?thesis by fastforce
qed

section \<open>Every step keeps the invariant\<close>

lemma cache_writes_ok:
  "DCache_ok c \<Longrightarrow> cache_writes D e w ms c = Some (outs, c') \<Longrightarrow> DCache_ok c' \<and> cfg c' = cfg c"
proof (induction ms arbitrary: c outs)
  case (Cons m ms)
  obtain out c1 outs2 where 1: "cache_WriteMsg D e w m c = Some (out, c1)" "cache_writes D e w ms c1 = Some (outs2, c')"
    using Cons.prems(2) by (auto split: option.splits)
  then show ?case using cache_WriteMsg_ok [OF Cons.prems(1) 1(1)] Cons.IH [OF _ 1(2)] by simp
qed simp

lemma verify_writes_ok:
  "DCache_ok c \<Longrightarrow> verify_writes D e w ms rf c = Some (outs, rf', c') \<Longrightarrow> DCache_ok c' \<and> cfg c' = cfg c"
proof (induction ms arbitrary: c outs rf)
  case (Cons m ms)
  show ?case
  proof (cases "m_Rcode m = RcodeSuccess \<or> m_Rcode m = RcodeNameError")
    case True
    then obtain out c1 outs2 where 1: "cache_WriteMsg D e w m c = Some (out, c1)" "verify_writes D e w ms True c1 = Some (outs2, rf', c')"
      using Cons.prems(2) by (auto split: option.splits)
    then show ?thesis using cache_WriteMsg_ok [OF Cons.prems(1) 1(1)] Cons.IH [OF _ 1(2)] by simp
  next
    case False
    then show ?thesis using Cons.IH [OF Cons.prems(1)] Cons.prems(2) by simp
  qed
qed simp

lemma doRefresh_ok: "DCache_ok c \<Longrightarrow> doRefresh D e w nxt c = Some (a, c') \<Longrightarrow> DCache_ok c' \<and> cfg c' = cfg c"
  by (auto simp: doRefresh_def dest: cache_writes_ok split: option.splits)

lemma doVerify_ok: "DCache_ok c \<Longrightarrow> doVerify D e w nxt c = Some (a, rf, c') \<Longrightarrow> DCache_ok c' \<and> cfg c' = cfg c"
  by (auto simp: doVerify_def dest: verify_writes_ok split: option.splits)

text \<open>Frequencies and the flag of a prefetch are no part of what is known of an item.\<close>

lemma item_wf_bookkeeping:
  "item_wf s c k (i\<lparr>it_refreshing := b\<rparr>) = item_wf s c k i" "item_wf s c k (i\<lparr>it_Freq := f\<rparr>) = item_wf s c k i"
  by (simp_all add: item_wf_def)

lemma tryPrefetch_ok:
  assumes "DCache_ok c" and "tryPrefetch D r s i now c = (c', j)"
  shows "DCache_ok c' \<and> cfg c' = cfg c"
  using side_modify_ok [OF assms(1), of s "req_key D r" "\<lambda>i. i\<lparr>it_refreshing := True\<rparr>"] assms
  by (auto simp: tryPrefetch_def item_wf_bookkeeping split: if_splits)

lemma shouldPrefetch_ok:
  assumes "DCache_ok c" and "shouldPrefetch D e r s i c = (b, i', c')"
  shows "DCache_ok c' \<and> cfg c' = cfg c"
  using side_modify_ok [OF assms(1), of s "req_key D r" "\<lambda>i. i\<lparr>it_Freq := Freq_Update (c_duration c) (e_now e) (it_Freq i)\<rparr>"] assms
  by (auto simp: shouldPrefetch_def item_wf_bookkeeping Let_def split: if_splits)

lemma verify_stale_cases:
  assumes "verify_stale D e nxt r c = Some (a, outs, c', j)"
  shows "c' = c \<or> (\<exists>a' rf. doVerify D e (verify_writer D r c) nxt c = Some (a', rf, c'))"
proof (cases "doVerify D e (verify_writer D r c) nxt c")
  case None
  then show ?thesis using assms by (auto simp: verify_stale_def verifyWithTimeout_def split: if_splits)
next
  case (Some x)
  obtain rcode err ws rf c1 where x: "x = ((rcode, err, ws), rf, c1)" by (cases x) auto
  show ?thesis
    using assms Some unfolding verify_stale_def verifyWithTimeout_def x
    by (cases "cache_exists (req_key D r) c1") (auto split: if_splits)
qed

lemma verify_stale_ok:
  "DCache_ok c \<Longrightarrow> verify_stale D e nxt r c = Some (a, outs, c', j) \<Longrightarrow> DCache_ok c' \<and> cfg c' = cfg c"
  using verify_stale_cases doVerify_ok by blast

lemma serve_item_ok:
  assumes "DCache_ok c" and "serve_item D e nxt r s i c = Some (a, c', j)"
  shows "DCache_ok c' \<and> cfg c' = cfg c"
proof (cases "item_ttl i (e_now e) < 0")
  case True
  then obtain av outs c1 j1 where v: "verify_stale D e nxt r c = Some (av, outs, c1, j1)"
    using assms(2) by (cases "verify_stale D e nxt r c") (auto simp: serve_item_def)
  note c1 = verify_stale_ok [OF assms(1) v]
  have "c' = c1 \<or> (\<exists>now j'. tryPrefetch D r s i now c1 = (c', j'))"
    using assms(2) True v by (cases av) (auto simp: serve_item_def Let_def split: if_splits prod.splits)
  then show ?thesis using c1 tryPrefetch_ok by metis
next
  case False
  obtain b i' c1 where p: "shouldPrefetch D e r s i c = (b, i', c1)" by (cases "shouldPrefetch D e r s i c")
  note c1 = shouldPrefetch_ok [OF assms(1) p]
  have "c' = c1 \<or> (\<exists>now j'. tryPrefetch D r s i' now c1 = (c', j'))"
    using assms(2) False p by (auto simp: serve_item_def Let_def split: if_splits prod.splits)
  then show ?thesis using c1 tryPrefetch_ok by metis
qed

lemma Cache_ServeDNS_ok:
  assumes "DCache_ok c" and "Cache_ServeDNS D e nxt r c = Some (a, c', j)"
  shows "DCache_ok c' \<and> cfg c' = cfg c"
proof (cases "getIfNotStale D (e_now e) r c")
  case None
  then have "c' = c \<or> (\<exists>w a. doRefresh D e w nxt c = Some (a, c'))"
    using assms(2) by (auto simp: Cache_ServeDNS_def split: if_splits)
  then show ?thesis using assms(1) doRefresh_ok by blast
next
  case (Some p)
  then have "c' = c \<or> serve_item D e nxt r (fst p) (snd p) c = Some (a, c', j)"
    using assms(2) by (auto simp: Cache_ServeDNS_def split: if_splits prod.splits)
  then show ?thesis using assms(1) serve_item_ok by blast
qed

lemma doPrefetch_ok:
  assumes "DCache_ok c" and "doPrefetch D e nxt r b1 b2 s i now c = Some c'"
  shows "DCache_ok c' \<and> cfg c' = cfg c"
proof -
  obtain a c1 where c1: "doRefresh D e (newPrefetchResponseWriter r b1 b2) nxt c = Some (a, c1)"
    using assms(2) by (auto simp: doPrefetch_def Let_def split: option.splits)
  note ok1 = doRefresh_ok [OF assms(1) c1]
  have reset: "DCache_ok (side_modify s k (\<lambda>j. j\<lparr>it_Freq := g j\<rparr>) c1) \<and> cfg (side_modify s k (\<lambda>j. j\<lparr>it_Freq := g j\<rparr>) c1) = cfg c1" for s k g
    using side_modify_ok [of c1 s k "\<lambda>j. j\<lparr>it_Freq := g j\<rparr>"] ok1 by (simp add: item_wf_bookkeeping)
  have clear: "DCache_ok (side_modify s k (at_addr a (\<lambda>j. j\<lparr>it_refreshing := False\<rparr>)) c2)
      \<and> cfg (side_modify s k (at_addr a (\<lambda>j. j\<lparr>it_refreshing := False\<rparr>)) c2) = cfg c2" if "DCache_ok c2" for s k a c2
    using side_modify_ok [OF that, of s k "at_addr a (\<lambda>j. j\<lparr>it_refreshing := False\<rparr>)"] by (simp add: at_addr_def item_wf_bookkeeping)
  show ?thesis
    using assms(2) c1 ok1 reset clear by (auto simp: doPrefetch_def Let_def split: option.splits)
qed

lemma run_job_ok: "DCache_ok c \<Longrightarrow> run_job D e nxt j c = Some c' \<Longrightarrow> DCache_ok c' \<and> cfg c' = cfg c"
  by (cases j) (auto simp: run_job_def dest: doPrefetch_ok doVerify_ok)

section \<open>Executions\<close>

datatype cache_event = Ev_Query env "handler option" Msg | Ev_Job env "handler option" job

text \<open>Requests and background tasks in any order; \<open>None\<close> when one of them panics.\<close>

fun cache_exec :: "dnslib \<Rightarrow> cache_event list \<Rightarrow> DCache \<Rightarrow> DCache option" where
  "cache_exec D [] c = Some c"
| "cache_exec D (Ev_Query e nxt r # evs) c =
     (case Cache_ServeDNS D e nxt r c of None \<Rightarrow> None | Some (_, c', _) \<Rightarrow> cache_exec D evs c')"
| "cache_exec D (Ev_Job e nxt j # evs) c = (case run_job D e nxt j c of None \<Rightarrow> None | Some c' \<Rightarrow> cache_exec D evs c')"

lemma cache_exec_ok: "DCache_ok c \<Longrightarrow> cache_exec D evs c = Some c' \<Longrightarrow> DCache_ok c' \<and> cfg c' = cfg c"
proof (induction D evs c rule: cache_exec.induct)
  case (2 D e nxt r evs c)
  obtain a c1 j where s: "Cache_ServeDNS D e nxt r c = Some (a, c1, j)"
    using 2(3) by (cases "Cache_ServeDNS D e nxt r c") auto
  from 2 s Cache_ServeDNS_ok [OF 2(2) s] show ?case by simp
next
  case (3 D e nxt j evs c)
  obtain c1 where s: "run_job D e nxt j c = Some c1" using 3(3) by (cases "run_job D e nxt j c") auto
  from 3 s run_job_ok [OF 3(2) s] show ?case by simp
qed simp


section \<open>Replies from the cache\<close>

lemma item_ttl_le: "it_stored i \<le> now \<Longrightarrow> item_ttl i now \<le> uint (it_origTTL i)"
  using secs_sign(1) [of "now - it_stored i"] by (simp add: item_ttl_def)

lemma item_ttl_mono: "now \<le> now' \<Longrightarrow> item_ttl i now' \<le> item_ttl i now"
  using secs_mono [of "now - it_stored i" "now' - it_stored i"] by (simp add: item_ttl_def)

lemma item_ttl_stale:
  assumes "it_stored i \<le> now"
  shows "item_ttl i (now + item_ttl i now * second) = 0"
proof -
  let ?e = "now - it_stored i"
  let ?o = "uint (it_origTTL i)"
  have e: "0 \<le> ?e" using assms by simp
  have "now + item_ttl i now * second - it_stored i = ?e mod second + ?o * second"
    using e by (simp add: item_ttl_def secs_def algebra_simps minus_mult_div_eq_mod [symmetric])
  moreover have "secs (?e mod second + ?o * second) = ?o"
    using pos_mod_bound [of second ?e] pos_mod_sign [of second ?e] by (simp add: secs_def second_def)
  ultimately show ?thesis by (simp add: item_ttl_def)
qed

lemma uint_item_ttl:
  assumes "0 \<le> item_ttl i now" and "item_ttl i now \<le> uint (it_origTTL i)"
  shows "uint (of_int (item_ttl i now) :: u32) = item_ttl i now"
proof -
  have "uint (it_origTTL i) < 2 ^ 32" using uint_bounded [of "it_origTTL i"] by simp
  then show ?thesis using assms by (simp add: uint_word_of_int)
qed

lemma toMsg_sections:
  assumes "rr \<in> set (m_Answer (toMsg D i r now b1 b2) @ m_Ns (toMsg D i r now b1 b2) @ m_Extra (toMsg D i r now b1 b2))"
  shows "rr_Ttl rr = of_int (item_ttl i now)"
  using assms filterRRSlice_in [of rr] by (auto simp: toMsg_def Let_def)

lemma toMsg_reply: "SetReply_ok D \<Longrightarrow> reply_to r (toMsg D i r now b1 b2)"
  by (rule reply_to_SetReply) (simp_all add: toMsg_def Let_def)

lemma item_reply_freq [simp]: "item_reply D r (i\<lparr>it_Freq := f\<rparr>) now c = item_reply D r i now c"
  by (simp add: item_reply_def toMsg_def item_ttl_def Let_def)

lemma item_reply_cfg: "c_keepttl c = c_keepttl c' \<Longrightarrow> item_reply D r i now c = item_reply D r i now c'"
  by (simp add: item_reply_def)

lemma side_modify_keepttl [simp]: "c_keepttl (side_modify s k f c) = c_keepttl c"
  by (cases s) (simp_all add: side_modify_def)

text \<open>A hit without verification: the reply is made from the item, at the time that gives the remaining seconds or none.\<close>

lemma serve_item_reply:
  assumes "\<not> c_verifyStale c"
  shows "\<exists>c' j. serve_item D e nxt r s i c
    = Some ((RcodeSuccess, False, [item_reply D r i (if item_ttl i (e_now e) < 0 then e_now e + item_ttl i (e_now e) * second else e_now e) c]), c', j)"
proof (cases "item_ttl i (e_now e) < 0")
  case True
  then show ?thesis using assms
    by (auto simp: serve_item_def verify_stale_def Let_def tryPrefetch_def intro: item_reply_cfg)
next
  case False
  then show ?thesis
    by (auto simp: serve_item_def shouldPrefetch_def tryPrefetch_def Let_def split_beta intro!: item_reply_cfg
        trans [OF item_reply_cfg item_reply_freq])
qed

lemma Cache_hit:
  assumes "Zones_Matches D (c_Zones c) (req_Name D r) \<noteq> ''''" and "getIfNotStale D (e_now e) r c = Some (s, i)"
  shows "Cache_ServeDNS D e nxt r c = serve_item D e nxt r s i c"
  using assms by (simp add: Cache_ServeDNS_def)

lemma getIfNotStale_Some:
  "getIfNotStale D now r c = Some (s, i) \<Longrightarrow> side_get s (req_key D r) c = Some i \<and> usable D c now r i"
  by (auto simp: getIfNotStale_def side_usable_def split: option.splits if_splits)

text \<open>C16: Replies from the cache are for the question that was asked and do not outlive what was stored. Unless stale items are to be verified
  first, a hit is answered at once with one reply; its item has the type and, up to case, the name of the question; no record has
  a longer time to live than the configured bound; and, unless the original times are to be kept, every record has exactly the seconds
  that remain, none if the item is stale.\<close>

theorem cached_reply_bounded:
  assumes "DCache_ok c" and "SetReply_ok D" and "\<not> c_verifyStale c" and "Zones_Matches D (c_Zones c) (req_Name D r) \<noteq> ''''"
    and "getIfNotStale D (e_now e) r c = Some (s, i)" and "it_stored i \<le> e_now e"
  shows "\<exists>m c' j. Cache_ServeDNS D e nxt r c = Some ((RcodeSuccess, False, [m]), c', j) \<and> reply_to r m
    \<and> it_QType i = req_QType r \<and> ToLower (it_Name i) = ToLower (req_QName D r)
    \<and> (\<forall>rr \<in> set (m_Answer m @ m_Ns m @ m_Extra m). uint (rr_Ttl rr) \<le> cap s c
         \<and> (\<not> c_keepttl c \<longrightarrow> uint (rr_Ttl rr) = max 0 (item_ttl i (e_now e))))"
proof -
  let ?ttl = "item_ttl i (e_now e)"
  let ?now = "if ?ttl < 0 then e_now e + ?ttl * second else e_now e"
  let ?m = "item_reply D r i ?now c"
  note got = getIfNotStale_Some [OF assms(5)]
  have within: "uint (it_origTTL i) \<le> cap s c" using DCache_ok_get [OF assms(1)] got unfolding item_wf_def by blast
  have ttl: "item_ttl i ?now = max 0 ?ttl" using item_ttl_stale [OF assms(6)] by auto
  have le: "max 0 ?ttl \<le> uint (it_origTTL i)" using item_ttl_le [OF assms(6)] by simp
  have keep: "item_ttl i (it_stored i) = uint (it_origTTL i)" by (simp add: item_ttl_def secs_def)
  have "uint (rr_Ttl rr) \<le> cap s c \<and> (\<not> c_keepttl c \<longrightarrow> uint (rr_Ttl rr) = max 0 ?ttl)"
    if mem: "rr \<in> set (m_Answer ?m @ m_Ns ?m @ m_Extra ?m)" for rr
  proof (cases "c_keepttl c")
    case True
    then have "rr_Ttl rr = of_int (item_ttl i (it_stored i))" using mem toMsg_sections by (simp add: item_reply_def)
    then have "uint (rr_Ttl rr) = uint (it_origTTL i)" using uint_item_ttl [of i "it_stored i"] keep by simp
    then show ?thesis using True within by simp
  next
    case False
    then have "rr_Ttl rr = of_int (item_ttl i ?now)" using mem toMsg_sections by (simp add: item_reply_def)
    then have "uint (rr_Ttl rr) = max 0 ?ttl" using uint_item_ttl [of i ?now] ttl le by simp
    then show ?thesis using le within by linarith
  qed
  moreover have "reply_to r ?m" using toMsg_reply [OF assms(2)] by (simp add: item_reply_def)
  moreover have "it_QType i = req_QType r" "ToLower (it_Name i) = ToLower (req_QName D r)"
    using got by (simp_all add: usable_def item_matches_def EqualFold_def)
  moreover obtain c' j where "Cache_ServeDNS D e nxt r c = Some ((RcodeSuccess, False, [?m]), c', j)"
    unfolding Cache_hit [OF assms(4,5)] using serve_item_reply [OF assms(3), of D e nxt r s i] by blast
  ultimately show ?thesis by blast
qed

section \<open>The protocol\<close>

lemma cache_writes_reply:
  assumes "reply_to r m" and "m_Question r \<noteq> []" and "\<not> w_prefetch w"
  shows "\<exists>m' c'. cache_writes D e w [m] c = Some ([m'], c') \<and> reply_to r m'"
proof -
  have "m_Question m \<noteq> []" using assms(1,2) by (simp add: reply_to_def)
  from cache_WriteMsg_total [OF this, of D e w c] show ?thesis using assms by (auto simp: reply_to_def)
qed

lemma doRefresh_protocol:
  assumes "obeys_protocol r (NextOrFailure nxt r)" and "m_Question r \<noteq> []" and "w_req w = r" and "\<not> w_prefetch w"
  shows "obeys_protocol r (map_option fst (doRefresh D e w nxt c))"
proof -
  obtain rcode err ws where nx: "NextOrFailure nxt r = Some (rcode, err, ws)" "length ws = (if ClientWrite rcode then 1 else 0)"
      "\<forall>m \<in> set ws. reply_to r m" using assms(1) by (auto simp: obeys_protocol_def)
  show ?thesis
  proof (cases "ClientWrite rcode")
    case True
    then obtain m where ws: "ws = [m]" using nx(2) by (auto simp: length_Suc_conv)
    then obtain m' c' where "cache_writes D e w [m] c = Some ([m'], c')" "reply_to r m'"
      using cache_writes_reply [OF _ assms(2,4), of m D e c] nx(3) by auto
    then show ?thesis using nx(1) ws True assms(3) by (simp add: doRefresh_def obeys_written del: cache_writes.simps)
  next
    case False
    then show ?thesis using nx assms(3) by (simp add: doRefresh_def obeys_left)
  qed
qed

text \<open>A verification of one request: the message that comes out if any, and that an item under the key stays there.\<close>

lemma doVerify_protocol:
  assumes "obeys_protocol r (NextOrFailure nxt r)" and "m_Question r \<noteq> []" and "DCache_ok c" and "cache_exists (req_key D r) c \<noteq> None"
    and "w_req w = r" and "w_do w = req_Do D r" and "w_cd w = m_CheckingDisabled r"
  shows "\<exists>rcode err outs rf c'. doVerify D e w nxt c = Some ((rcode, err, outs), rf, c') \<and> cache_exists (req_key D r) c' \<noteq> None
    \<and> (if rf \<and> \<not> w_prefetch w then ClientWrite rcode \<and> (\<exists>m. outs = [m] \<and> reply_to r m) else outs = [])"
proof -
  obtain rcode err ws where nx: "NextOrFailure nxt r = Some (rcode, err, ws)" "length ws = (if ClientWrite rcode then 1 else 0)"
      "\<forall>m \<in> set ws. reply_to r m" using assms(1) by (auto simp: obeys_protocol_def)
  show ?thesis
  proof (cases "\<exists>m. ws = [m] \<and> (m_Rcode m = RcodeSuccess \<or> m_Rcode m = RcodeNameError)")
    case True
    then obtain m where m: "ws = [m]" "m_Rcode m = RcodeSuccess \<or> m_Rcode m = RcodeNameError" by blast
    then have rep: "reply_to r m" "ClientWrite rcode" using nx(2,3) by (auto split: if_splits)
    then have "m_Question m \<noteq> []" using assms(2) by (simp add: reply_to_def)
    then obtain m' c' where w: "cache_WriteMsg D e w m c = Some (if w_prefetch w then [] else [m'], c')" "reply_to r m'"
      using cache_WriteMsg_total [of m D e w c] rep(1) by (auto simp: reply_to_def)
    have "cache_exists (req_key D r) c' \<noteq> None" by (rule cache_WriteMsg_exists [OF assms(3) w(1) assms(5-7,4)])
    then show ?thesis using nx(1) m w rep(2) assms(5) by (auto simp: doVerify_def)
  next
    case False
    then have "verify_writes D e w ws False c = Some ([], False, c)"
      using nx(2) by (cases ws) (auto split: if_splits)
    then show ?thesis using nx(1) assms(4,5) by (auto simp: doVerify_def)
  qed
qed

lemma verify_stale_protocol:
  assumes "obeys_protocol r (NextOrFailure nxt r)" and "m_Question r \<noteq> []" and "DCache_ok c" and "cache_exists (req_key D r) c \<noteq> None"
    and "SetReply_ok D" and "0 \<le> c_verifyStaleTimeout c"
  shows "\<exists>a c' j. verify_stale D e nxt r c = Some (a, [], c', j) \<and> (\<forall>x. a = Some x \<longrightarrow> obeys_protocol r (Some x))"
proof -
  let ?w = "verify_writer D r c"
  obtain rcode err outs rf c' where v: "doVerify D e ?w nxt c = Some ((rcode, err, outs), rf, c')" "cache_exists (req_key D r) c' \<noteq> None"
    and outs: "if rf \<and> \<not> w_prefetch ?w then ClientWrite rcode \<and> (\<exists>m. outs = [m] \<and> reply_to r m) else outs = []"
    using doVerify_protocol [OF assms(1-4), of ?w e] by (auto simp: verify_writer_def)
  obtain s fresh where fresh: "cache_exists (req_key D r) c' = Some (s, fresh)" using v(2) by auto
  have rep: "reply_to r (item_reply D r fresh now c')" for now using toMsg_reply [OF assms(5)] by (simp add: item_reply_def)
  have pf: "w_prefetch ?w \<longleftrightarrow> c_verifyStaleTimeout c \<noteq> 0" using assms(6) by (auto simp: verify_writer_def)
  consider "\<not> c_verifyStale c" | "c_verifyStale c" "c_verifyStaleTimeout c = 0" | "c_verifyStale c" "c_verifyStaleTimeout c \<noteq> 0" "\<not> e_timely e"
    | "c_verifyStale c" "c_verifyStaleTimeout c \<noteq> 0" "e_timely e" by blast
  then show ?thesis
  proof cases
    case 2
    then show ?thesis using v(1) outs pf by (cases rf) (auto simp: verify_stale_def obeys_written)
  next
    case 4
    then have "outs = []" using outs pf by simp
    then show ?thesis
      using 4 v(1) fresh rep by (cases rf) (simp_all add: verify_stale_def verifyWithTimeout_def obeys_written)
  qed (simp_all add: verify_stale_def verifyWithTimeout_def)
qed

lemma serve_item_protocol:
  assumes "obeys_protocol r (NextOrFailure nxt r)" and "m_Question r \<noteq> []" and "DCache_ok c" and "side_get s (req_key D r) c = Some i"
    and "SetReply_ok D" and "0 \<le> c_verifyStaleTimeout c"
  shows "obeys_protocol r (map_option fst (serve_item D e nxt r s i c))"
proof -
  have ex: "cache_exists (req_key D r) c \<noteq> None"
    using assms(4) by (cases s) (auto simp: cache_exists_def side_get_def split: option.split)
  obtain a c1 j where v: "verify_stale D e nxt r c = Some (a, [], c1, j)" "\<And>x. a = Some x \<Longrightarrow> obeys_protocol r (Some x)"
    using verify_stale_protocol [OF assms(1-3) ex assms(5,6), of e] by blast
  have rep: "obeys_protocol r (Some (RcodeSuccess, False, [item_reply D r i' now c']))" for i' now c'
    using toMsg_reply [OF assms(5)] by (simp add: item_reply_def obeys_written)
  show ?thesis
  proof (cases "item_ttl i (e_now e) < 0")
    case True
    then show ?thesis using v rep by (cases a) (simp_all add: serve_item_def Let_def split_beta)
  next
    case False
    then show ?thesis using rep by (simp add: serve_item_def Let_def split_beta)
  qed
qed

lemma Cache_protocol:
  assumes "obeys_protocol r (NextOrFailure nxt r)" and "m_Question r \<noteq> []" and "DCache_ok c" and "SetReply_ok D"
    and "0 \<le> c_verifyStaleTimeout c"
  shows "obeys_protocol r (map_option fst (Cache_ServeDNS D e nxt r c))"
proof -
  consider "Zones_Matches D (c_Zones c) (req_Name D r) = ''''"
    | "Zones_Matches D (c_Zones c) (req_Name D r) \<noteq> ''''" "getIfNotStale D (e_now e) r c = None"
    | s i where "Zones_Matches D (c_Zones c) (req_Name D r) \<noteq> ''''" "getIfNotStale D (e_now e) r c = Some (s, i)"
    by (cases "getIfNotStale D (e_now e) r c") auto
  then show ?thesis
  proof cases
    case 1
    then show ?thesis using assms(1) by (simp add: Cache_ServeDNS_def option.map_comp comp_def option.map_ident)
  next
    case 2
    let ?w = "miss_writer D e r c"
    have "map_option fst (Cache_ServeDNS D e nxt r c) = map_option fst (doRefresh D e ?w nxt c)"
      using 2 by (simp add: Cache_ServeDNS_def option.map_comp comp_def split_beta)
    then show ?thesis using doRefresh_protocol [OF assms(1,2), of ?w D e c] by (simp add: miss_writer_def)
  next
    case 3
    then show ?thesis
      using serve_item_protocol [OF assms(1-3) _ assms(4,5)] getIfNotStale_Some [OF 3(2)] by (simp add: Cache_hit)
  qed
qed

interpretation cache_link: plugin_link
  "\<lambda>(D, e, c) nxt r. map_option fst (Cache_ServeDNS D e nxt r c)" "\<lambda>(D, e, c). SetReply_ok D \<and> DCache_ok c \<and> 0 \<le> c_verifyStaleTimeout c"
  by unfold_locales (auto simp: is_query_def intro!: Cache_protocol NextOrFailure_protocol)

section \<open>A stored reply comes back\<close>

lemma filterRRSlice_again [simp]: "filterRRSlice (filterRRSlice rrs a) b = filterRRSlice rrs b"
  by (induction rrs) (auto simp: filterRRSlice_def)

lemma filterRRSlice_filter [simp]: "filterRRSlice (filter (\<lambda>r. rr_Type r \<noteq> TypeOPT) rrs) a = filterRRSlice rrs a"
  by (simp add: filterRRSlice_def)

lemma usable_later: "now \<le> now' \<Longrightarrow> \<not> usable D c now r i \<Longrightarrow> \<not> usable D c now' r i"
  using item_ttl_mono [of now now' i] by (auto simp: usable_def)

lemma usable_cfg: "c_staleUpTo c = c_staleUpTo c' \<Longrightarrow> usable D c now r i = usable D c' now r i"
  by (simp add: usable_def)

lemma req_Match_type: "req_Match D r m \<Longrightarrow> \<exists>q. m_Question m = [q] \<and> q_Type q = req_QType r \<and> ToLower (q_Name q) = req_Name D r"
  by (auto simp: req_Match_def split: list.splits)

lemma ToLower_QName: "m_Question r \<noteq> [] \<Longrightarrow> ToLower (req_QName D r) = req_Name D r"
  by (cases "m_Question r") (simp_all add: req_QName_def req_Name_def)

text \<open>A request that misses, and a success to store: what the caches hold afterwards.\<close>

lemma Cache_miss_store:
  fixes D e r c m
  defines "d \<equiv> reply_duration c m R_NoError"
  assumes "DCache_ok c" and "Zones_Matches D (c_Zones c) (req_Name D r) \<noteq> ''''" and "getIfNotStale D (e_now e) r c = None"
    and "NextOrFailure nxt r = Some (rcode, err, [m])" and "Typify D (Some m) (e_done e) = R_NoError" and "\<not> m_Truncated m"
    and "req_Match D r m" and "0 < d" and "Zones_Matches D (c_pexcept c) (q_Name (hd (m_Question m))) = ''''"
  shows "\<exists>c' i. Cache_ServeDNS D e nxt r c = Some ((rcode, err, [capped (miss_writer D e r c) m d]), c', None)
    \<and> cfg c' = cfg c \<and> c_ncache c' = c_ncache c \<and> side_get Positive (req_key D r) c' = Some i
    \<and> i = (newItem (c_allocs c) (capped (miss_writer D e r c) m d) (e_done e) d)\<lparr>it_wildcard := e_wildcard e\<rparr>"
proof -
  let ?w = "miss_writer D e r c"
  obtain q where q: "m_Question m = [q]" "q_Type q = req_QType r" using req_Match_type [OF assms(8)] by blast
  have key: "cache_key (req_Name D r) m R_NoError (req_Do D r) (m_CheckingDisabled r) = Some (Some (req_key D r))"
    using q assms(7) by (simp add: cache_key_def req_key_def)
  have match: "req_Match D r (capped ?w m d)" using assms(8) q(1) by (simp add: req_Match_def)
  let ?i = "(newItem (c_allocs c) (capped ?w m d) (e_done e) d)\<lparr>it_wildcard := e_wildcard e\<rparr>"
  let ?c = "cache_store Positive (e_victim e (c_allocs c)) (req_key D r) ?i c"
  have "cache_set D e ?w (capped ?w m d) (req_key D r) R_NoError d c = ?c"
    using assms(10) q(1) by (simp add: cache_set_def Let_def miss_writer_def)
  then have "cache_WriteMsg D e ?w m c = Some ([capped ?w m d], ?c)"
    using key match assms(6,9) unfolding cache_WriteMsg_def Let_def d_def by (simp add: miss_writer_def)
  then have "Cache_ServeDNS D e nxt r c = Some ((rcode, err, [capped ?w m d]), ?c, None)"
    using assms(3-5) by (simp add: Cache_ServeDNS_def doRefresh_def miss_writer_def)
  moreover have "cfg ?c = cfg c" "c_ncache ?c = c_ncache c" by (simp_all add: cache_store_def)
  moreover have "side_get Positive (req_key D r) ?c = Some ?i"
    using DCache_caches(2) [OF assms(2)] by (simp add: side_get_def cache_store_def Cache_Add_get(1))
  ultimately show ?thesis by blast
qed

text \<open>C14: Caching does not change answers. A request misses, the plugin behind answers with a success that may be stored. The same request,
  asked again before the time has run out, is answered from the cache, without the plugin behind, with the same code and the same records
  in every section but for OPT records; their time to live is what remains.\<close>

theorem cache_returns_stored:
  fixes D e r c m
  defines "d \<equiv> reply_duration c m R_NoError"
  assumes "DCache_ok c" and "SetReply_ok D" and "\<not> c_verifyStale c" and "\<not> c_keepttl c"
    and "Zones_Matches D (c_Zones c) (req_Name D r) \<noteq> ''''" and "getIfNotStale D (e_now e) r c = None"
    and "NextOrFailure nxt r = Some (rcode, err, [m])" and "Typify D (Some m) (e_done e) = R_NoError" and "\<not> m_Truncated m"
    and "req_Match D r m" and "m_Question r \<noteq> []" and "0 < d" and "secs d < 2 ^ 32" and "Zones_Matches D (c_pexcept c) (q_Name (hd (m_Question m))) = ''''"
    and "e_now e \<le> e_done e" and "e_done e \<le> e_now e'" and "secs (e_now e' - e_done e) < secs d"
  shows "\<exists>m1 c1 m2 c2 j. Cache_ServeDNS D e nxt r c = Some ((rcode, err, [m1]), c1, None)
    \<and> Cache_ServeDNS D e' nxt' r c1 = Some ((RcodeSuccess, False, [m2]), c2, j) \<and> reply_to r m2 \<and> m_Rcode m2 = m_Rcode m
    \<and> (let ttl = of_int (secs d - secs (e_now e' - e_done e)) in
         m_Answer m2 = filterRRSlice (m_Answer m) ttl \<and> m_Ns m2 = filterRRSlice (m_Ns m) ttl \<and> m_Extra m2 = filterRRSlice (m_Extra m) ttl)"
proof -
  let ?m1 = "capped (miss_writer D e r c) m d"
  let ?i = "(newItem (c_allocs c) ?m1 (e_done e) d)\<lparr>it_wildcard := e_wildcard e\<rparr>"
  obtain c1 where c1: "Cache_ServeDNS D e nxt r c = Some ((rcode, err, [?m1]), c1, None)" "cfg c1 = cfg c" "c_ncache c1 = c_ncache c"
      "side_get Positive (req_key D r) c1 = Some ?i"
    using Cache_miss_store [OF assms(2,6-11) assms(13)[unfolded d_def] assms(15), folded d_def] by blast
  note f = cfg_fields [OF c1(2)]
  have "0 \<le> secs d" using assms(13) by (intro secs_sign(1)) simp
  then have ttl: "item_ttl ?i (e_now e') = secs d - secs (e_now e' - e_done e)"
    using assms(14) by (simp add: item_ttl_def newItem_def uint_word_of_int)
  obtain q where q: "m_Question m = [q]" "q_Type q = req_QType r" "ToLower (q_Name q) = req_Name D r" using req_Match_type [OF assms(11)] by blast
  then have "item_matches D ?i r" using ToLower_QName [OF assms(12), of D] by (simp add: item_matches_def newItem_def EqualFold_def)
  then have "usable D c1 (e_now e') r ?i" using ttl assms(18) by (simp add: usable_def)
  then have pos: "side_usable D Positive (e_now e') r c1 = Some (Positive, ?i)" using c1(4) by (simp add: side_usable_def)
  have "side_usable D Negative (e_now e) r c = None" using assms(7) by (auto simp: getIfNotStale_def split: option.splits if_splits)
  then have "\<not> usable D c (e_now e) r i" if "side_get Negative (req_key D r) c = Some i" for i
    using that by (simp add: side_usable_def split: if_splits)
  then have "\<not> usable D c1 (e_now e') r i" if "side_get Negative (req_key D r) c1 = Some i" for i
    using that usable_later [of "e_now e" "e_now e'" D c r i] assms(16,17) usable_cfg [OF f(4)] c1(3) by (simp add: side_get_def)
  then have "side_usable D Negative (e_now e') r c1 = None" by (simp add: side_usable_def split: option.split)
  then have got: "getIfNotStale D (e_now e') r c1 = Some (Positive, ?i)" using pos by (simp add: getIfNotStale_def)
  have zone: "Zones_Matches D (c_Zones c1) (req_Name D r) \<noteq> ''''" using assms(6) f(7) by simp
  let ?m2 = "item_reply D r ?i (e_now e') c1"
  obtain c2 j where "Cache_ServeDNS D e' nxt' r c1 = Some ((RcodeSuccess, False, [?m2]), c2, j)"
    unfolding Cache_hit [OF zone got] using serve_item_reply [of c1 D e' nxt' r Positive ?i] assms(4,18) f(6) ttl by auto
  moreover have "reply_to r ?m2" using toMsg_reply [OF assms(3)] by (simp add: item_reply_def)
  moreover have "m_Rcode ?m2 = m_Rcode m" by (simp add: item_reply_def toMsg_def newItem_def Let_def)
  moreover have "m_Answer ?m2 = filterRRSlice (m_Answer m) (of_int (secs d - secs (e_now e' - e_done e)))"
    "m_Ns ?m2 = filterRRSlice (m_Ns m) (of_int (secs d - secs (e_now e' - e_done e)))"
    "m_Extra ?m2 = filterRRSlice (m_Extra m) (of_int (secs d - secs (e_now e' - e_done e)))"
    using assms(5) f(5) by (simp_all add: item_reply_def toMsg_def Let_def ttl del: of_int_diff) (simp_all add: newItem_def capped_def Let_def)
  ultimately show ?thesis using c1(1) unfolding Let_def by blast
qed

section \<open>Examples\<close>

definition ex_env :: "time \<Rightarrow> env" where
  "ex_env t = \<lparr>e_now = t, e_done = t, e_victim = (\<lambda>_. 0), e_wildcard = '''', e_threshold = (\<lambda>_ _. 0), e_timely = True\<rparr>"

definition ex_ask :: Msg where
  "ex_ask = new_Msg\<lparr>m_Id := 9, m_Question := [\<lparr>q_Name = ''a.'', q_Type = TypeA, q_Class = 1\<rparr>]\<rparr>"

definition ex_upstream :: handler where
  "ex_upstream r = Some (RcodeSuccess, False, [(SetReply plain_lib r)\<lparr>m_Answer :=
     [\<lparr>rr_Name = ''a.'', rr_Type = TypeA, rr_Class = 1, rr_Ttl = 60, rr_data = RD_A [10, 0, 0, 1]\<rparr>]\<rparr>])"

definition ex_reply :: Msg where
  "ex_reply = (SetReply plain_lib ex_ask)\<lparr>m_Answer :=
     [\<lparr>rr_Name = ''a.'', rr_Type = TypeA, rr_Class = 1, rr_Ttl = 60, rr_data = RD_A [10, 0, 0, 1]\<rparr>]\<rparr>"

lemma Cache_New_empty [simp]: "Cache_Get k (Cache_New sz) = None"
  by (simp add: Cache_Get_def shard_Get_def Cache_New_shards newShard_def)

lemma ex_config [simp]:
  "c_Zones DCache_New = [''.'']" "c_pexcept DCache_New = []" "\<not> c_verifyStale DCache_New" "c_prefetch DCache_New = 0"
  "\<not> c_keepttl DCache_New" "c_allocs DCache_New = 0" "e_now (ex_env t) = t" "e_done (ex_env t) = t" "e_wildcard (ex_env t) = ''''"
  by (simp_all add: DCache_New_def ex_env_def)

lemma ex_cache_miss: "getIfNotStale D now r DCache_New = None"
  by (simp add: getIfNotStale_def side_usable_def side_get_def DCache_New_def)

lemma ex_cache_facts:
  "Zones_Matches plain_lib [''.''] (req_Name plain_lib ex_ask) \<noteq> ''''"
  "NextOrFailure (Some ex_upstream) ex_ask = Some (RcodeSuccess, False, [ex_reply])"
  "Typify plain_lib (Some ex_reply) 0 = R_NoError" "\<not> m_Truncated ex_reply" "req_Match plain_lib ex_ask ex_reply" "m_Question ex_ask \<noteq> []"
  "Zones_Matches plain_lib [] (q_Name (hd (m_Question ex_reply))) = ''''"
  "MinimalTTL ex_reply R_NoError = 60 * second"
  by code_simp+

lemma ex_cache_duration: "reply_duration DCache_New ex_reply R_NoError = 60 * second"
  using ex_cache_facts(8)
  by (simp add: reply_duration_def computeTTL_def DCache_New_def MinimalDefaultTTL_def MaximumDefaultTTL_def second_def)

theorem cache_returns_stored_witness:
  "\<exists>m1 c1 m2 c2 j. Cache_ServeDNS plain_lib (ex_env 0) (Some ex_upstream) ex_ask DCache_New = Some ((RcodeSuccess, False, [m1]), c1, None)
    \<and> Cache_ServeDNS plain_lib (ex_env (10 * second)) None ex_ask c1 = Some ((RcodeSuccess, False, [m2]), c2, j)
    \<and> m_Answer m2 = filterRRSlice (m_Answer ex_reply) 50"
proof -
  have "\<exists>m1 c1 m2 c2 j. Cache_ServeDNS plain_lib (ex_env 0) (Some ex_upstream) ex_ask DCache_New = Some ((RcodeSuccess, False, [m1]), c1, None)
    \<and> Cache_ServeDNS plain_lib (ex_env (10 * second)) None ex_ask c1 = Some ((RcodeSuccess, False, [m2]), c2, j) \<and> reply_to ex_ask m2
    \<and> m_Rcode m2 = m_Rcode ex_reply
    \<and> (let ttl = of_int (secs (reply_duration DCache_New ex_reply R_NoError) - secs (e_now (ex_env (10 * second)) - e_done (ex_env 0))) in
         m_Answer m2 = filterRRSlice (m_Answer ex_reply) ttl \<and> m_Ns m2 = filterRRSlice (m_Ns ex_reply) ttl
         \<and> m_Extra m2 = filterRRSlice (m_Extra ex_reply) ttl)"
    by (rule cache_returns_stored [OF DCache_New_ok plain_SetReply_ok _ _ _ ex_cache_miss ex_cache_facts(2) _ ex_cache_facts(4-6)])
      (use ex_cache_facts(1,3,7) in \<open>simp_all add: ex_cache_duration\<close>, simp_all add: second_def)
  then show ?thesis by (auto simp: ex_cache_duration)
qed

text \<open>The cache after the example request.\<close>

lemma ex_cache_stored:
  "\<exists>a c1 j i. Cache_ServeDNS plain_lib (ex_env 0) (Some ex_upstream) ex_ask DCache_New = Some (a, c1, j) \<and> DCache_ok c1 \<and> cfg c1 = cfg DCache_New
    \<and> side_get Positive (req_key plain_lib ex_ask) c1 = Some i \<and> it_stored i = 0 \<and> it_origTTL i = 60
    \<and> getIfNotStale plain_lib (10 * second) ex_ask c1 = Some (Positive, i)"
proof -
  obtain c1 i where c1: "Cache_ServeDNS plain_lib (ex_env 0) (Some ex_upstream) ex_ask DCache_New
        = Some ((RcodeSuccess, False, [capped (miss_writer plain_lib (ex_env 0) ex_ask DCache_New) ex_reply (60 * second)]), c1, None)"
      "cfg c1 = cfg DCache_New" "c_ncache c1 = c_ncache DCache_New" "side_get Positive (req_key plain_lib ex_ask) c1 = Some i"
      "i = (newItem (c_allocs DCache_New) (capped (miss_writer plain_lib (ex_env 0) ex_ask DCache_New) ex_reply (60 * second)) 0 (60 * second))
         \<lparr>it_wildcard := ''''\<rparr>"
    using Cache_miss_store [OF DCache_New_ok _ ex_cache_miss ex_cache_facts(2) _ ex_cache_facts(4,5), of "ex_env 0"] ex_cache_facts(1,3,7)
    by (auto simp: ex_cache_duration second_def)
  have i: "it_stored i = 0" "it_origTTL i = 60" "it_Name i = ''a.''" "it_QType i = TypeA"
    unfolding c1(5) by (simp_all add: newItem_def ex_reply_def plain_lib_def plain_reply_def ex_ask_def)
  have "item_ttl i (10 * second) = 50" by (simp add: item_ttl_def i)
  moreover have "req_QType ex_ask = TypeA" "EqualFold (req_QName plain_lib ex_ask) ''a.''" by code_simp+
  ultimately have "usable plain_lib c1 (10 * second) ex_ask i" by (simp add: usable_def item_matches_def i)
  then have "getIfNotStale plain_lib (10 * second) ex_ask c1 = Some (Positive, i)"
    using c1(3,4) by (simp add: getIfNotStale_def side_usable_def side_get_def [of Negative] DCache_New_def)
  then show ?thesis using c1 i Cache_ServeDNS_ok [OF DCache_New_ok c1(1)] by blast
qed

theorem cached_reply_bounded_witness:
  "\<exists>c1 m c2 j. DCache_ok c1 \<and> Cache_ServeDNS plain_lib (ex_env (10 * second)) None ex_ask c1 = Some ((RcodeSuccess, False, [m]), c2, j)
    \<and> reply_to ex_ask m \<and> (\<forall>rr \<in> set (m_Answer m). uint (rr_Ttl rr) = 50)"
proof -
  obtain c1 i where c1: "DCache_ok c1" "cfg c1 = cfg DCache_New" "it_stored i = 0" "it_origTTL i = 60"
      "getIfNotStale plain_lib (10 * second) ex_ask c1 = Some (Positive, i)" using ex_cache_stored by blast
  note f = cfg_fields [OF c1(2)]
  have "\<not> c_verifyStale c1" "\<not> c_keepttl c1" "Zones_Matches plain_lib (c_Zones c1) (req_Name plain_lib ex_ask) \<noteq> ''''"
    using f ex_cache_facts(1) by simp_all
  moreover have "item_ttl i (10 * second) = 50" by (simp add: item_ttl_def c1(3,4))
  ultimately show ?thesis
    using cached_reply_bounded [OF c1(1) plain_SetReply_ok, of ex_ask "ex_env (10 * second)" Positive i None] c1
    by (fastforce simp: second_def)
qed


section \<open>Departures\<close>

text \<open>
  A verification in time whose reply is a success that may not be stored, such as a truncated one, is answered with the stale item it was meant
  to replace, and the negative remaining time becomes one of more than 68 years.
\<close>

theorem verified_stale_ttl_wraps:
  assumes "c_verifyStale c" and "0 < c_verifyStaleTimeout c" and "e_timely e" and "\<not> c_keepttl c"
    and "Zones_Matches D (c_Zones c) (req_Name D r) \<noteq> ''''" and "getIfNotStale D (e_now e) r c = Some (s, i)"
    and "cache_exists (req_key D r) c = Some (s, i)" and "item_ttl i (e_now e) < 0" and "- (2 ^ 31) \<le> item_ttl i (e_done e)" and "item_ttl i (e_done e) < 0"
    and "NextOrFailure nxt r = Some (rcode, err, [m])" and "m_Rcode m = RcodeSuccess" and "m_Truncated m"
  shows "\<exists>reply c' j ttl. Cache_ServeDNS D e nxt r c = Some ((RcodeSuccess, False, [reply]), c', j)
    \<and> m_Answer reply = filterRRSlice (it_Answer i) ttl \<and> 2 ^ 31 \<le> uint ttl"
proof -
  have "cache_WriteMsg D e (verify_writer D r c) m c = Some ([], c)"
    using assms(2,13) by (simp add: cache_WriteMsg_def cache_key_def verify_writer_def Let_def)
  then have "doVerify D e (verify_writer D r c) nxt c = Some ((rcode, err, []), True, c)"
    using assms(11,12) by (simp add: doVerify_def verify_writer_def)
  then have "serve_item D e nxt r s i c = Some ((RcodeSuccess, False, [item_reply D r i (e_done e) c]), c, None)"
    using assms(1-3,7,8) by (simp add: serve_item_def verify_stale_def verifyWithTimeout_def)
  moreover have "m_Answer (item_reply D r i (e_done e) c) = filterRRSlice (it_Answer i) (of_int (item_ttl i (e_done e)))"
    using assms(4) by (simp add: item_reply_def toMsg_def Let_def)
  moreover have "2 ^ 31 \<le> uint (of_int (item_ttl i (e_done e)) :: u32)"
  proof -
    have "item_ttl i (e_done e) mod 2 ^ 32 = item_ttl i (e_done e) + 2 ^ 32"
      using assms(9,10) by (subst mod_add_self2 [symmetric]) (rule mod_pos_pos_trivial, simp_all)
    then show ?thesis using assms(9) by (simp add: uint_word_of_int)
  qed
  ultimately show ?thesis using Cache_hit [OF assms(5,6)] by metis
qed

text \<open>A prefetch stores denials in zones for which the configuration forbids it: its writer has no exceptions.\<close>

theorem prefetch_ignores_exceptions:
  assumes "DCache_ok c" and "Zones_Matches D (c_nexcept c) (req_Name D r) \<noteq> ''''" and "NextOrFailure nxt r = Some (rcode, err, [m])"
    and "Typify D (Some m) (e_done e) = R_NameError" and "\<not> m_Truncated m" and "req_Match D r m" and "0 < reply_duration c m R_NameError"
  shows "\<exists>a c'. doRefresh D e (newPrefetchResponseWriter r (req_Do D r) (m_CheckingDisabled r)) nxt c = Some (a, c')
    \<and> side_get Negative (req_key D r) c' \<noteq> None"
proof -
  let ?w = "newPrefetchResponseWriter r (req_Do D r) (m_CheckingDisabled r)"
  let ?d = "reply_duration c m R_NameError"
  obtain q where q: "m_Question m = [q]" "q_Type q = req_QType r" using req_Match_type [OF assms(6)] by blast
  have key: "cache_key (req_Name D r) m R_NameError (req_Do D r) (m_CheckingDisabled r) = Some (Some (req_key D r))"
    using q assms(5) by (simp add: cache_key_def req_key_def)
  have match: "req_Match D r (capped ?w m ?d)" using assms(6) q(1) by (simp add: req_Match_def)
  let ?c = "cache_set D e ?w (capped ?w m ?d) (req_key D r) R_NameError ?d c"
  have "cache_WriteMsg D e ?w m c = Some ([], ?c)"
    using key match assms(4,7) unfolding cache_WriteMsg_def Let_def by (simp add: newPrefetchResponseWriter_def)
  then have "doRefresh D e ?w nxt c = Some ((rcode, err, []), ?c)"
    using assms(3) by (simp add: doRefresh_def newPrefetchResponseWriter_def)
  moreover have "side_get Negative (req_key D r) ?c \<noteq> None"
    using DCache_caches(1) [OF assms(1)]
    by (simp add: cache_set_def Let_def newPrefetchResponseWriter_def Zones_Matches_def side_get_def cache_store_def Cache_Add_get(1))
  ultimately show ?thesis by blast
qed

text \<open>A client that asks for the AD flag gets it on a miss, and loses it when a stale item is verified.\<close>

theorem verification_drops_ad:
  assumes "m_AuthenticatedData r" and "\<not> req_Do D r" and "m_AuthenticatedData m"
  shows "m_AuthenticatedData (capped (miss_writer D e r c) m d)" and "\<not> m_AuthenticatedData (capped (verify_writer D r c) m d)"
  using assms by (simp_all add: capped_def miss_writer_def verify_writer_def Let_def)

text \<open>
  When a stale denial is verified and the name exists by now, the success is stored, but the denial stays and is found first: the next
  request does not see the success, but verifies the stale denial again.
\<close>

theorem stale_denial_shadows_success:
  assumes "c_verifyStale c" and "c_verifyStaleTimeout c = 0" and "Zones_Matches D (c_Zones c) (req_Name D r) \<noteq> ''''"
    and "getIfNotStale D (e_now e) r c = Some (Negative, i)" and "it_Rcode i = RcodeNameError" and "item_ttl i (e_now e) < 0"
    and "NextOrFailure nxt r = Some (rcode, err, [m])" and "Typify D (Some m) (e_done e) = R_NoError" and "m_Question m \<noteq> []"
  shows "\<exists>a c' j. Cache_ServeDNS D e nxt r c = Some (a, c', j) \<and> getIfNotStale D (e_now e) r c' = Some (Negative, i)"
proof -
  let ?w = "verify_writer D r c"
  obtain out c' where w: "cache_WriteMsg D e ?w m c = Some (out, c')" using cache_WriteMsg_total [OF assms(9), of D e ?w c] by blast
  have "m_Rcode m = RcodeSuccess" using Typify_codes(1) [of D m "e_done e"] assms(8) by simp
  then have "doVerify D e ?w nxt c = Some ((rcode, err, out), True, c')"
    using assms(7) w by (simp add: doVerify_def verify_writer_def)
  then have "serve_item D e nxt r Negative i c = Some ((rcode, err, out), c', None)"
    using assms(1,2,6) by (simp add: serve_item_def verify_stale_def)
  moreover have "c_ncache c' = c_ncache c \<and> c_staleUpTo c' = c_staleUpTo c"
    using cache_WriteMsg_cases(2) [OF w] assms(2,8)
    by (auto simp: cache_set_def cache_store_def verify_writer_def Let_def)
  then have "side_usable D Negative (e_now e) r c' = side_usable D Negative (e_now e) r c"
    by (simp add: side_usable_def side_get_def usable_def cong: option.case_cong)
  moreover have "side_usable D Negative (e_now e) r c = Some (Negative, i)"
    using assms(4,5) by (auto simp: getIfNotStale_def side_usable_def rcodes split: option.splits if_splits)
  ultimately show ?thesis using Cache_hit [OF assms(3,4)] assms(5) by (simp add: getIfNotStale_def rcodes)
qed

end
