(* ===== verification/Hanzo_DNS.thy ===== *)
theory Hanzo_DNS
  imports Hanzo_Store DNS_Lib Go_JSON Go_Net
begin

text \<open>
  The DNS side of the \<^verbatim>\<open>hanzodns\<close> plugin, \<^verbatim>\<open>hanzodns.go\<close>: the handler that answers queries from the
  store, and the translation of stored records into resource records.
\<close>

section \<open>Translation of records\<close>

definition qtypeToString :: "u16 \<Rightarrow> string" where
  "qtypeToString qtype =
     (if qtype = TypeA then ''A'' else if qtype = TypeAAAA then ''AAAA''
      else if qtype = TypeCNAME then ''CNAME'' else if qtype = TypeMX then ''MX''
      else if qtype = TypeTXT then ''TXT'' else if qtype = TypeSRV then ''SRV''
      else if qtype = TypeNS then ''NS'' else if qtype = TypeCAA then ''CAA'' else '''')"

text \<open>The library's table \<^verbatim>\<open>StringToType\<close> at the types a stored record may have; 0 for a missing key.\<close>

definition StringToType :: "string \<Rightarrow> u16" where
  "StringToType t =
     (if t = ''A'' then TypeA else if t = ''AAAA'' then TypeAAAA else if t = ''CNAME'' then TypeCNAME
      else if t = ''MX'' then TypeMX else if t = ''TXT'' then TypeTXT else if t = ''SRV'' then TypeSRV
      else if t = ''NS'' then TypeNS else if t = ''CAA'' then TypeCAA else if t = ''SOA'' then TypeSOA
      else 0)"

definition with_dot :: "string \<Rightarrow> string" where
  "with_dot s = (if HasSuffix s ''.'' then s else s @ ''.'')"

definition toRR :: "Record \<Rightarrow> string \<Rightarrow> RR option" where
  "toRR rec qname =
     (let rr = (\<lambda>d. \<lparr>rr_Name = qname, rr_Type = StringToType (r_Type rec), rr_Class = ClassINET,
                    rr_Ttl = r_TTL rec, rr_data = d\<rparr>);
          c = r_Content rec; t = r_Type rec in
      if t = ''A'' then map_option (\<lambda>ip. rr (RD_A (To4 ip))) (ParseIP c)
      else if t = ''AAAA'' then map_option (\<lambda>ip. rr (RD_AAAA ip)) (ParseIP c)
      else if t = ''CNAME'' then Some (rr (RD_CNAME (with_dot c)))
      else if t = ''MX'' then Some (rr (RD_MX (r_Priority rec) (with_dot c)))
      else if t = ''TXT'' then Some (rr (RD_TXT [c]))
      else if t = ''SRV'' then
        (case Fields c of
           [w, p, target] \<Rightarrow>
             (case (ParseUint w 16, ParseUint p 16) of
                (Some weight, Some port) \<Rightarrow>
                  Some (rr (RD_SRV (r_Priority rec) (of_int weight) (of_int port) (with_dot target)))
              | _ \<Rightarrow> None)
         | _ \<Rightarrow> None)
      else if t = ''NS'' then Some (rr (RD_NS (with_dot c)))
      else if t = ''CAA'' then
        (case SplitN c CHR '' '' 3 of
           [flags, tag, v] \<Rightarrow>
             (case ParseUint flags 8 of
                Some flag \<Rightarrow> Some (rr (RD_CAA (of_int flag) tag v))
              | None \<Rightarrow> None)
         | _ \<Rightarrow> None)
      else None)"

section \<open>The handler\<close>

record HanzoDNS =
  hz_Next :: "handler option"
  hz_Fall :: F
  hz_Store :: Store

definition HanzoDNS_ServeDNS :: "dnslib \<Rightarrow> HanzoDNS \<Rightarrow> handler" where
  "HanzoDNS_ServeDNS D h r =
     (let qname = req_Name D r; qtypeStr = qtypeToString (req_QType r) in
      if qtypeStr = '''' then NextOrFailure (hz_Next h) r
      else if Zones_Matches D (ZoneNames (hz_Store h)) qname = '''' then NextOrFailure (hz_Next h) r
      else
        let records = Lookup (hz_Store h) qname qtypeStr in
        if records = [] then
          (if Through D (hz_Fall h) qname then NextOrFailure (hz_Next h) r
           else Some (RcodeServerFailure, False, []))
        else
          let m = (SetReply D r)\<lparr>m_Authoritative := True\<rparr>
          in Some (RcodeSuccess, False,
              [m\<lparr>m_Answer := m_Answer m @ List.map_filter (\<lambda>rec. toRR rec qname) records\<rparr>]))"

section \<open>Lemmas\<close>

lemma StringToType_qtypeToString: "qtypeToString t \<noteq> '''' \<Longrightarrow> StringToType (qtypeToString t) = t"
  by (auto simp: qtypeToString_def StringToType_def)

lemma toRR_header:
  "toRR rec qname = Some rr \<Longrightarrow>
     rr_Name rr = qname \<and> rr_Type rr = StringToType (r_Type rec) \<and> rr_Class rr = ClassINET \<and> rr_Ttl rr = r_TTL rec"
  by (auto simp: toRR_def Let_def split: if_splits list.splits option.splits)

section \<open>Properties\<close>

lemma HanzoDNS_protocol:
  assumes "SetReply_ok D" and "\<And>h. hz_Next p = Some h \<Longrightarrow> obeys_protocol r (h r)"
  shows "obeys_protocol r (HanzoDNS_ServeDNS D p r)"
proof -
  have "obeys_protocol r (NextOrFailure (hz_Next p) r)"
    using assms(2) by (rule NextOrFailure_protocol)
  then show ?thesis
    by (simp add: HanzoDNS_ServeDNS_def Let_def obeys_left obeys_written reply_to_SetReply [OF assms(1)])
qed

interpretation hanzo_link: plugin_link
  "\<lambda>(D, fall, s) nxt. HanzoDNS_ServeDNS D \<lparr>hz_Next = nxt, hz_Fall = fall, hz_Store = s\<rparr>" "\<lambda>(D, _). SetReply_ok D"
  by unfold_locales (auto intro!: HanzoDNS_protocol)

text \<open>The plugin keeps the protocol. If the plugins behind it write one reply to the request exactly when
  their return code says so, then so does the plugin in front of them, whatever the store and
  the fallthrough zones are.\<close>

theorem hanzodns_keeps_protocol:
  assumes "SetReply_ok D" and "\<And>h. hz_Next p = Some h \<Longrightarrow> obeys_protocol r (h r)"
  shows "obeys_protocol r (HanzoDNS_ServeDNS D p r)"
  using assms by (rule HanzoDNS_protocol)

theorem hanzodns_keeps_protocol_witness:
  "obeys_protocol new_Msg (HanzoDNS_ServeDNS plain_lib
     \<lparr>hz_Next = Some (\<lambda>r. Some (RcodeNameError, False, [plain_reply r])), hz_Fall = \<lparr>f_Zones = [''.'']\<rparr>, hz_Store = NewStore\<rparr> new_Msg)"
  by (rule hanzodns_keeps_protocol [OF plain_SetReply_ok]) (auto simp: obeys_written reply_to_def plain_reply_def new_Msg_def)


definition web_store :: "string \<Rightarrow> string \<Rightarrow> Store" where
  "web_store rtype content = fst (exec_op ''a'' (DoBulkSync ''z1'' (\<lambda>n. ''u'') 8
     \<lparr>sz_Zone = ''example.com'', sz_Records = [\<lparr>sr_ID = ''r1'', sr_Name = ''www'', sr_Type = rtype, sr_TTL = 60,
       sr_Content = content, sr_Priority = 0, sr_Proxied = False\<rparr>]\<rparr>) NewStore)"

definition web_query :: "u16 \<Rightarrow> Msg" where
  "web_query t = new_Msg\<lparr>m_Question := [\<lparr>q_Name = ''WWW.example.com.'', q_Type = t, q_Class = ClassINET\<rparr>]\<rparr>"

definition web_plugin :: "string \<Rightarrow> string \<Rightarrow> HanzoDNS" where
  "web_plugin rtype content = \<lparr>hz_Next = None, hz_Fall = \<lparr>f_Zones = []\<rparr>, hz_Store = web_store rtype content\<rparr>"


section \<open>Addresses\<close>

lemma Split_append: "c \<notin> set a \<Longrightarrow> Split (a @ c # b) c = a # Split b c"
  by (induction a) auto

lemma Split_no_sep: "c \<notin> set a \<Longrightarrow> Split a c = [a]"
  by (induction a) auto

lemma v4_field_digits: "\<forall>n \<in> set [0..255]. v4_field (dec_digits n) = Some (nat n)"
  unfolding list_all_iff [symmetric] by code_simp

lemma digits_no_dot: "0 \<le> n \<Longrightarrow> CHR ''.'' \<notin> set (dec_digits n)"
proof
  assume "0 \<le> n" and "CHR ''.'' \<in> set (dec_digits n)"
  then have "is_digit CHR ''.''"
    using dec_digits_digits(1) [of n] by (auto simp: list_all_iff)
  then show False by (simp add: is_digit_def)
qed

definition dotted :: "int \<Rightarrow> int \<Rightarrow> int \<Rightarrow> int \<Rightarrow> string" where
  "dotted a b c d = dec_digits a @ CHR ''.'' # dec_digits b @ CHR ''.'' # dec_digits c @ CHR ''.'' # dec_digits d"

lemma parse_v4_dotted:
  assumes "{a, b, c, d} \<subseteq> {0..255}"
  shows "parse_v4 (dotted a b c d) = Some [nat a, nat b, nat c, nat d]"
proof -
  have "Split (dotted a b c d) CHR ''.'' = [dec_digits a, dec_digits b, dec_digits c, dec_digits d]"
    using assms by (simp add: dotted_def Split_append Split_no_sep digits_no_dot)
  moreover have "v4_field (dec_digits n) = Some (nat n)" if "n \<in> {0..255}" for n
    using v4_field_digits that by simp
  ultimately show ?thesis
    using assms by (simp add: parse_v4_def)
qed

lemma find_after_digits:
  "list_all is_digit ds \<Longrightarrow> find (\<lambda>x. x = CHR ''.'' \<or> x = CHR '':'') (ds @ CHR ''.'' # s) = Some CHR ''.''"
  by (induction ds) (auto simp: is_digit_def)

lemma dotted_no_percent:
  assumes "{a, b, c, d} \<subseteq> {0..255}"
  shows "CHR ''%'' \<notin> set (dotted a b c d)"
proof -
  have "CHR ''%'' \<notin> set (dec_digits n)" if "0 \<le> n" for n
    using dec_digits_digits(1) [OF that] by (auto simp: list_all_iff is_digit_def)
  then show ?thesis using assms by (auto simp: dotted_def)
qed

text \<open>A dotted address is served as the four bytes it names. For a stored A record whose content is
  the decimal notation of four bytes, the resource record has these bytes, and for an AAAA record
  the mapped address.\<close>

theorem dotted_address_served:
  assumes "{a, b, c, d} \<subseteq> {0..255}" and "r_Content rec = dotted a b c d"
  shows "map_option rr_data (toRR (rec\<lparr>r_Type := ''A''\<rparr>) qname) = Some (RD_A [nat a, nat b, nat c, nat d])
    \<and> map_option rr_data (toRR (rec\<lparr>r_Type := ''AAAA''\<rparr>) qname)
        = Some (RD_AAAA ([0, 0, 0, 0, 0, 0, 0, 0, 0, 0, 255, 255, nat a, nat b, nat c, nat d]))"
proof -
  have "find (\<lambda>x. x = CHR ''.'' \<or> x = CHR '':'') (dotted a b c d) = Some CHR ''.''"
    unfolding dotted_def using assms(1) by (intro find_after_digits) simp
  then have "ParseIP (dotted a b c d) = Some (replicate 10 0 @ [255, 255] @ [nat a, nat b, nat c, nat d])"
    using assms(1) by (simp add: ParseIP_def parse_v4_dotted dotted_no_percent)
  then show ?thesis
    using assms(2) by (simp add: toRR_def To4_def numeral_eq_Suc)
qed

theorem dotted_address_served_witness:
  "map_option rr_data (toRR (sync_record 0 ''i'' \<lparr>sr_ID = ''i'', sr_Name = ''n'', sr_Type = ''A'', sr_TTL = 1,
      sr_Content = ''192.0.2.7'', sr_Priority = 0, sr_Proxied = False\<rparr>) ''x.'') = Some (RD_A [192, 0, 2, 7])"
proof -
  let ?r = "sync_record 0 ''i'' \<lparr>sr_ID = ''i'', sr_Name = ''n'', sr_Type = ''A'', sr_TTL = 1,
      sr_Content = ''192.0.2.7'', sr_Priority = 0, sr_Proxied = False\<rparr>"
  have "dotted 192 0 2 7 = ''192.0.2.7''" by code_simp
  then have "r_Content ?r = dotted 192 0 2 7" by (simp add: sync_record_def)
  moreover have "{192, 0, 2, 7} \<subseteq> {0..255 :: int}" by simp
  moreover have "?r\<lparr>r_Type := ''A''\<rparr> = ?r" by (simp add: sync_record_def)
  ultimately show ?thesis
    using dotted_address_served [of 192 0 2 7 ?r "''x.''"] by simp
qed

text \<open>An A record may hold an address that is not IPv4. The store accepts any content; the
  translation calls \<open>To4\<close>, which gives nil for an IPv6 address, and the resource record is served with
  an empty address instead of being left out, as other content that can not be parsed is.\<close>

theorem a_record_without_address:
  "(case HanzoDNS_ServeDNS plain_lib (web_plugin ''A'' ''2001:db8::1'') (web_query TypeA) of
      Some (rcode, err, [m]) \<Rightarrow> rcode = RcodeSuccess \<and> map rr_data (m_Answer m) = [RD_A []]
    | _ \<Rightarrow> False)
   \<and> (case HanzoDNS_ServeDNS plain_lib (web_plugin ''A'' ''not an address'') (web_query TypeA) of
        Some (rcode, err, [m]) \<Rightarrow> m_Answer m = []
      | _ \<Rightarrow> False)"
  by code_simp

end
