(* ===== verification/LLRB_Node.thy ===== *)
theory LLRB_Node
  imports Prelude "HOL-Library.Monad_Syntax"
begin

text \<open>
  Nodes of the left-leaning red-black tree of \<^verbatim>\<open>file/tree/tree.go\<close>, in the mode \<^verbatim>\<open>bu23\<close> the source
  selects: rotations, colour flips, \<open>fixUp\<close>, the two moves of a red link, and deletion of the least
  element. Nothing here looks at the order of elements.

  A node is a value: the code owns every node once and returns the new root of the subtree. Reading a
  field of a nil node panics in Go; an operation that may do so yields \<open>None\<close> then. The lemmas
  show for which trees this can not happen.
\<close>

section \<open>Nodes and their rearrangements\<close>

datatype color = Red | Black

datatype 'e node = NilNode | Node (Left: "'e node") (Color: color) (ElemOf: 'e) (Right: "'e node")
  where "Left NilNode = NilNode" | "Right NilNode = NilNode" | "Color NilNode = Black"

text \<open>The method \<^verbatim>\<open>color\<close>: nil is black, which the selector \<open>Color\<close> already says.\<close>

definition node_color :: "'e node \<Rightarrow> color" where
  "node_color n = (case n of NilNode \<Rightarrow> Black | Node l c e r \<Rightarrow> c)"

fun opposite :: "color \<Rightarrow> color" where
  "opposite Red = Black"
| "opposite Black = Red"

fun paint :: "color \<Rightarrow> 'e node \<Rightarrow> 'e node" where
  "paint c NilNode = NilNode"
| "paint c (Node l _ e r) = Node l c e r"

fun toggle :: "'e node \<Rightarrow> 'e node option" where
  "toggle NilNode = None"
| "toggle (Node l c e r) = Some (Node l (opposite c) e r)"

fun rotateLeft :: "'e node \<Rightarrow> 'e node option" where
  "rotateLeft (Node l c e (Node rl rc re rr)) = Some (Node (Node l Red e rl) c re rr)"
| "rotateLeft _ = None"

fun rotateRight :: "'e node \<Rightarrow> 'e node option" where
  "rotateRight (Node (Node ll lc le lr) c e r) = Some (Node ll c le (Node lr Red e r))"
| "rotateRight _ = None"

fun flipColors :: "'e node \<Rightarrow> 'e node option" where
  "flipColors NilNode = None"
| "flipColors (Node l c e r) =
     do { l' \<leftarrow> toggle l; r' \<leftarrow> toggle r; Some (Node l' (opposite c) e r') }"

fun set_left :: "'e node \<Rightarrow> 'e node \<Rightarrow> 'e node" where
  "set_left l' (Node l c e r) = Node l' c e r"
| "set_left l' NilNode = NilNode"

fun set_right :: "'e node \<Rightarrow> 'e node \<Rightarrow> 'e node" where
  "set_right r' (Node l c e r) = Node l c e r'"
| "set_right r' NilNode = NilNode"

definition red_pair :: "'e node \<Rightarrow> bool" where
  "red_pair n = (node_color (Left n) = Red \<and> node_color (Left (Left n)) = Red)"

definition fixUp :: "'e node \<Rightarrow> 'e node option" where
  "fixUp n =
     do { n \<leftarrow> (if n = NilNode then None else Some n);
          n \<leftarrow> (if node_color (Right n) = Red then rotateLeft n else Some n);
          n \<leftarrow> (if red_pair n then rotateRight n else Some n);
          if node_color (Left n) = Red \<and> node_color (Right n) = Red then flipColors n else Some n }"

definition moveRedLeft :: "'e node \<Rightarrow> 'e node option" where
  "moveRedLeft n =
     do { n \<leftarrow> flipColors n;
          if node_color (Left (Right n)) = Red then
            do { r \<leftarrow> rotateRight (Right n); n \<leftarrow> rotateLeft (set_right r n); flipColors n }
          else Some n }"

definition moveRedRight :: "'e node \<Rightarrow> 'e node option" where
  "moveRedRight n =
     do { n \<leftarrow> flipColors n;
          if node_color (Left (Left n)) = Red then do { n \<leftarrow> rotateRight n; flipColors n }
          else Some n }"

text \<open>The end of \<^verbatim>\<open>insert\<close>.\<close>

definition insert_fix :: "'e node \<Rightarrow> 'e node option" where
  "insert_fix n =
     do { n \<leftarrow> (if node_color (Right n) = Red \<and> node_color (Left n) = Black then rotateLeft n else Some n);
          n \<leftarrow> (if red_pair n then rotateRight n else Some n);
          if node_color (Left n) = Red \<and> node_color (Right n) = Red then flipColors n else Some n }"

section \<open>Size, order of elements, invariants\<close>

primrec inorder :: "'e node \<Rightarrow> 'e list" where
  "inorder NilNode = []"
| "inorder (Node l c e r) = inorder l @ e # inorder r"

primrec height :: "'e node \<Rightarrow> nat" where
  "height NilNode = 0"
| "height (Node l c e r) = Suc (max (height l) (height r))"

text \<open>Black links on the way to the leaves; \<open>balanced\<close> says that all ways have the same number.\<close>

fun bheight :: "'e node \<Rightarrow> nat" where
  "bheight NilNode = 0"
| "bheight (Node l c e r) = (if c = Black then Suc (bheight l) else bheight l)"

fun balanced :: "'e node \<Rightarrow> bool" where
  "balanced NilNode = True"
| "balanced (Node l c e r) = (balanced l \<and> balanced r \<and> bheight l = bheight r)"

text \<open>Red links lean left, and no two of them follow each other.\<close>

fun leaning :: "'e node \<Rightarrow> bool" where
  "leaning NilNode = True"
| "leaning (Node l c e r) =
     (leaning l \<and> leaning r \<and> node_color r = Black \<and> (c = Red \<longrightarrow> node_color l = Black))"

definition llrb :: "'e node \<Rightarrow> bool" where
  "llrb n = (leaning n \<and> balanced n)"

lemma node_color_simps [simp]:
  "node_color NilNode = Black" "node_color (Node l c e r) = c"
  by (simp_all add: node_color_def)

lemma node_color_paint [simp]: "node_color (paint c n) = (if n = NilNode then Black else c)"
  by (cases n) auto

lemma color_Red_iff: "node_color n = Red \<longleftrightarrow> (\<exists>l e r. n = Node l Red e r)"
  by (cases n) auto

lemma not_Red [simp]: "c \<noteq> Red \<longleftrightarrow> c = Black" "c \<noteq> Black \<longleftrightarrow> c = Red"
  by (cases c; simp)+

lemma inorder_paint [simp]: "inorder (paint c n) = inorder n"
  by (cases n) auto

lemma balanced_paint [simp]: "balanced (paint c n) = balanced n"
  by (cases n) auto

lemma leaning_paint_Black: "leaning n \<Longrightarrow> leaning (paint Black n)"
  by (cases n) auto

section \<open>Rearrangements keep the order of elements\<close>

lemma inorder_toggle: "toggle n = Some m \<Longrightarrow> inorder m = inorder n"
  by (cases n) auto

lemma inorder_rotateLeft: "rotateLeft n = Some m \<Longrightarrow> inorder m = inorder n"
  by (cases n rule: rotateLeft.cases) auto

lemma inorder_rotateRight: "rotateRight n = Some m \<Longrightarrow> inorder m = inorder n"
  by (cases n rule: rotateRight.cases) auto

lemma inorder_flipColors: "flipColors n = Some m \<Longrightarrow> inorder m = inorder n"
  by (cases n) (auto simp: bind_eq_Some_conv dest!: inorder_toggle)

lemma inorder_fixUp: "fixUp n = Some m \<Longrightarrow> inorder m = inorder n"
  by (auto simp: fixUp_def bind_eq_Some_conv split: if_splits
      dest!: inorder_rotateLeft inorder_rotateRight inorder_flipColors)

lemma inorder_insert_fix: "insert_fix n = Some m \<Longrightarrow> inorder m = inorder n"
  by (auto simp: insert_fix_def bind_eq_Some_conv split: if_splits
      dest!: inorder_rotateLeft inorder_rotateRight inorder_flipColors)

lemma inorder_set_right: "inorder r = inorder (Right n) \<Longrightarrow> inorder (set_right r n) = inorder n"
  by (cases n) auto

lemma inorder_moveRedLeft: "moveRedLeft n = Some m \<Longrightarrow> inorder m = inorder n"
  by (auto simp: moveRedLeft_def bind_eq_Some_conv split: if_splits
      dest!: inorder_rotateLeft inorder_rotateRight inorder_flipColors inorder_set_right)

lemma inorder_moveRedRight: "moveRedRight n = Some m \<Longrightarrow> inorder m = inorder n"
  by (auto simp: moveRedRight_def bind_eq_Some_conv split: if_splits
      dest!: inorder_rotateLeft inorder_rotateRight inorder_flipColors)

lemmas inorder_ops = inorder_rotateLeft inorder_rotateRight inorder_flipColors inorder_fixUp
  inorder_insert_fix inorder_moveRedLeft inorder_moveRedRight

section \<open>Deletion of the least element\<close>

text \<open>
  The pairs carry the change of the element count. \<open>deleteMin\<close> recurses into the left subtree after
  a move that enlarges it by a rotation, so its depth is bounded by the number of nodes; the fuel is
  that number. \<open>None\<close> is a panic or exhausted fuel; \<open>deleteMin_ok\<close> shows that neither
  happens.
\<close>

fun deleteMin_fuel :: "nat \<Rightarrow> 'e node \<Rightarrow> ('e node \<times> int) option" where
  "deleteMin_fuel 0 n = None"
| "deleteMin_fuel (Suc k) n =
     (if n = NilNode then None
      else if Left n = NilNode then Some (NilNode, - 1)
      else do {
        n \<leftarrow> (if node_color (Left n) = Black \<and> node_color (Left (Left n)) = Black then moveRedLeft n else Some n);
        (l, d) \<leftarrow> deleteMin_fuel k (Left n);
        n \<leftarrow> fixUp (set_left l n);
        Some (n, d) })"

definition deleteMin :: "'e node \<Rightarrow> ('e node \<times> int) option" where
  "deleteMin n = deleteMin_fuel (length (inorder n)) n"

primrec min_elem :: "'e node \<Rightarrow> 'e option" where
  "min_elem NilNode = None"
| "min_elem (Node l c e r) = (if l = NilNode then Some e else min_elem l)"

primrec max_elem :: "'e node \<Rightarrow> 'e option" where
  "max_elem NilNode = None"
| "max_elem (Node l c e r) = (if r = NilNode then Some e else max_elem r)"

lemma inorder_Nil_iff [simp]: "inorder n = [] \<longleftrightarrow> n = NilNode"
  by (cases n) auto

lemma min_elem_inorder: "n \<noteq> NilNode \<Longrightarrow> min_elem n = Some (hd (inorder n))"
  by (induction n) (auto simp: hd_append)

lemma max_elem_inorder: "n \<noteq> NilNode \<Longrightarrow> max_elem n = Some (last (inorder n))"
  by (induction n) auto

section \<open>Insertion keeps the invariants\<close>

text \<open>A tree that is in order except for one red link below a red root.\<close>

fun almost :: "'e node \<Rightarrow> bool" where
  "almost NilNode = True"
| "almost (Node l c e r) = (leaning l \<and> leaning r \<and> node_color r = Black)"

lemma leaning_almost: "leaning n \<Longrightarrow> almost n"
  by (cases n) auto

lemma insert_fix_left:
  assumes "leaning (Node l c e r)" and "balanced (Node l c e r)"
    and "almost l'" and "balanced l'" and "bheight l' = bheight l" and "node_color l = Black \<longrightarrow> leaning l'"
    and "node_color l = Red \<longrightarrow> node_color l' = Red"
  shows "\<exists>n. insert_fix (Node l' c e r) = Some n \<and> balanced n \<and> bheight n = bheight (Node l c e r)
    \<and> almost n \<and> (c = Black \<longrightarrow> leaning n) \<and> (c = Red \<longrightarrow> node_color n = Red)"
  using assms
  by (cases l'; cases "Left l'"; cases c) (auto simp: insert_fix_def red_pair_def split: color.splits)

lemma insert_fix_right:
  assumes "leaning (Node l c e r)" and "balanced (Node l c e r)"
    and "leaning r'" and "balanced r'" and "bheight r' = bheight r"
  shows "\<exists>n. insert_fix (Node l c e r') = Some n \<and> balanced n \<and> bheight n = bheight (Node l c e r)
    \<and> almost n \<and> (c = Black \<longrightarrow> leaning n) \<and> (c = Red \<longrightarrow> node_color n = Red)"
proof (cases "node_color r' = Red")
  case True
  then obtain rl re rr where r': "r' = Node rl Red re rr" by (auto simp: color_Red_iff)
  show ?thesis
    using assms unfolding r'
    by (cases l; cases "Left l"; cases c) (auto simp: insert_fix_def red_pair_def split: if_splits)
next
  case False
  then show ?thesis
    using assms by (cases l; cases "Left l"; cases c) (auto simp: insert_fix_def red_pair_def)
qed

section \<open>Deletion keeps the invariants\<close>

text \<open>
  A deletion may descend into a tree whose root or left link is red. \<open>good n q\<close> says that \<open>q\<close> may take
  the place of \<open>n\<close>.
\<close>

definition ready :: "'e node \<Rightarrow> bool" where
  "ready n = (llrb n \<and> (node_color n = Red \<or> node_color (Left n) = Red))"

definition good :: "'e node \<Rightarrow> 'e node \<Rightarrow> bool" where
  "good n q = (llrb q \<and> bheight q = bheight n \<and> (node_color n = Black \<longrightarrow> node_color q = Black))"

text \<open>
  \<open>m\<close> is \<open>n\<close> after the preparation for a step to the left or to the right: whatever good replacement the
  step gives, \<open>fixUp\<close> makes the whole good.
\<close>

definition left_step :: "'e node \<Rightarrow> 'e node \<Rightarrow> bool" where
  "left_step n m \<longleftrightarrow>
     Left m \<noteq> NilNode \<and> ready (Left m)
     \<and> (\<forall>q. good (Left m) q \<longrightarrow> (\<exists>f. fixUp (set_left q m) = Some f \<and> good n f))"

lemma not_red_pair: "leaning q \<Longrightarrow> \<not> red_pair (Node q c e r)"
  by (cases q) (auto simp: red_pair_def)

lemma fixUp_right_black: "leaning q \<Longrightarrow> node_color r = Black \<Longrightarrow> fixUp (Node q c e r) = Some (Node q c e r)"
  by (simp add: fixUp_def not_red_pair)

lemma fixUp_right_red:
  assumes "leaning q" and "node_color rl = Black" and "node_color rr = Black"
  shows "fixUp (Node q c e (Node rl Red re rr)) =
    Some (if node_color q = Red then Node (paint Black q) (opposite c) e (Node rl Black re rr)
          else Node (Node q Red e rl) c re rr)"
  using assms by (cases q) (auto simp: fixUp_def red_pair_def)

lemma bheight_paint: "node_color q = Red \<Longrightarrow> bheight (paint Black q) = Suc (bheight q)"
  by (cases q) auto

lemmas node_invs = ready_def good_def llrb_def

lemma left_step_keep:
  assumes "ready n" and "Left n \<noteq> NilNode"
    and "\<not> (node_color (Left n) = Black \<and> node_color (Left (Left n)) = Black)"
  shows "left_step n n"
proof -
  obtain l c e r where n: "n = Node l c e r" using assms by (cases n) auto
  then show ?thesis
    using assms by (cases "node_color l") (auto simp: left_step_def node_invs fixUp_right_black)
qed

lemma left_step_move:
  assumes "ready n" and "Left n \<noteq> NilNode"
    and "node_color (Left n) = Black" and "node_color (Left (Left n)) = Black"
  shows "\<exists>m. moveRedLeft n = Some m \<and> left_step n m"
proof -
  obtain l e r where n: "n = Node l Red e r" "l \<noteq> NilNode" "node_color l = Black" "node_color (Left l) = Black"
    using assms by (cases n) (auto simp: ready_def)
  obtain ll le lr where l: "l = Node ll Black le lr" using n by (cases l) auto
  obtain rl re rr where r: "r = Node rl Black re rr"
    using assms(1) n l by (cases r) (auto simp: ready_def llrb_def)
  have inv: "llrb ll" "llrb lr" "llrb rl" "llrb rr" "node_color ll = Black" "node_color lr = Black"
    "node_color rr = Black" "bheight ll = bheight lr" "bheight rl = bheight rr" "bheight lr = bheight rl"
    using assms(1) n(4) unfolding n(1) l r by (auto simp: node_invs)
  show ?thesis
  proof (cases "node_color rl")
    case Red
    then obtain a x b where "rl = Node a Red x b" by (auto simp: color_Red_iff)
    with inv show ?thesis
      unfolding n(1) l r
      by (auto simp: moveRedLeft_def left_step_def node_invs fixUp_right_black)
  next
    case Black
    with inv show ?thesis
      unfolding n(1) l r
      by (auto simp: moveRedLeft_def left_step_def node_invs fixUp_right_red bheight_paint leaning_paint_Black)
  qed
qed

lemma inorder_left_shorter: "n \<noteq> NilNode \<Longrightarrow> length (inorder (Left n)) < length (inorder n)"
  by (cases n) auto

lemma inorder_right_shorter: "n \<noteq> NilNode \<Longrightarrow> length (inorder (Right n)) < length (inorder n)"
  by (cases n) auto

lemma inorder_set_left: "n \<noteq> NilNode \<Longrightarrow> inorder (set_left q n) = inorder q @ ElemOf n # inorder (Right n)"
  by (cases n) auto

lemma inorder_node: "n \<noteq> NilNode \<Longrightarrow> inorder n = inorder (Left n) @ ElemOf n # inorder (Right n)"
  by (cases n) auto

lemma ready_leaf: "ready n \<Longrightarrow> n \<noteq> NilNode \<Longrightarrow> Left n = NilNode \<Longrightarrow> Right n = NilNode \<and> node_color n = Red"
  by (cases n; cases "Right n") (auto simp: node_invs)

lemma left_step_Node: "left_step n m \<Longrightarrow> m \<noteq> NilNode"
  by (auto simp: left_step_def)

lemma left_prepare:
  assumes "ready n" and "Left n \<noteq> NilNode"
  shows "\<exists>m. (if node_color (Left n) = Black \<and> node_color (Left (Left n)) = Black then moveRedLeft n else Some n) = Some m
    \<and> left_step n m"
  using left_step_keep [OF assms] left_step_move [OF assms]
  by (cases "node_color (Left n) = Black \<and> node_color (Left (Left n)) = Black") auto

lemma deleteMin_ok:
  assumes "ready n" and "n \<noteq> NilNode" and "length (inorder n) \<le> k"
  shows "\<exists>q. deleteMin_fuel k n = Some (q, - 1) \<and> good n q \<and> inorder q = tl (inorder n)"
  using assms
proof (induction k arbitrary: n)
  case 0
  then show ?case by (cases n) auto
next
  case (Suc k)
  show ?case
  proof (cases "Left n = NilNode")
    case True
    with Suc.prems have "inorder n = [ElemOf n]" "good n NilNode"
      using ready_leaf [of n] by (cases n; auto simp: node_invs)+
    with True Suc.prems show ?thesis by simp
  next
    case False
    let ?pre = "if node_color (Left n) = Black \<and> node_color (Left (Left n)) = Black then moveRedLeft n else Some n"
    obtain m where m: "?pre = Some m" "left_step n m"
      using left_prepare [OF Suc.prems(1) False] by blast
    have ino: "inorder m = inorder n"
      using m(1) by (auto split: if_splits dest: inorder_moveRedLeft)
    have m0: "m \<noteq> NilNode" by (rule left_step_Node [OF m(2)])
    then have "length (inorder (Left m)) \<le> k"
      using inorder_left_shorter [OF m0] ino Suc.prems(3) by simp
    then obtain q where q: "deleteMin_fuel k (Left m) = Some (q, - 1)" "good (Left m) q"
      "inorder q = tl (inorder (Left m))"
      using Suc.IH [of "Left m"] m(2) by (auto simp: left_step_def)
    then obtain f where f: "fixUp (set_left q m) = Some f" "good n f"
      using m(2) by (auto simp: left_step_def)
    have "inorder (Left m) \<noteq> []" using m(2) by (simp add: left_step_def)
    then have "inorder f = tl (inorder n)"
      using inorder_fixUp [OF f(1)] inorder_set_left [OF m0] inorder_node [OF m0] q(3) ino by simp
    with m(1) q f False Suc.prems(2) show ?thesis by simp
  qed
qed

section \<open>Search, insertion and deletion by a comparison\<close>

text \<open>
  The operations of the source find their way by \<^verbatim>\<open>Less(n.Elem, name)\<close>. Here the comparison with the
  name is a function \<open>cmp\<close> of the element: negative to go left, positive to go right.
\<close>

fun search :: "('e \<Rightarrow> int) \<Rightarrow> 'e node \<Rightarrow> 'e option" where
  "search cmp NilNode = None"
| "search cmp (Node l c e r) =
     (if cmp e = 0 then Some e else if cmp e < 0 then search cmp l else search cmp r)"

fun floor_node :: "('e \<Rightarrow> int) \<Rightarrow> 'e node \<Rightarrow> 'e option" where
  "floor_node cmp NilNode = None"
| "floor_node cmp (Node l c e r) =
     (if cmp e = 0 then Some e
      else if cmp e \<le> 0 then floor_node cmp l
      else case floor_node cmp r of Some x \<Rightarrow> Some x | None \<Rightarrow> Some e)"

fun ceil_node :: "('e \<Rightarrow> int) \<Rightarrow> 'e node \<Rightarrow> 'e option" where
  "ceil_node cmp NilNode = None"
| "ceil_node cmp (Node l c e r) =
     (if cmp e = 0 then Some e
      else if cmp e > 0 then ceil_node cmp r
      else case ceil_node cmp l of Some x \<Rightarrow> Some x | None \<Rightarrow> Some e)"

text \<open>An element that is found is replaced through its pointer.\<close>

fun modify :: "('e \<Rightarrow> int) \<Rightarrow> ('e \<Rightarrow> 'e) \<Rightarrow> 'e node \<Rightarrow> 'e node" where
  "modify cmp f NilNode = NilNode"
| "modify cmp f (Node l c e r) =
     (if cmp e = 0 then Node l c (f e) r
      else if cmp e < 0 then Node (modify cmp f l) c e r else Node l c e (modify cmp f r))"

fun insert_node :: "('e \<Rightarrow> int) \<Rightarrow> 'e \<Rightarrow> ('e \<Rightarrow> 'e) \<Rightarrow> 'e node \<Rightarrow> ('e node \<times> int) option" where
  "insert_node cmp new upd NilNode = Some (Node NilNode Red new NilNode, 1)"
| "insert_node cmp new upd (Node l c e r) =
     do {
       (n, d) \<leftarrow>
         (if cmp e = 0 then Some (Node l c (upd e) r, 0)
          else if cmp e < 0 then do { (l', d) \<leftarrow> insert_node cmp new upd l; Some (Node l' c e r, d) }
          else do { (r', d) \<leftarrow> insert_node cmp new upd r; Some (Node l c e r', d) });
       n \<leftarrow> insert_fix n;
       Some (n, d) }"

fun delete_fuel :: "nat \<Rightarrow> ('e \<Rightarrow> int) \<Rightarrow> 'e node \<Rightarrow> ('e node \<times> int) option" where
  "delete_fuel 0 cmp n = None"
| "delete_fuel (Suc k) cmp n =
     (if n = NilNode then None
      else if cmp (ElemOf n) < 0 then
        (if Left n \<noteq> NilNode then do {
           n \<leftarrow> (if node_color (Left n) = Black \<and> node_color (Left (Left n)) = Black then moveRedLeft n else Some n);
           (l, d) \<leftarrow> delete_fuel k cmp (Left n);
           n \<leftarrow> fixUp (set_left l n);
           Some (n, d) }
         else do { n \<leftarrow> fixUp n; Some (n, 0) })
      else do {
        n \<leftarrow> (if node_color (Left n) = Red then rotateRight n else Some n);
        if Right n = NilNode \<and> cmp (ElemOf n) = 0 then Some (NilNode, - 1)
        else if Right n \<noteq> NilNode then do {
          n \<leftarrow> (if node_color (Right n) = Black \<and> node_color (Left (Right n)) = Black then moveRedRight n else Some n);
          (n, d) \<leftarrow>
            (if cmp (ElemOf n) = 0 then do {
               e \<leftarrow> min_elem (Right n);
               (r, d) \<leftarrow> deleteMin (Right n);
               Some (Node (Left n) (Color n) e r, d) }
             else do { (r, d) \<leftarrow> delete_fuel k cmp (Right n); Some (set_right r n, d) });
          n \<leftarrow> fixUp n;
          Some (n, d) }
        else do { n \<leftarrow> fixUp n; Some (n, 0) } })"

definition delete_node :: "('e \<Rightarrow> int) \<Rightarrow> 'e node \<Rightarrow> ('e node \<times> int) option" where
  "delete_node cmp n = delete_fuel (length (inorder n)) cmp n"

text \<open>The order that a comparison needs: after an element that is not below the name come only larger ones.\<close>

definition ordered :: "('e \<Rightarrow> int) \<Rightarrow> 'e list \<Rightarrow> bool" where
  "ordered cmp xs = sorted_wrt (\<lambda>x y. cmp x \<le> 0 \<longrightarrow> cmp y < 0) xs"

lemma ordered_append:
  "ordered cmp (xs @ e # ys) \<longleftrightarrow>
     ordered cmp xs \<and> ordered cmp ys \<and> (\<forall>x \<in> set xs. cmp x \<le> 0 \<longrightarrow> cmp e < 0) \<and> (\<forall>y \<in> set ys. cmp e \<le> 0 \<longrightarrow> cmp y < 0)
     \<and> (\<forall>x \<in> set xs. \<forall>y \<in> set ys. cmp x \<le> 0 \<longrightarrow> cmp y < 0)"
  by (auto simp: ordered_def sorted_wrt_append)

lemma find_append_Cons:
  "find P (xs @ e # ys) = (if find P xs \<noteq> None then find P xs else if P e then Some e else find P ys)"
  by (induction xs) auto

lemma search_inorder:
  "ordered cmp (inorder n) \<Longrightarrow> search cmp n = find (\<lambda>e. cmp e = 0) (inorder n)"
proof (induction n)
  case (Node l c e r)
  then have "find (\<lambda>e. cmp e = 0) (inorder l) = None" if "cmp e \<ge> 0"
    using that by (fastforce simp: find_None_iff ordered_append)
  moreover from Node have "find (\<lambda>e. cmp e = 0) (inorder r) = None" if "cmp e \<le> 0"
    using that by (fastforce simp: find_None_iff ordered_append)
  ultimately show ?case
    using Node by (auto simp: ordered_append find_append_Cons)
qed simp

text \<open>\<open>floor_node\<close> gives the last element that is not above the name, \<open>ceil_node\<close> the first that is not below it.\<close>

definition last_opt :: "'a list \<Rightarrow> 'a option" where
  "last_opt xs = (if xs = [] then None else Some (last xs))"

lemma last_opt_simps [simp]:
  "last_opt [] = None" "last_opt (xs @ e # ys) = (case last_opt ys of Some x \<Rightarrow> Some x | None \<Rightarrow> Some e)"
  by (simp_all add: last_opt_def)

lemma last_opt_None: "last_opt xs = None \<longleftrightarrow> xs = []"
  by (simp add: last_opt_def)

lemma floor_inorder:
  "ordered cmp (inorder n) \<Longrightarrow> floor_node cmp n = last_opt (filter (\<lambda>e. cmp e \<ge> 0) (inorder n))"
proof (induction n)
  case (Node l c e r)
  have "filter (\<lambda>e. cmp e \<ge> 0) (inorder r) = []" if "cmp e \<le> 0"
    using Node.prems that by (fastforce simp: filter_empty_conv ordered_append)
  moreover have "ordered cmp (inorder l)" "ordered cmp (inorder r)"
    using Node.prems by (simp_all add: ordered_append)
  ultimately show ?case using Node.IH by (auto split: option.splits)
qed simp

lemma ceil_inorder:
  "ordered cmp (inorder n) \<Longrightarrow> ceil_node cmp n = find (\<lambda>e. cmp e \<le> 0) (inorder n)"
proof (induction n)
  case (Node l c e r)
  then have "find (\<lambda>e. cmp e \<le> 0) (inorder l) = None" if "cmp e \<ge> 0"
    using that by (fastforce simp: find_None_iff ordered_append)
  moreover have "ordered cmp (inorder l)" "ordered cmp (inorder r)"
    using Node.prems by (simp_all add: ordered_append)
  ultimately show ?case
    using Node.IH by (auto simp: find_append_Cons split: option.splits)
qed simp

text \<open>Insertion into the sequence of elements.\<close>

fun ins_list :: "('e \<Rightarrow> int) \<Rightarrow> 'e \<Rightarrow> ('e \<Rightarrow> 'e) \<Rightarrow> 'e list \<Rightarrow> 'e list" where
  "ins_list cmp new upd [] = [new]"
| "ins_list cmp new upd (e # xs) =
     (if cmp e = 0 then upd e # xs else if cmp e < 0 then new # e # xs else e # ins_list cmp new upd xs)"

lemma ins_list_above: "\<forall>x \<in> set xs. cmp x > 0 \<Longrightarrow> ins_list cmp new upd (xs @ ys) = xs @ ins_list cmp new upd ys"
  by (induction xs) auto

lemma ins_list_below:
  "cmp e < 0 \<Longrightarrow> ins_list cmp new upd (xs @ e # ys) = ins_list cmp new upd xs @ e # ys"
  by (induction xs) auto

lemma ordered_above: "ordered cmp (xs @ e # ys) \<Longrightarrow> cmp e \<ge> 0 \<Longrightarrow> \<forall>x \<in> set xs. cmp x > 0"
  by (force simp: ordered_append)

lemma ordered_below: "ordered cmp (xs @ e # ys) \<Longrightarrow> cmp e \<le> 0 \<Longrightarrow> \<forall>y \<in> set ys. cmp y < 0"
  by (simp add: ordered_append)

lemma insert_node_inorder:
  "ordered cmp (inorder n) \<Longrightarrow> insert_node cmp new upd n = Some (q, d) \<Longrightarrow>
   inorder q = ins_list cmp new upd (inorder n) \<and> d = int (length (inorder q)) - int (length (inorder n))"
proof (induction n arbitrary: q d)
  case (Node l c e r)
  have ord: "ordered cmp (inorder l)" "ordered cmp (inorder r)"
    using Node.prems(1) by (simp_all add: ordered_append)
  consider (eq) "cmp e = 0" | (lt) "cmp e < 0" | (gt) "cmp e > 0" by linarith
  then show ?case
  proof cases
    case eq
    then have "\<forall>x \<in> set (inorder l). cmp x > 0"
      using ordered_above [of cmp "inorder l" e "inorder r"] Node.prems(1) by simp
    with eq Node.prems(2) show ?thesis
      by (auto simp: bind_eq_Some_conv ins_list_above dest!: inorder_insert_fix)
  next
    case lt
    with Node.prems(2) show ?thesis
      using Node.IH(1) [OF ord(1)] by (auto simp: bind_eq_Some_conv ins_list_below dest!: inorder_insert_fix)
  next
    case gt
    then have "\<forall>x \<in> set (inorder l). cmp x > 0"
      using ordered_above [of cmp "inorder l" e "inorder r"] Node.prems(1) by simp
    with gt Node.prems(2) show ?thesis
      using Node.IH(2) [OF ord(2)] by (auto simp: bind_eq_Some_conv ins_list_above dest!: inorder_insert_fix)
  qed
qed auto

lemma insert_node_ok:
  "llrb n \<Longrightarrow> \<exists>q d. insert_node cmp new upd n = Some (q, d) \<and> balanced q \<and> bheight q = bheight n \<and> almost q
     \<and> (node_color n = Black \<longrightarrow> leaning q) \<and> (node_color n = Red \<longrightarrow> node_color q = Red) \<and> q \<noteq> NilNode"
proof (induction n)
  case NilNode
  then show ?case by simp
next
  case (Node l c e r)
  have inv: "leaning (Node l c e r)" "balanced (Node l c e r)" "llrb l" "llrb r"
    using Node.prems by (auto simp: llrb_def)
  consider (eq) "cmp e = 0" | (lt) "cmp e < 0" | (gt) "cmp e > 0" by linarith
  then show ?case
  proof cases
    case eq
    have "leaning (Node l c (upd e) r)" "balanced (Node l c (upd e) r)" using inv by auto
    from insert_fix_left [OF this, of l] eq inv(3) show ?thesis
      by (force simp: llrb_def leaning_almost dest: inorder_insert_fix)
  next
    case lt
    obtain l' d where l': "insert_node cmp new upd l = Some (l', d)" "balanced l'" "bheight l' = bheight l"
      "almost l'" "node_color l = Black \<longrightarrow> leaning l'" "node_color l = Red \<longrightarrow> node_color l' = Red"
      using Node.IH(1) [OF inv(3)] by blast
    obtain n where "insert_fix (Node l' c e r) = Some n \<and> balanced n \<and> bheight n = bheight (Node l c e r)
      \<and> almost n \<and> (c = Black \<longrightarrow> leaning n) \<and> (c = Red \<longrightarrow> node_color n = Red)"
      using insert_fix_left [OF inv(1,2) l'(4,2,3,5,6)] by blast
    with lt l'(1) show ?thesis by (force dest: inorder_insert_fix)
  next
    case gt
    have "node_color r = Black" using inv(1) by simp
    then obtain r' d where r': "insert_node cmp new upd r = Some (r', d)" "balanced r'" "bheight r' = bheight r" "leaning r'"
      using Node.IH(2) [OF inv(4)] by blast
    obtain n where "insert_fix (Node l c e r') = Some n \<and> balanced n \<and> bheight n = bheight (Node l c e r)
      \<and> almost n \<and> (c = Black \<longrightarrow> leaning n) \<and> (c = Red \<longrightarrow> node_color n = Red)"
      using insert_fix_right [OF inv(1,2) r'(4,2,3)] by blast
    with gt r'(1) show ?thesis by (force dest: inorder_insert_fix)
  qed
qed

section \<open>Steps to the right\<close>

text \<open>
  A move to the right may leave a red link that leans right, on the way of the deletion only: the subtree
  \<open>swung\<close> is entered by a name that is not below its root.
\<close>

definition swung :: "'e node \<Rightarrow> bool" where
  "swung n = (\<exists>a e r. n = Node a Black e r \<and> llrb a \<and> llrb r \<and> node_color a = Black \<and> node_color r = Red
     \<and> bheight a = bheight r)"

definition right_step :: "'e node \<Rightarrow> 'e node \<Rightarrow> bool" where
  "right_step n m \<longleftrightarrow>
     m \<noteq> NilNode \<and> (ready (Right m) \<and> Right m \<noteq> NilNode \<or> swung (Right m) \<and> ElemOf (Right m) = ElemOf n)
     \<and> (\<forall>q e. good (Right m) q \<longrightarrow> (\<exists>f. fixUp (Node (Left m) (Color m) e q) = Some f \<and> good n f))"

definition right_rotate :: "'e node \<Rightarrow> 'e node option" where
  "right_rotate n = (if node_color (Left n) = Red then rotateRight n else Some n)"

definition right_move :: "'e node \<Rightarrow> 'e node option" where
  "right_move n = (if node_color (Right n) = Black \<and> node_color (Left (Right n)) = Black then moveRedRight n else Some n)"

lemma good_red:
  assumes "node_color r = Red" and "good r q" and "llrb a" and "node_color a = Black" and "bheight a = bheight r"
  shows "\<exists>f. fixUp (Node a Black e q) = Some f \<and> good (Node a Black e r) f"
proof (cases "node_color q")
  case Red
  then obtain ql qe qr where q: "q = Node ql Red qe qr" by (auto simp: color_Red_iff)
  with assms show ?thesis
    by (auto simp: node_invs fixUp_right_red)
next
  case Black
  with assms show ?thesis by (auto simp: node_invs fixUp_right_black)
qed

lemma right_swung:
  assumes "swung n"
  shows "right_rotate n = Some n \<and> right_move n = Some n \<and> right_step n n"
proof -
  obtain a e r where n: "n = Node a Black e r" "llrb a" "llrb r" "node_color a = Black" "node_color r = Red"
    "bheight a = bheight r" using assms by (auto simp: swung_def)
  have "r \<noteq> NilNode" "ready r" using n by (auto simp: ready_def)
  moreover have "\<exists>f. fixUp (Node a Black e' q) = Some f \<and> good n f" if "good r q" for q e'
    using good_red [OF n(5) that n(2,4,6), of e'] n by (auto simp: good_def)
  ultimately show ?thesis
    using n by (auto simp: right_rotate_def right_move_def right_step_def)
qed

lemma right_rotated:
  assumes "ready n" and "node_color (Left n) = Red"
  shows "\<exists>m. right_rotate n = Some m \<and> right_move m = Some m \<and> Right m \<noteq> NilNode \<and> right_step n m"
proof -
  obtain ll le lr c e r where n: "n = Node (Node ll Red le lr) c e r"
    using assms by (cases n) (auto simp: color_Red_iff)
  have inv: "c = Black" "llrb ll" "llrb lr" "llrb r" "node_color ll = Black" "node_color lr = Black"
    "node_color r = Black" "bheight ll = bheight lr" "bheight lr = bheight r"
    using assms(1) unfolding n by (auto simp: node_invs)
  let ?r = "Node lr Red e r"
  have "ready ?r" using inv by (simp add: node_invs)
  moreover have "\<exists>f. fixUp (Node ll Black e' q) = Some f \<and> good n f" if "good ?r q" for q e'
    using good_red [of ?r q ll e'] that inv unfolding n by (auto simp: good_def)
  ultimately show ?thesis
    using inv unfolding n by (auto simp: right_rotate_def right_move_def right_step_def)
qed

lemma right_moved:
  assumes "ready n" and "node_color (Left n) = Black" and "Right n \<noteq> NilNode"
  shows "\<exists>m. right_move n = Some m \<and> Right m \<noteq> NilNode \<and> right_step n m"
proof -
  obtain l e r where n: "n = Node l Red e r" "node_color l = Black"
    using assms by (cases n) (auto simp: ready_def)
  have lr: "llrb l" "llrb r" "node_color r = Black" "bheight l = bheight r"
    using assms(1) unfolding n by (auto simp: node_invs)
  show ?thesis
  proof (cases "node_color (Left r)")
    case Red
    then have "ready r" "r \<noteq> NilNode" using lr assms(3) n by (auto simp: ready_def)
    moreover have "\<exists>f. fixUp (Node l Red e' q) = Some f \<and> good n f" if "good r q" for q e'
      using that lr n by (auto simp: node_invs fixUp_right_black)
    ultimately show ?thesis using Red n by (auto simp: right_move_def right_step_def)
  next
    case Black
    obtain rl re rr where r: "r = Node rl Black re rr" using lr assms(3) n by (cases r) auto
    obtain ll le lr where l: "l = Node ll Black le lr" using lr r n by (cases l) auto
    have inv: "llrb ll" "llrb lr" "llrb rl" "llrb rr" "node_color rl = Black" "node_color lr = Black"
      "node_color rr = Black" "bheight ll = bheight lr" "bheight rl = bheight rr" "bheight lr = bheight rl"
      using lr Black unfolding l r by (auto simp: node_invs)
    let ?r = "Node rl Red re rr"
    have red: "ready ?r" using inv by (simp add: node_invs)
    show ?thesis
    proof (cases "node_color ll")
      case Red
      then obtain a x b where ll: "ll = Node a Red x b" by (auto simp: color_Red_iff)
      have "swung (Node lr Black e ?r)" using inv by (auto simp: swung_def llrb_def)
      then show ?thesis
        using inv unfolding n l r ll
        by (auto simp: right_move_def moveRedRight_def right_step_def node_invs fixUp_right_black)
    next
      case Black
      have "\<exists>f. fixUp (Node (Node ll Red le lr) Black e' q) = Some f \<and> good n f" if "good ?r q" for q e'
      proof (cases "node_color q")
        case Red
        then obtain ql qe qr where q: "q = Node ql Red qe qr" by (auto simp: color_Red_iff)
        with that inv Black show ?thesis unfolding n l r by (auto simp: node_invs fixUp_right_red)
      next
        case q: Black
        with that inv Black show ?thesis unfolding n l r by (auto simp: node_invs fixUp_right_black)
      qed
      then show ?thesis
        using Black inv red unfolding n l r
        by (auto simp: right_move_def moveRedRight_def right_step_def)
    qed
  qed
qed

lemma right_prepare:
  assumes "ready n \<or> swung n" and "n \<noteq> NilNode"
  shows "right_rotate n = Some n \<and> Right n = NilNode \<and> Left n = NilNode \<and> node_color n = Red
    \<or> (\<exists>m p. right_rotate n = Some m \<and> Right m \<noteq> NilNode \<and> right_move m = Some p \<and> Right p \<noteq> NilNode \<and> right_step n p)"
proof (cases "swung n")
  case True
  then have "Right n \<noteq> NilNode" by (auto simp: swung_def)
  with right_swung [OF True] show ?thesis by blast
next
  case False
  then have rd: "ready n" using assms(1) by blast
  show ?thesis
  proof (cases "node_color (Left n) = Red")
    case True
    then show ?thesis using right_rotated [OF rd] by blast
  next
    case left: False
    then have rot: "right_rotate n = Some n" by (simp add: right_rotate_def)
    show ?thesis
    proof (cases "Right n = NilNode")
      case True
      then have "Left n = NilNode" "node_color n = Red"
        using rd left by (cases n; cases "Left n"; auto simp: node_invs split: if_splits)+
      with rot True show ?thesis by blast
    next
      case False
      then show ?thesis using right_moved [OF rd _ False] left rot by auto
    qed
  qed
qed

text \<open>A preparation hands over elements from the far side of the root only.\<close>

lemma moveRedLeft_far:
  "moveRedLeft n = Some m \<Longrightarrow> set (ElemOf m # inorder (Right m)) \<subseteq> set (ElemOf n # inorder (Right n))"
  by (cases n; cases "Right n"; cases "Left (Right n)"; cases "Left n")
     (auto simp: moveRedLeft_def bind_eq_Some_conv split: if_splits)

lemma rotateRight_far:
  "rotateRight n = Some m \<Longrightarrow> set (ElemOf m # inorder (Left m)) \<subseteq> set (ElemOf n # inorder (Left n))"
  by (cases n rule: rotateRight.cases) auto

lemma moveRedRight_far:
  "moveRedRight n = Some m \<Longrightarrow> set (ElemOf m # inorder (Left m)) \<subseteq> set (ElemOf n # inorder (Left n))"
  by (cases n; cases "Left n"; cases "Left (Left n)"; cases "Right n")
     (auto simp: moveRedRight_def bind_eq_Some_conv split: if_splits)

lemma right_far:
  assumes "right_rotate n = Some m" and "right_move m = Some p"
  shows "set (ElemOf p # inorder (Left p)) \<subseteq> set (ElemOf n # inorder (Left n))" and "inorder p = inorder n"
  using assms rotateRight_far [of n m] moveRedRight_far [of m p]
  by (auto simp: right_rotate_def right_move_def split: if_splits dest!: inorder_ops)

lemma fixUp_leaf: "Left n = NilNode \<Longrightarrow> Right n = NilNode \<Longrightarrow> n \<noteq> NilNode \<Longrightarrow> fixUp n = Some n"
  by (cases n) (auto simp: fixUp_right_black)

lemma deleteMin_node:
  assumes "ready n" and "n \<noteq> NilNode"
  shows "\<exists>q. deleteMin n = Some (q, - 1) \<and> good n q \<and> inorder q = tl (inorder n)"
  using deleteMin_ok [OF assms order_refl] by (simp add: deleteMin_def)

definition deleted :: "('e \<Rightarrow> int) \<Rightarrow> 'e node \<Rightarrow> 'e node \<times> int \<Rightarrow> bool" where
  "deleted cmp n = (\<lambda>(q, d). inorder q = filter (\<lambda>e. cmp e \<noteq> 0) (inorder n)
     \<and> d = int (length (inorder q)) - int (length (inorder n)))"

lemma delete_fuel_right:
  "n \<noteq> NilNode \<Longrightarrow> cmp (ElemOf n) \<ge> 0 \<Longrightarrow> delete_fuel (Suc k) cmp n = do {
     m \<leftarrow> right_rotate n;
     if Right m = NilNode \<and> cmp (ElemOf m) = 0 then Some (NilNode, - 1)
     else if Right m \<noteq> NilNode then do {
       p \<leftarrow> right_move m;
       (p, d) \<leftarrow>
         (if cmp (ElemOf p) = 0 then do {
            e \<leftarrow> min_elem (Right p);
            (r, d) \<leftarrow> deleteMin (Right p);
            Some (Node (Left p) (Color p) e r, d) }
          else do { (r, d) \<leftarrow> delete_fuel k cmp (Right p); Some (set_right r p, d) });
       f \<leftarrow> fixUp p;
       Some (f, d) }
     else do { f \<leftarrow> fixUp m; Some (f, 0) } }"
  unfolding right_rotate_def right_move_def by simp

lemma delete_left:
  assumes rd: "ready n" and lt: "cmp (ElemOf n) < 0" and n0: "n \<noteq> NilNode" and ord: "ordered cmp (inorder n)"
    and len: "length (inorder n) \<le> Suc k"
    and IH: "\<And>m. ready m \<Longrightarrow> m \<noteq> NilNode \<Longrightarrow> ordered cmp (inorder m) \<Longrightarrow> length (inorder m) \<le> k \<Longrightarrow>
      \<exists>q d. delete_fuel k cmp m = Some (q, d) \<and> good m q \<and> deleted cmp m (q, d)"
  shows "\<exists>q d. delete_fuel (Suc k) cmp n = Some (q, d) \<and> good n q \<and> deleted cmp n (q, d)"
proof (cases "Left n = NilNode")
  case True
  with ready_leaf [OF rd n0] have leaf: "Right n = NilNode" by simp
  have "inorder n = [ElemOf n]" using inorder_node [OF n0] True leaf by simp
  moreover have "good n n" using rd by (simp add: node_invs)
  ultimately show ?thesis
    using True n0 lt fixUp_leaf [OF True leaf n0] by (simp add: deleted_def)
next
  case False
  obtain m where m: "(if node_color (Left n) = Black \<and> node_color (Left (Left n)) = Black then moveRedLeft n else Some n) = Some m"
    "left_step n m" using left_prepare [OF rd False] by blast
  have m0: "m \<noteq> NilNode" by (rule left_step_Node [OF m(2)])
  have ino: "inorder n = inorder (Left m) @ ElemOf m # inorder (Right m)"
    using m(1) inorder_node [OF m0] by (auto split: if_splits dest: inorder_moveRedLeft)
  have "set (ElemOf m # inorder (Right m)) \<subseteq> set (ElemOf n # inorder (Right n))"
    using m(1) moveRedLeft_far [of n m] by (auto split: if_splits)
  moreover have "\<forall>y \<in> set (inorder (Right n)). cmp y < 0"
    using ord ordered_below [of cmp "inorder (Left n)" "ElemOf n"] lt inorder_node [OF n0] by simp
  ultimately have below: "\<forall>y \<in> set (ElemOf m # inorder (Right m)). cmp y < 0"
    using lt by auto
  have "ordered cmp (inorder (Left m))" "length (inorder (Left m)) \<le> k"
    using ord len unfolding ino by (auto simp: ordered_append)
  then obtain q d where q: "delete_fuel k cmp (Left m) = Some (q, d)" "good (Left m) q" "deleted cmp (Left m) (q, d)"
    using IH [of "Left m"] m(2) by (auto simp: left_step_def)
  then obtain f where f: "fixUp (set_left q m) = Some f" "good n f"
    using m(2) by (auto simp: left_step_def)
  have "filter (\<lambda>e. cmp e \<noteq> 0) (ElemOf m # inorder (Right m)) = ElemOf m # inorder (Right m)"
    using below by (intro filter_True) auto
  then have "deleted cmp n (f, d)"
    using q(3) inorder_fixUp [OF f(1)] inorder_set_left [OF m0] ino by (auto simp: deleted_def)
  with m q f False n0 lt show ?thesis by simp
qed

lemma delete_right:
  assumes rd: "ready n \<or> swung n" and ge: "cmp (ElemOf n) \<ge> 0" and n0: "n \<noteq> NilNode" and ord: "ordered cmp (inorder n)"
    and len: "length (inorder n) \<le> Suc k"
    and IH: "\<And>m. ready m \<or> swung m \<and> cmp (ElemOf m) \<ge> 0 \<Longrightarrow> m \<noteq> NilNode \<Longrightarrow> ordered cmp (inorder m) \<Longrightarrow>
      length (inorder m) \<le> k \<Longrightarrow> \<exists>q d. delete_fuel k cmp m = Some (q, d) \<and> good m q \<and> deleted cmp m (q, d)"
  shows "\<exists>q d. delete_fuel (Suc k) cmp n = Some (q, d) \<and> good n q \<and> deleted cmp n (q, d)"
  using right_prepare [OF rd n0]
proof (elim disjE exE conjE)
  assume leaf: "right_rotate n = Some n" "Right n = NilNode" "Left n = NilNode" "node_color n = Red"
  have "inorder n = [ElemOf n]" using inorder_node [OF n0] leaf by simp
  moreover have "good n n" "good n NilNode" using leaf n0 by (cases n; auto simp: node_invs)+
  ultimately show ?thesis
    unfolding delete_fuel_right [where cmp = cmp, OF n0 ge] using leaf fixUp_leaf [OF leaf(3,2) n0]
    by (cases "cmp (ElemOf n) = 0") (simp_all add: deleted_def)
next
  fix m p
  assume p: "right_rotate n = Some m" "Right m \<noteq> NilNode" "right_move m = Some p" "Right p \<noteq> NilNode" "right_step n p"
  have p0: "p \<noteq> NilNode" using p(5) by (simp add: right_step_def)
  have ino: "inorder n = inorder (Left p) @ ElemOf p # inorder (Right p)"
    using right_far(2) [OF p(1,3)] inorder_node [OF p0] by simp
  have ordp: "ordered cmp (inorder (Left p) @ ElemOf p # inorder (Right p))" using ord ino by simp
  have "\<forall>x \<in> set (inorder (Left n)). cmp x > 0"
    using ord ordered_above [of cmp "inorder (Left n)" "ElemOf n"] ge inorder_node [OF n0] by simp
  then have gep: "cmp (ElemOf p) \<ge> 0"
    using right_far(1) [OF p(1,3)] ge by force
  have above: "filter (\<lambda>e. cmp e \<noteq> 0) (inorder (Left p)) = inorder (Left p)"
    using ordered_above [OF ordp gep] by (intro filter_True) auto
  show ?thesis
  proof (cases "cmp (ElemOf p) = 0")
    case True
    have below: "\<forall>y \<in> set (inorder (Right p)). cmp y < 0"
      using ordered_below [OF ordp] True by simp
    have "\<not> (swung (Right p) \<and> ElemOf (Right p) = ElemOf n)"
      using below ge inorder_node [OF p(4)] by force
    then have "ready (Right p)" using p(5) by (auto simp: right_step_def)
    then obtain q where q: "deleteMin (Right p) = Some (q, - 1)" "good (Right p) q" "inorder q = tl (inorder (Right p))"
      using deleteMin_node p(4) by blast
    obtain f where f: "fixUp (Node (Left p) (Color p) (hd (inorder (Right p))) q) = Some f" "good n f"
      using p(5) q(2) by (auto simp: right_step_def)
    have "filter (\<lambda>e. cmp e \<noteq> 0) (inorder (Right p)) = inorder (Right p)"
      using below by (intro filter_True) auto
    moreover have "inorder f = inorder (Left p) @ inorder (Right p)"
      using inorder_fixUp [OF f(1)] q(3) p(4) by simp
    ultimately have "deleted cmp n (f, - 1)"
      using above True by (simp add: deleted_def ino)
    with f(2) show ?thesis
      unfolding delete_fuel_right [where cmp = cmp, OF n0 ge] using p(1-4) True q(1) f(1) min_elem_inorder [OF p(4)] by simp
  next
    case False
    have "ordered cmp (inorder (Right p))" "length (inorder (Right p)) \<le> k"
      using ordp len unfolding ino by (auto simp: ordered_append)
    moreover have "ready (Right p) \<or> swung (Right p) \<and> cmp (ElemOf (Right p)) \<ge> 0"
      using p(5) ge by (auto simp: right_step_def)
    ultimately obtain q d where q: "delete_fuel k cmp (Right p) = Some (q, d)" "good (Right p) q" "deleted cmp (Right p) (q, d)"
      using IH [of "Right p"] p(4) by blast
    obtain f where f: "fixUp (Node (Left p) (Color p) (ElemOf p) q) = Some f" "good n f"
      using p(5) q(2) by (auto simp: right_step_def)
    have "set_right q p = Node (Left p) (Color p) (ElemOf p) q" using p0 by (cases p) auto
    moreover have "deleted cmp n (f, d)"
      using q(3) inorder_fixUp [OF f(1)] above False by (auto simp: deleted_def ino)
    ultimately show ?thesis
      unfolding delete_fuel_right [where cmp = cmp, OF n0 ge] using p(1-4) False q(1) f by simp
  qed
qed

lemma delete_fuel_ok:
  assumes "ready n \<or> swung n \<and> cmp (ElemOf n) \<ge> 0" and "n \<noteq> NilNode" and "ordered cmp (inorder n)"
    and "length (inorder n) \<le> k"
  shows "\<exists>q d. delete_fuel k cmp n = Some (q, d) \<and> good n q \<and> deleted cmp n (q, d)"
  using assms
proof (induction k arbitrary: n)
  case 0
  then show ?case by (cases n) auto
next
  case (Suc k)
  show ?case
  proof (cases "cmp (ElemOf n) < 0")
    case True
    then have "ready n" using Suc.prems(1) by auto
    then show ?thesis
      using delete_left [OF _ True Suc.prems(2-4)] Suc.IH by blast
  next
    case False
    then show ?thesis
      using delete_right [OF _ _ Suc.prems(2-4)] Suc.IH Suc.prems(1) by auto
  qed
qed

section \<open>Deletion of the greatest element\<close>

fun deleteMax_fuel :: "nat \<Rightarrow> 'e node \<Rightarrow> ('e node \<times> int) option" where
  "deleteMax_fuel 0 n = None"
| "deleteMax_fuel (Suc k) n =
     (if n = NilNode then None
      else do {
        n \<leftarrow> (if Left n \<noteq> NilNode \<and> node_color (Left n) = Red then rotateRight n else Some n);
        if Right n = NilNode then Some (NilNode, - 1)
        else do {
          n \<leftarrow> (if node_color (Right n) = Black \<and> node_color (Left (Right n)) = Black then moveRedRight n else Some n);
          (r, d) \<leftarrow> deleteMax_fuel k (Right n);
          n \<leftarrow> fixUp (set_right r n);
          Some (n, d) } })"

definition deleteMax :: "'e node \<Rightarrow> ('e node \<times> int) option" where
  "deleteMax n = deleteMax_fuel (length (inorder n)) n"

lemma deleteMax_fuel_Suc:
  "n \<noteq> NilNode \<Longrightarrow> deleteMax_fuel (Suc k) n = do {
     m \<leftarrow> right_rotate n;
     if Right m = NilNode then Some (NilNode, - 1)
     else do {
       p \<leftarrow> right_move m;
       (r, d) \<leftarrow> deleteMax_fuel k (Right p);
       f \<leftarrow> fixUp (set_right r p);
       Some (f, d) } }"
  unfolding right_rotate_def right_move_def by (cases "Left n = NilNode") simp_all

lemma deleteMax_ok:
  assumes "ready n \<or> swung n" and "n \<noteq> NilNode" and "length (inorder n) \<le> k"
  shows "\<exists>q. deleteMax_fuel k n = Some (q, - 1) \<and> good n q \<and> inorder q = butlast (inorder n)"
  using assms
proof (induction k arbitrary: n)
  case 0
  then show ?case by (cases n) auto
next
  case (Suc k)
  show ?case
    using right_prepare [OF Suc.prems(1,2)]
  proof (elim disjE exE conjE)
    assume leaf: "right_rotate n = Some n" "Right n = NilNode" "Left n = NilNode" "node_color n = Red"
    then have "good n NilNode" "inorder n = [ElemOf n]" using Suc.prems(2) by (cases n; auto simp: node_invs)+
    with leaf show ?thesis unfolding deleteMax_fuel_Suc [OF Suc.prems(2)] by simp
  next
    fix m p
    assume p: "right_rotate n = Some m" "Right m \<noteq> NilNode" "right_move m = Some p" "Right p \<noteq> NilNode" "right_step n p"
    have p0: "p \<noteq> NilNode" using p(5) by (simp add: right_step_def)
    have ino: "inorder n = inorder (Left p) @ ElemOf p # inorder (Right p)"
      using right_far(2) [OF p(1,3)] inorder_node [OF p0] by simp
    have "ready (Right p) \<or> swung (Right p)" using p(5) by (auto simp: right_step_def)
    moreover have "length (inorder (Right p)) \<le> k" using Suc.prems(3) ino by simp
    ultimately obtain q where q: "deleteMax_fuel k (Right p) = Some (q, - 1)" "good (Right p) q"
      "inorder q = butlast (inorder (Right p))"
      using Suc.IH p(4) by blast
    obtain f where f: "fixUp (Node (Left p) (Color p) (ElemOf p) q) = Some f" "good n f"
      using p(5) q(2) by (auto simp: right_step_def)
    have "set_right q p = Node (Left p) (Color p) (ElemOf p) q" using p0 by (cases p) auto
    moreover have "inorder f = butlast (inorder n)"
      using inorder_fixUp [OF f(1)] q(3) p(4) ino by (simp add: butlast_append)
    ultimately show ?thesis
      unfolding deleteMax_fuel_Suc [OF Suc.prems(2)] using p(1-4) q(1) f by simp
  qed
qed

section \<open>The colour of the root is not read\<close>

text \<open>
  The operations of the tree paint the root black at the end and do not paint it red at the start, so they
  descend into a black root whose left link is black. None of the rearrangements reads the colour of the
  node it starts from: the outcome is that for a red root, up to the colour of the new root.
\<close>

definition alike :: "'e node option \<Rightarrow> 'e node option \<Rightarrow> bool" where
  "alike x y \<longleftrightarrow> map_option (paint Black) x = map_option (paint Black) y"

lemma alike_Some: "alike (Some n) y \<longleftrightarrow> (\<exists>m. y = Some m \<and> paint Black n = paint Black m)"
  by (cases y) (auto simp: alike_def)

lemma alike_None [simp]: "alike None y \<longleftrightarrow> y = None"
  by (cases y) (auto simp: alike_def)

lemma paint_Node_eq: "paint Black n = Node l Black e r \<longleftrightarrow> (\<exists>c. n = Node l c e r)"
  by (cases n) auto

lemma alike_bindI:
  assumes "alike x y" and "\<And>l c c' e r. R (f (Node l c e r)) (f (Node l c' e r))" and "R (f NilNode) (f NilNode)"
    and "R None None"
  shows "R (Option.bind x f) (Option.bind y f)"
proof (cases x)
  case (Some n)
  then obtain m where y: "y = Some m" and eq: "paint Black n = paint Black m" using assms(1) by (auto simp: alike_Some)
  show ?thesis
  proof (cases n)
    case NilNode
    then have "m = NilNode" using eq by (cases m) auto
    with Some y NilNode assms(3) show ?thesis by simp
  next
    case (Node l c e r)
    then obtain c' where "m = Node l c' e r" using eq by (cases m) auto
    with Some y Node assms(2) show ?thesis by simp
  qed
qed (use assms(1,4) in simp)

lemma alike_refl [simp]: "alike x x"
  by (simp add: alike_def)

lemma alike_rotateLeft: "alike (rotateLeft (Node l c e r)) (rotateLeft (Node l c' e r))"
  by (cases r) (simp_all add: alike_def)

lemma alike_rotateRight: "alike (rotateRight (Node l c e r)) (rotateRight (Node l c' e r))"
  by (cases l) (simp_all add: alike_def)

lemma alike_flipColors: "alike (flipColors (Node l c e r)) (flipColors (Node l c' e r))"
  by (cases l; cases r) (simp_all add: alike_def)

lemma alike_Node [simp]: "alike (Some (Node l c e r)) (Some (Node l c' e r))"
  by (simp add: alike_def)

lemmas alike_ops = alike_rotateLeft alike_rotateRight alike_flipColors alike_flipColors [simplified]

lemmas alike_bind = alike_bindI [where R = alike]

lemma alike_fixUp: "alike (fixUp (Node l c e r)) (fixUp (Node l c' e r))"
  unfolding fixUp_def by (intro alike_bind) (auto simp: alike_ops red_pair_def)

lemma alike_moveRedLeft: "alike (moveRedLeft (Node l c e r)) (moveRedLeft (Node l c' e r))"
  unfolding moveRedLeft_def
proof (intro alike_bind, goal_cases)
  case (2 l c c' e r)
  show ?case
  proof (cases "rotateRight r")
    case (Some q)
    have "alike (rotateLeft (Node l c e q) \<bind> flipColors) (rotateLeft (Node l c' e q) \<bind> flipColors)"
      by (intro alike_bind) (simp_all add: alike_ops)
    with Some show ?thesis by simp
  qed simp
qed (simp_all add: alike_ops)

lemma alike_moveRedRight: "alike (moveRedRight (Node l c e r)) (moveRedRight (Node l c' e r))"
  unfolding moveRedRight_def
proof (intro alike_bind, goal_cases)
  case (2 l c c' e r)
  have "alike (rotateRight (Node l c e r) \<bind> flipColors) (rotateRight (Node l c' e r) \<bind> flipColors)"
    by (intro alike_bind) (simp_all add: alike_ops)
  then show ?case by simp
qed (simp_all add: alike_ops)

lemma alike_right_rotate: "alike (right_rotate (Node l c e r)) (right_rotate (Node l c' e r))"
  by (simp add: right_rotate_def alike_ops)

lemma alike_right_move: "alike (right_move (Node l c e r)) (right_move (Node l c' e r))"
  by (simp add: right_move_def alike_moveRedRight)

definition counted :: "('e node \<times> int) option \<Rightarrow> ('e node \<times> int) option \<Rightarrow> bool" where
  "counted x y \<longleftrightarrow> map_option (map_prod (paint Black) id) x = map_option (map_prod (paint Black) id) y"

lemma counted_refl [simp]: "counted x x"
  by (simp add: counted_def)

lemma counted_fixUp:
  "counted (do { f \<leftarrow> fixUp (Node l c e r); Some (f, d) }) (do { f \<leftarrow> fixUp (Node l c' e r); Some (f, d) })"
  using alike_fixUp [of l c e r c'] by (rule alike_bindI) (simp_all add: counted_def)

lemma counted_deleteMin: "counted (deleteMin_fuel (Suc k) (Node l c e r)) (deleteMin_fuel (Suc k) (Node l c' e r))"
proof (cases "l = NilNode")
  case False
  let ?pre = "\<lambda>n. if node_color (Left n) = Black \<and> node_color (Left (Left n)) = Black then moveRedLeft n else Some n"
  let ?rest = "\<lambda>n. do { (l, d) \<leftarrow> deleteMin_fuel k (Left n); n \<leftarrow> fixUp (set_left l n); Some (n, d) }"
  have "alike (?pre (Node l c e r)) (?pre (Node l c' e r))" by (simp add: alike_moveRedLeft)
  then have "counted (?pre (Node l c e r) \<bind> ?rest) (?pre (Node l c' e r) \<bind> ?rest)"
  proof (rule alike_bindI, goal_cases)
    case (1 l c c' e r)
    then show ?case by (cases "deleteMin_fuel k l") (auto simp: counted_fixUp)
  qed simp_all
  with False show ?thesis by simp
qed simp

lemma counted_deleteMax: "counted (deleteMax_fuel (Suc k) (Node l c e r)) (deleteMax_fuel (Suc k) (Node l c' e r))"
proof -
  have rest: "counted (right_move n \<bind> (\<lambda>p. deleteMax_fuel k (Right p) \<bind> (\<lambda>(r, d). fixUp (set_right r p) \<bind> (\<lambda>f. Some (f, d)))))
      (right_move m \<bind> (\<lambda>p. deleteMax_fuel k (Right p) \<bind> (\<lambda>(r, d). fixUp (set_right r p) \<bind> (\<lambda>f. Some (f, d)))))"
    if "n = Node l c e r" "m = Node l c' e r" for n m l c c' r and e :: 'a
    unfolding that using alike_right_move
  proof (rule alike_bindI, goal_cases)
    case (1 l c c' e r)
    then show ?case by (cases "deleteMax_fuel k r") (auto simp: counted_fixUp)
  qed simp_all
  show ?thesis
    unfolding deleteMax_fuel_Suc [OF node.distinct(2)] using alike_right_rotate
    by (rule alike_bindI) (auto intro!: rest)
qed

lemma counted_delete: "counted (delete_fuel (Suc k) cmp (Node l c e r)) (delete_fuel (Suc k) cmp (Node l c' e r))"
proof (cases "cmp e < 0")
  case True
  let ?pre = "\<lambda>n. if node_color (Left n) = Black \<and> node_color (Left (Left n)) = Black then moveRedLeft n else Some n"
  let ?rest = "\<lambda>n. do { (l, d) \<leftarrow> delete_fuel k cmp (Left n); n \<leftarrow> fixUp (set_left l n); Some (n, d) }"
  have "alike (?pre (Node l c e r)) (?pre (Node l c' e r))" by (simp add: alike_moveRedLeft)
  then have "counted (?pre (Node l c e r) \<bind> ?rest) (?pre (Node l c' e r) \<bind> ?rest)"
  proof (rule alike_bindI, goal_cases)
    case (1 l c c' e r)
    then show ?case by (cases "delete_fuel k cmp l") (auto simp: counted_fixUp)
  qed simp_all
  with True show ?thesis by (cases "l = NilNode") (simp_all add: counted_fixUp)
next
  case False
  let ?sub = "\<lambda>p. (if cmp (ElemOf p) = 0 then do { e \<leftarrow> min_elem (Right p); (r, d) \<leftarrow> deleteMin (Right p);
         Some (Node (Left p) (Color p) e r, d) }
       else do { (r, d) \<leftarrow> delete_fuel k cmp (Right p); Some (set_right r p, d) })"
  have sub: "counted (?sub n \<bind> (\<lambda>(p, d). fixUp p \<bind> (\<lambda>f. Some (f, d)))) (?sub m \<bind> (\<lambda>(p, d). fixUp p \<bind> (\<lambda>f. Some (f, d))))"
    if "n = Node l c e r" "m = Node l c' e r" for n m l c c' e r
    unfolding that
    by (cases "min_elem r"; cases "deleteMin r"; cases "delete_fuel k cmp r") (auto simp: counted_fixUp)
  have rest: "counted (right_move n \<bind> (\<lambda>p. ?sub p \<bind> (\<lambda>(p, d). fixUp p \<bind> (\<lambda>f. Some (f, d)))))
      (right_move m \<bind> (\<lambda>p. ?sub p \<bind> (\<lambda>(p, d). fixUp p \<bind> (\<lambda>f. Some (f, d)))))"
    if "n = Node l c e r" "m = Node l c' e r" for n m l c c' e r
    unfolding that using alike_right_move
    by (rule alike_bindI) (rule sub, simp_all)
  have ge: "cmp (ElemOf (Node l c e r)) \<ge> 0" for l c r using False by simp
  show ?thesis
    unfolding delete_fuel_right [where cmp = cmp, OF node.distinct(2) ge] using alike_right_rotate
  proof (rule alike_bindI, goal_cases)
    case (1 l c c' e r)
    then show ?case
      using rest [of "Node l c e r" l c e r "Node l c' e r" c'] by (auto simp: counted_fixUp)
  qed simp_all
qed

section \<open>The operations at the root\<close>

definition black_root :: "'e node \<Rightarrow> bool" where
  "black_root n = (llrb n \<and> node_color n = Black)"

text \<open>A black root is as good as one that is ready.\<close>

lemma black_root_ready:
  assumes "black_root n" and "n \<noteq> NilNode"
  shows "ready n \<or> ready (paint Red n)"
  using assms by (cases n) (auto simp: black_root_def node_invs)

lemma good_black_root: "good n q \<Longrightarrow> black_root (paint Black q)"
  by (auto simp: good_def black_root_def llrb_def leaning_paint_Black)

lemma counted_Some:
  "counted (Some (q, d)) y \<Longrightarrow> \<exists>q'. y = Some (q', d) \<and> paint Black q' = paint Black q"
  by (cases y) (auto simp: counted_def)

lemma at_root:
  assumes "black_root n" and "n \<noteq> NilNode"
    and "\<And>l c c' e r. counted (f (Node l c e r)) (f (Node l c' e r))"
    and "\<And>m. ready m \<Longrightarrow> m \<noteq> NilNode \<Longrightarrow> inorder m = inorder n \<Longrightarrow> \<exists>q d. f m = Some (q, d) \<and> good m q \<and> P (inorder q) d"
  shows "\<exists>q d. f n = Some (q, d) \<and> black_root (paint Black q) \<and> P (inorder q) d"
proof (cases "ready n")
  case True
  with assms(4) [of n] assms(2) show ?thesis using good_black_root by blast
next
  case False
  then have "ready (paint Red n)" using black_root_ready [OF assms(1,2)] by blast
  moreover have "paint Red n \<noteq> NilNode" using assms(2) by (cases n) auto
  ultimately obtain q d where q: "f (paint Red n) = Some (q, d)" "good (paint Red n) q" "P (inorder q) d"
    using assms(4) [of "paint Red n"] by auto
  have "counted (f (paint Red n)) (f n)"
    using assms(2,3) by (cases n) auto
  then obtain q' where q': "f n = Some (q', d)" "paint Black q' = paint Black q"
    using q(1) counted_Some by metis
  then have "inorder q' = inorder q" by (metis inorder_paint)
  with q q' show ?thesis using good_black_root by fastforce
qed

lemma inorder_Suc: "n \<noteq> NilNode \<Longrightarrow> \<exists>k. length (inorder n) = Suc k"
  by (cases n) auto

lemma delete_node_root:
  assumes "black_root n" and "n \<noteq> NilNode" and "ordered cmp (inorder n)"
  shows "\<exists>q d. delete_node cmp n = Some (q, d) \<and> black_root (paint Black q)
    \<and> inorder q = filter (\<lambda>e. cmp e \<noteq> 0) (inorder n) \<and> d = int (length (inorder q)) - int (length (inorder n))"
proof -
  obtain k where k: "length (inorder n) = Suc k" using inorder_Suc [OF assms(2)] by blast
  show ?thesis
    unfolding delete_node_def k
    apply (rule at_root [where f = "delete_fuel (Suc k) cmp", OF assms(1,2) counted_delete])
    subgoal for m using delete_fuel_ok [of m cmp "Suc k"] assms(3) k by (auto simp: deleted_def simp del: delete_fuel.simps)
    done
qed

lemma deleteMin_root:
  assumes "black_root n" and "n \<noteq> NilNode"
  shows "\<exists>q. deleteMin n = Some (q, - 1) \<and> black_root (paint Black q) \<and> inorder q = tl (inorder n)"
proof -
  obtain k where k: "length (inorder n) = Suc k" using inorder_Suc [OF assms(2)] by blast
  have "\<exists>q d. deleteMin n = Some (q, d) \<and> black_root (paint Black q) \<and> inorder q = tl (inorder n) \<and> d = - 1"
    unfolding deleteMin_def k
    apply (rule at_root [where f = "deleteMin_fuel (Suc k)", OF assms(1,2) counted_deleteMin])
    subgoal for m using deleteMin_ok [of m "Suc k"] k by (auto simp del: deleteMin_fuel.simps)
    done
  then show ?thesis by blast
qed

lemma deleteMax_root:
  assumes "black_root n" and "n \<noteq> NilNode"
  shows "\<exists>q. deleteMax n = Some (q, - 1) \<and> black_root (paint Black q) \<and> inorder q = butlast (inorder n)"
proof -
  obtain k where k: "length (inorder n) = Suc k" using inorder_Suc [OF assms(2)] by blast
  have "\<exists>q d. deleteMax n = Some (q, d) \<and> black_root (paint Black q) \<and> inorder q = butlast (inorder n) \<and> d = - 1"
    unfolding deleteMax_def k
    apply (rule at_root [where f = "deleteMax_fuel (Suc k)", OF assms(1,2) counted_deleteMax])
    subgoal for m using deleteMax_ok [of m "Suc k"] k by (auto simp del: deleteMax_fuel.simps)
    done
  then show ?thesis by blast
qed

lemma insert_node_root:
  assumes "black_root n"
  shows "\<exists>q d. insert_node cmp new upd n = Some (q, d) \<and> black_root (paint Black q) \<and> q \<noteq> NilNode"
  using insert_node_ok [of n cmp new upd] assms
  by (auto simp: black_root_def llrb_def leaning_paint_Black)

section \<open>Modification in place\<close>

lemma modify_shape [simp]:
  "node_color (modify cmp f n) = node_color n" "bheight (modify cmp f n) = bheight n"
  "balanced (modify cmp f n) = balanced n" "leaning (modify cmp f n) = leaning n"
  by (induction n) auto

lemma modify_black_root [simp]: "black_root (modify cmp f n) = black_root n"
  by (simp add: black_root_def llrb_def)

lemma map_unless: "\<forall>x \<in> set xs. P x \<Longrightarrow> map (\<lambda>e. if P e then e else f e) xs = xs"
  by (induction xs) auto

lemma modify_inorder:
  "ordered cmp (inorder n) \<Longrightarrow> inorder (modify cmp f n) = map (\<lambda>e. if cmp e \<noteq> 0 then e else f e) (inorder n)"
proof (induction n)
  case (Node l c e r)
  have "\<forall>x \<in> set (inorder l). cmp x \<noteq> 0" if "cmp e \<ge> 0"
    using ordered_above [of cmp "inorder l" e "inorder r"] Node.prems that by force
  moreover have "\<forall>x \<in> set (inorder r). cmp x \<noteq> 0" if "cmp e \<le> 0"
    using ordered_below [of cmp "inorder l" e "inorder r"] Node.prems that by force
  moreover have "ordered cmp (inorder l)" "ordered cmp (inorder r)"
    using Node.prems by (simp_all add: ordered_append)
  ultimately show ?case
    using Node.IH map_unless [of "inorder l" "\<lambda>e. cmp e \<noteq> 0" f] map_unless [of "inorder r" "\<lambda>e. cmp e \<noteq> 0" f]
    by auto
qed simp

section \<open>Height\<close>

lemma bheight_size: "balanced n \<Longrightarrow> 2 ^ bheight n \<le> length (inorder n) + 1"
proof (induction n)
  case (Node l c e r)
  then have "2 ^ bheight l \<le> length (inorder l) + 1" "(2 :: nat) ^ bheight l \<le> length (inorder r) + 1" by auto
  then show ?case by auto
qed simp

lemma height_bheight: "llrb n \<Longrightarrow> height n \<le> 2 * bheight n + (if node_color n = Red then 1 else 0)"
  by (induction n) (auto simp: llrb_def split: if_splits)

lemma height_log: "black_root n \<Longrightarrow> 2 ^ height n \<le> (length (inorder n) + 1) ^ 2"
proof -
  assume n: "black_root n"
  have "height n \<le> 2 * bheight n" using height_bheight [of n] n by (simp add: black_root_def)
  then have "(2 :: nat) ^ height n \<le> 2 ^ (2 * bheight n)" by (rule power_increasing) simp
  also have "\<dots> = (2 ^ bheight n) ^ 2" by (simp add: power_mult mult.commute)
  also have "\<dots> \<le> (length (inorder n) + 1) ^ 2"
    using bheight_size [of n] n by (intro power_mono) (auto simp: black_root_def llrb_def)
  finally show ?thesis .
qed

end
