(* ===== verification/DNS_Order.thy ===== *)
theory DNS_Order
  imports DNS_Lib
begin

text \<open>
  The order of names in the zone tree, \<^verbatim>\<open>file/tree/less.go\<close>: \<open>doDDD\<close>, which rewrites decimal escapes in
  a label in place, and \<open>less\<close>, which compares two names label by label from the end.

  The comparison is shown to be that of lists of labels, so it is a linear order on names up to
  their labels. The labels are those of the library's \<open>PrevLabel\<close>.
\<close>

section \<open>Bytes of a label\<close>

definition isDigit :: "char \<Rightarrow> bool" where
  "isDigit b = (48 \<le> (of_char b :: nat) \<and> (of_char b :: nat) \<le> 57)"

definition byte_sub :: "char \<Rightarrow> nat \<Rightarrow> nat" where
  "byte_sub c n = (of_char c + 256 - n) mod 256"

text \<open>Arithmetic of Go's \<^verbatim>\<open>byte\<close> is modulo 256.\<close>

definition dddToByte :: "char \<Rightarrow> char \<Rightarrow> char \<Rightarrow> char" where
  "dddToByte s1 s2 s3 = char_of ((byte_sub s1 48 * 100 + byte_sub s2 48 * 10 + byte_sub s3 48) mod 256)"

definition backslash :: char where
  "backslash = char_of (92 :: nat)"

text \<open>
  One step of the loop at index \<open>i\<close> with the live length \<open>lb\<close>: an escape is replaced by its byte and
  the live bytes after it move down by three. The slice keeps its length, and the last three bytes
  of the live part keep their old values.
\<close>

definition ddd_at :: "string \<Rightarrow> nat \<Rightarrow> nat \<Rightarrow> bool" where
  "ddd_at b i lb =
     (i + 3 < lb \<and> b ! i = backslash \<and> isDigit (b ! (i + 1)) \<and> isDigit (b ! (i + 2)) \<and> isDigit (b ! (i + 3)))"

definition ddd_shift :: "string \<Rightarrow> nat \<Rightarrow> nat \<Rightarrow> string" where
  "ddd_shift b i lb =
     take i b @ [dddToByte (b ! (i + 1)) (b ! (i + 2)) (b ! (i + 3))]
     @ take (lb - 3 - (i + 1)) (drop (i + 4) b) @ drop (lb - 3) b"

function ddd_loop :: "string \<Rightarrow> nat \<Rightarrow> nat \<Rightarrow> string" where
  "ddd_loop b i lb =
     (if lb \<le> i then b
      else if ddd_at b i lb then ddd_loop (ddd_shift b i lb) (i + 1) (lb - 3)
      else ddd_loop b (i + 1) lb)"
  by pat_completeness auto
termination
  by (relation "measure (\<lambda>(b, i, lb). lb - i)") (auto simp: ddd_at_def)

declare ddd_loop.simps [simp del]

definition doDDD :: "string \<Rightarrow> string" where
  "doDDD b = ddd_loop b 0 (length b)"

section \<open>The comparison of names\<close>

text \<open>\<^verbatim>\<open>bytes.Compare\<close>.\<close>

definition bytes_Compare :: "string \<Rightarrow> string \<Rightarrow> int" where
  "bytes_Compare a b = (if a = b then 0 else if a < b then - 1 else 1)"

text \<open>
  The loop of \<^verbatim>\<open>less\<close>: \<open>a\<close> and \<open>b\<close> are the prefixes not compared yet. \<open>None\<close> means that the fuel
  ran out; see \<open>less_loop_enough\<close>.
\<close>

fun less_loop :: "dnslib \<Rightarrow> nat \<Rightarrow> string \<Rightarrow> string \<Rightarrow> int option" where
  "less_loop D 0 a b = None"
| "less_loop D (Suc n) a b =
     (let (ai, oka) = PrevLabel D a 1; (bi, okb) = PrevLabel D b 1 in
      if oka \<and> okb then Some 0
      else
        let res = bytes_Compare (doDDD (ToLower (drop ai a))) (doDDD (ToLower (drop bi b)))
        in if res \<noteq> 0 then Some res else less_loop D n (take ai a) (take bi b))"

definition less_name :: "dnslib \<Rightarrow> string \<Rightarrow> string \<Rightarrow> int" where
  "less_name D a b = (case less_loop D (Suc (length a + length b)) a b of Some c \<Rightarrow> c | None \<Rightarrow> 0)"

section \<open>The labels of a name\<close>

text \<open>The bytes that are compared, from the last label to the first.\<close>

function name_key :: "dnslib \<Rightarrow> string \<Rightarrow> string list" where
  "name_key D s =
     (let i = fst (PrevLabel D s 1) in
      if s = '''' \<or> length s \<le> i then [] else doDDD (ToLower (drop i s)) # name_key D (take i s))"
  by pat_completeness auto
termination
  by (relation "measure (\<lambda>(D, s). length s)") auto

declare name_key.simps [simp del]

lemma length_ddd_shift: "ddd_at b i lb \<Longrightarrow> lb \<le> length b \<Longrightarrow> length (ddd_shift b i lb) = length b"
  by (auto simp: ddd_at_def ddd_shift_def)

lemma length_ddd_loop: "lb \<le> length b \<Longrightarrow> length (ddd_loop b i lb) = length b"
proof (induction b i lb rule: ddd_loop.induct)
  case (1 b i lb)
  then show ?case
    by (subst ddd_loop.simps) (auto simp: length_ddd_shift)
qed

lemma length_doDDD [simp]: "length (doDDD b) = length b"
  by (simp add: doDDD_def length_ddd_loop)

lemma doDDD_Nil_iff [simp]: "doDDD b = [] \<longleftrightarrow> b = []"
  using length_doDDD [of b] by (metis length_0_conv)

lemma doDDD_Nil [simp]: "doDDD [] = []"
  by simp

lemma bytes_Compare_simps [simp]:
  "bytes_Compare a b = 0 \<longleftrightarrow> a = b"
  "bytes_Compare a b < 0 \<longleftrightarrow> a < b"
  "0 < bytes_Compare a b \<longleftrightarrow> b < a"
  by (auto simp: bytes_Compare_def)

lemma name_key_unfold:
  assumes "PrevLabel_ok D" and "s \<noteq> ''''"
  shows "name_key D s = doDDD (ToLower (drop (fst (PrevLabel D s 1)) s)) # name_key D (take (fst (PrevLabel D s 1)) s)"
  using assms by (subst name_key.simps) (auto simp: PrevLabel_ok_def Let_def)

lemma name_key_Nil [simp]: "name_key D '''' = []"
  by (simp add: name_key.simps)

lemma name_key_eq_Nil: "PrevLabel_ok D \<Longrightarrow> name_key D s = [] \<longleftrightarrow> s = ''''"
  using name_key_unfold by fastforce

definition compare_keys :: "string list \<Rightarrow> string list \<Rightarrow> int" where
  "compare_keys x y = (if x = y then 0 else if x < y then - 1 else 1)"

lemma compare_keys_simps [simp]:
  "compare_keys x y = 0 \<longleftrightarrow> x = y"
  "compare_keys x y < 0 \<longleftrightarrow> x < y"
  "0 < compare_keys x y \<longleftrightarrow> y < x"
  by (auto simp: compare_keys_def)

lemma compare_keys_Cons:
  "compare_keys (x # xs) (y # ys) = (if bytes_Compare x y = 0 then compare_keys xs ys else bytes_Compare x y)"
  by (auto simp: compare_keys_def bytes_Compare_def)

lemma compare_keys_Nil:
  "compare_keys [] (y # ys) = - 1" "compare_keys (x # xs) [] = 1" "compare_keys [] [] = 0"
  by (simp_all add: compare_keys_def)

lemma PrevLabel_drop:
  assumes "PrevLabel_ok D" and "s \<noteq> ''''"
  shows "doDDD (ToLower (drop (fst (PrevLabel D s 1)) s)) \<noteq> []"
  using assms by (auto simp: PrevLabel_ok_def)

lemma less_loop_enough:
  assumes "PrevLabel_ok D" and "length a + length b < n"
  shows "less_loop D n a b = Some (compare_keys (name_key D a) (name_key D b))"
  using assms(2)
proof (induction n arbitrary: a b)
  case (Suc n)
  have P0: "PrevLabel D '''' 1 = (0, True)"
    using assms(1) by (simp add: PrevLabel_ok_def)
  have P: "\<exists>i. PrevLabel D s 1 = (i, False) \<and> i < length s" if "s \<noteq> ''''" for s
    using assms(1) that by (cases "PrevLabel D s 1") (auto simp: PrevLabel_ok_def)
  have left: "less_loop D (Suc n) '''' s = Some (- 1)" if ne: "s \<noteq> ''''" for s
  proof -
    obtain i where "PrevLabel D s 1 = (i, False)" "i < length s" using P [OF ne] by blast
    moreover from this obtain x xs where "doDDD (ToLower (drop i s)) = x # xs"
      by (cases "doDDD (ToLower (drop i s))") auto
    ultimately show ?thesis using P0 by (simp add: bytes_Compare_def Let_def)
  qed
  have right: "less_loop D (Suc n) s '''' = Some 1" if ne: "s \<noteq> ''''" for s
  proof -
    obtain i where "PrevLabel D s 1 = (i, False)" "i < length s" using P [OF ne] by blast
    moreover from this obtain x xs where "doDDD (ToLower (drop i s)) = x # xs"
      by (cases "doDDD (ToLower (drop i s))") auto
    ultimately show ?thesis using P0 by (simp add: bytes_Compare_def Let_def)
  qed
  have key: "\<exists>x xs. name_key D s = x # xs" if "s \<noteq> ''''" for s
    using name_key_unfold [OF assms(1) that] by blast
  show ?case
  proof (cases "a = '''' \<or> b = ''''")
    case True
    then consider "a = ''''" "b = ''''" | "a = ''''" "b \<noteq> ''''" | "a \<noteq> ''''" "b = ''''" by blast
    then show ?thesis
    proof cases
      case 1
      then show ?thesis using P0 by (simp add: compare_keys_Nil)
    next
      case 2
      then show ?thesis using left [OF 2(2)] key [OF 2(2)] by (auto simp: compare_keys_Nil simp del: less_loop.simps)
    next
      case 3
      then show ?thesis using right [OF 3(1)] key [OF 3(1)] by (auto simp: compare_keys_Nil simp del: less_loop.simps)
    qed
  next
    case False
    then obtain i j where i: "PrevLabel D a 1 = (i, False)" "i < length a"
      and j: "PrevLabel D b 1 = (j, False)" "j < length b"
      using P [of a] P [of b] by auto
    then have "length (take i a) + length (take j b) < n"
      using Suc.prems by simp
    then have "less_loop D n (take i a) (take j b) = Some (compare_keys (name_key D (take i a)) (name_key D (take j b)))"
      by (rule Suc.IH)
    with i j False show ?thesis
      by (simp add: name_key_unfold [OF assms(1)] compare_keys_Cons Let_def)
  qed
qed simp

lemma less_name_keys:
  "PrevLabel_ok D \<Longrightarrow> less_name D a b = compare_keys (name_key D a) (name_key D b)"
  by (simp add: less_name_def less_loop_enough del: less_loop.simps)

section \<open>Properties\<close>



text \<open>Two different labels compare as equal. After rewriting an escape, \<open>doDDD\<close> leaves the old bytes at
  the end of the slice, and the comparison looks at the whole slice: the label \<open>\097\<close>, which is
  the letter \<open>a\<close>, becomes \<open>a097\<close>. So it is equal to the label \<open>a097\<close> and different from \<open>a\<close>.\<close>

theorem escape_leaves_tail:
  "doDDD (backslash # ''097'') = ''a097''
   \<and> doDDD (backslash # ''097'') = doDDD ''a097'' \<and> doDDD (backslash # ''097'') \<noteq> doDDD ''a''"
  by code_simp

end
