(* ===== verification/Zone_Tree.thy ===== *)
theory Zone_Tree
  imports LLRB_Node DNS_Order
begin

text \<open>
  The tree of a zone, \<^verbatim>\<open>plugin/file/tree\<close>.

  An \<open>Elem\<close> holds the records of one owner name by type; a \<open>Tree\<close> is the balanced tree of
  \<open>LLRB_Node\<close> over such elements in canonical order of names, with a count. Operations that
  change the tree give \<open>None\<close> for a panic.

  \<open>tree_ok\<close> is the invariant: balanced, black root, names strictly increasing, elements in
  order, the count right. The locale \<open>rr_index\<close> is what the zone relies on, a lookup of records by name
  and type; its interpretation on the tree discharges the laws. The properties say that no
  sequence of operations panics or breaks the invariant, that the tree holds exactly the records that
  were inserted and not deleted, that its height is logarithmic, and what the neighbours of a name are.
\<close>

section \<open>Elements\<close>

record Elem =
  e_m :: "(u16, RR list) gomap"
  e_name :: string

definition newElem :: "RR \<Rightarrow> Elem" where
  "newElem rr = \<lparr>e_m = [(rr_Type rr, [rr])], e_name = rr_Name rr\<rparr>"

definition Elem_Types :: "Elem \<Rightarrow> u16 list" where
  "Elem_Types e = map fst (e_m e)"

text \<open>Go's nil slice, for a type that is absent, is the empty list.\<close>

definition Elem_Type :: "Elem \<Rightarrow> u16 \<Rightarrow> RR list" where
  "Elem_Type e qtype = (case map_of (e_m e) qtype of Some rrs \<Rightarrow> rrs | None \<Rightarrow> [])"

definition TypeForWildcard :: "Elem \<Rightarrow> u16 \<Rightarrow> string \<Rightarrow> RR list" where
  "TypeForWildcard e qtype qname = map (\<lambda>rr. rr\<lparr>rr_Name := qname\<rparr>) (Elem_Type e qtype)"

definition Elem_All :: "Elem \<Rightarrow> RR list" where
  "Elem_All e = concat (map snd (e_m e))"

text \<open>An empty list of records would make the second branch panic; \<open>elem_ok\<close> excludes it.\<close>

definition Elem_Name :: "Elem \<Rightarrow> string" where
  "Elem_Name e =
     (if e_name e \<noteq> '''' then e_name e
      else case e_m e of
          (_, rr # _) # _ \<Rightarrow> rr_Name rr
        | _ \<Rightarrow> '''')"

definition Elem_Empty :: "Elem \<Rightarrow> bool" where
  "Elem_Empty e = (length (e_m e) = 0)"

definition Elem_Insert :: "Elem \<Rightarrow> RR \<Rightarrow> Elem" where
  "Elem_Insert e rr =
     (let t = rr_Type rr in
      case map_of (e_m e) t of
        None \<Rightarrow> e\<lparr>e_m := map_put t [rr] (e_m e)\<rparr>
      | Some rrs \<Rightarrow> e\<lparr>e_m := map_put t (rrs @ [rr]) (e_m e)\<rparr>)"

definition Elem_Delete :: "Elem \<Rightarrow> RR \<Rightarrow> Elem" where
  "Elem_Delete e rr = e\<lparr>e_m := map_del (rr_Type rr) (e_m e)\<rparr>"

definition Less :: "dnslib \<Rightarrow> Elem \<Rightarrow> string \<Rightarrow> int" where
  "Less D a name = less_name D name (Elem_Name a)"

section \<open>The tree\<close>

record Tree =
  t_Root :: "Elem node"
  t_Count :: int

definition new_Tree :: Tree where
  "new_Tree = \<lparr>t_Root = NilNode, t_Count = 0\<rparr>"

definition Tree_Len :: "Tree \<Rightarrow> int" where
  "Tree_Len t = t_Count t"

definition Tree_Search :: "dnslib \<Rightarrow> Tree \<Rightarrow> string \<Rightarrow> Elem option" where
  "Tree_Search D t qname = search (\<lambda>e. Less D e qname) (t_Root t)"

definition Tree_Insert :: "dnslib \<Rightarrow> Tree \<Rightarrow> RR \<Rightarrow> Tree option" where
  "Tree_Insert D t rr =
     do {
       (root, d) \<leftarrow> insert_node (\<lambda>e. Less D e (rr_Name rr)) (newElem rr) (\<lambda>e. Elem_Insert e rr) (t_Root t);
       if root = NilNode then None
       else Some (t\<lparr>t_Root := paint Black root, t_Count := t_Count t + d\<rparr>) }"

definition Tree_DeleteMin :: "Tree \<Rightarrow> Tree option" where
  "Tree_DeleteMin t =
     (if t_Root t = NilNode then Some t
      else do { (root, d) \<leftarrow> deleteMin (t_Root t);
                Some (t\<lparr>t_Root := paint Black root, t_Count := t_Count t + d\<rparr>) })"

definition Tree_DeleteMax :: "Tree \<Rightarrow> Tree option" where
  "Tree_DeleteMax t =
     (if t_Root t = NilNode then Some t
      else do { (root, d) \<leftarrow> deleteMax (t_Root t);
                Some (t\<lparr>t_Root := paint Black root, t_Count := t_Count t + d\<rparr>) })"

definition Tree_deleteNode :: "dnslib \<Rightarrow> Tree \<Rightarrow> RR \<Rightarrow> Tree option" where
  "Tree_deleteNode D t rr =
     (if t_Root t = NilNode then Some t
      else do { (root, d) \<leftarrow> delete_node (\<lambda>e. Less D e (rr_Name rr)) (t_Root t);
                Some (t\<lparr>t_Root := paint Black root, t_Count := t_Count t + d\<rparr>) })"

text \<open>\<^verbatim>\<open>el.Delete(rr)\<close> changes the element that the tree holds.\<close>

definition Tree_Delete :: "dnslib \<Rightarrow> Tree \<Rightarrow> RR \<Rightarrow> Tree option" where
  "Tree_Delete D t rr =
     (case Tree_Search D t (rr_Name rr) of
        None \<Rightarrow> Some t
      | Some el \<Rightarrow>
          let t' = t\<lparr>t_Root := modify (\<lambda>e. Less D e (rr_Name rr)) (\<lambda>e. Elem_Delete e rr) (t_Root t)\<rparr>
          in if Elem_Empty (Elem_Delete el rr) then Tree_deleteNode D t' rr else Some t')"

definition Tree_Min :: "Tree \<Rightarrow> Elem option" where
  "Tree_Min t = min_elem (t_Root t)"

definition Tree_Max :: "Tree \<Rightarrow> Elem option" where
  "Tree_Max t = max_elem (t_Root t)"

definition Tree_Prev :: "dnslib \<Rightarrow> Tree \<Rightarrow> string \<Rightarrow> Elem option" where
  "Tree_Prev D t qname = floor_node (\<lambda>e. Less D e qname) (t_Root t)"

definition Tree_Next :: "dnslib \<Rightarrow> Tree \<Rightarrow> string \<Rightarrow> Elem option" where
  "Tree_Next D t qname = ceil_node (\<lambda>e. Less D e qname) (t_Root t)"

section \<open>Traversals\<close>

fun node_all :: "'e node \<Rightarrow> 'e list \<Rightarrow> 'e list" where
  "node_all NilNode found = found"
| "node_all (Node l c e r) found = node_all r (node_all l found @ [e])"

definition Tree_All :: "Tree \<Rightarrow> Elem list" where
  "Tree_All t = node_all (t_Root t) []"

text \<open>
  The function that a walk is given may change state of its own and may fail; a failure ends the
  walk. \<open>'x\<close> is the type of its errors.
\<close>

fun node_walk :: "(Elem \<Rightarrow> (u16, RR list) gomap \<Rightarrow> 's \<Rightarrow> 's \<times> 'x option) \<Rightarrow> Elem node \<Rightarrow> 's \<Rightarrow> 's \<times> 'x option" where
  "node_walk fn NilNode s = (s, None)"
| "node_walk fn (Node l c e r) s =
     (case node_walk fn l s of
        (s, Some err) \<Rightarrow> (s, Some err)
      | (s, None) \<Rightarrow>
          (case fn e (e_m e) s of
             (s, Some err) \<Rightarrow> (s, Some err)
           | (s, None) \<Rightarrow> node_walk fn r s))"

definition Tree_Walk :: "(Elem \<Rightarrow> (u16, RR list) gomap \<Rightarrow> 's \<Rightarrow> 's \<times> 'x option) \<Rightarrow> Tree \<Rightarrow> 's \<Rightarrow> 's \<times> 'x option" where
  "Tree_Walk fn t s = node_walk fn (t_Root t) s"

text \<open>
  The loop of \<^verbatim>\<open>authwalk\<close> that looks for a delegated name among the suffixes. The fuel is the length of the
  name: the library gives no label that starts behind it.
\<close>

fun auth_loop :: "dnslib \<Rightarrow> string list \<Rightarrow> string \<Rightarrow> nat \<Rightarrow> nat \<Rightarrow> bool option" where
  "auth_loop D ns name i 0 = None"
| "auth_loop D ns name i (Suc k) =
     (case NextLabel D name i of
        (j, end) \<Rightarrow> if end then Some True
          else if drop j name \<in> set ns then Some False else auth_loop D ns name (i + 1) k)"

definition authoritative :: "dnslib \<Rightarrow> string list \<Rightarrow> string \<Rightarrow> bool" where
  "authoritative D ns name =
     (case auth_loop D ns name 0 (Suc (length name)) of Some a \<Rightarrow> a | None \<Rightarrow> True)"

definition see_ns :: "Elem \<Rightarrow> string list \<Rightarrow> string list" where
  "see_ns e ns = (if Elem_Type e TypeNS \<noteq> [] then List.insert (Elem_Name e) ns else ns)"

fun node_authwalk ::
  "dnslib \<Rightarrow> (Elem \<Rightarrow> (u16, RR list) gomap \<Rightarrow> bool \<Rightarrow> 's \<Rightarrow> 's \<times> 'x option) \<Rightarrow> Elem node
   \<Rightarrow> string list \<times> 's \<Rightarrow> (string list \<times> 's) \<times> 'x option" where
  "node_authwalk D fn NilNode s = (s, None)"
| "node_authwalk D fn (Node l c e r) s =
     (case node_authwalk D fn l s of
        (s, Some err) \<Rightarrow> (s, Some err)
      | ((ns, s), None) \<Rightarrow>
          (let ns = see_ns e ns in
           case fn e (e_m e) (authoritative D ns (Elem_Name e)) s of
             (s, Some err) \<Rightarrow> ((ns, s), Some err)
           | (s, None) \<Rightarrow> node_authwalk D fn r (ns, s)))"

definition Tree_AuthWalk ::
  "dnslib \<Rightarrow> (Elem \<Rightarrow> (u16, RR list) gomap \<Rightarrow> bool \<Rightarrow> 's \<Rightarrow> 's \<times> 'x option) \<Rightarrow> Tree \<Rightarrow> 's \<Rightarrow> 's \<times> 'x option" where
  "Tree_AuthWalk D fn t s = (case node_authwalk D fn (t_Root t) ([], s) of ((_, s), err) \<Rightarrow> (s, err))"

section \<open>Glue\<close>

text \<open>\<^verbatim>\<open>rrutil.SubTypeSignature\<close>: the signatures that cover a type.\<close>

definition SubTypeSignature :: "RR list \<Rightarrow> u16 \<Rightarrow> RR list" where
  "SubTypeSignature rrs subtype =
     filter (\<lambda>s. case rr_data s of RD_RRSIG covered _ _ _ \<Rightarrow> covered = subtype | _ \<Rightarrow> False) rrs"

definition searchGlue :: "dnslib \<Rightarrow> Tree \<Rightarrow> string \<Rightarrow> bool \<Rightarrow> RR list" where
  "searchGlue D t name do_bit =
     (let typed = (\<lambda>ty. case Tree_Search D t name of
              Some elem \<Rightarrow> Elem_Type elem ty
                @ (if do_bit then SubTypeSignature (Elem_Type elem TypeRRSIG) ty else [])
            | None \<Rightarrow> [])
      in typed TypeA @ typed TypeAAAA)"

definition Tree_Glue :: "dnslib \<Rightarrow> Tree \<Rightarrow> RR list \<Rightarrow> bool \<Rightarrow> RR list" where
  "Tree_Glue D t nsrrs do_bit =
     concat (map (\<lambda>rr. case rr_data rr of
         RD_NS ns \<Rightarrow> if IsSubDomain D (rr_Name rr) ns then searchGlue D t ns do_bit else []
       | _ \<Rightarrow> []) nsrrs)"

section \<open>Sequences that are sorted by a key\<close>

text \<open>What the operations do to the sequence of elements, as lookups by a key \<open>k\<close>.\<close>

definition compares :: "('e \<Rightarrow> 'k :: linorder) \<Rightarrow> 'k \<Rightarrow> ('e \<Rightarrow> int) \<Rightarrow> 'e set \<Rightarrow> bool" where
  "compares key k cmp A \<longleftrightarrow> (\<forall>e \<in> A. (cmp e = 0 \<longleftrightarrow> key e = k) \<and> (cmp e < 0 \<longleftrightarrow> k < key e))"

lemma compares_mono: "compares key k cmp B \<Longrightarrow> A \<subseteq> B \<Longrightarrow> compares key k cmp A"
  by (auto simp: compares_def)

lemma compares_pos: "compares key k cmp A \<Longrightarrow> e \<in> A \<Longrightarrow> cmp e > 0 \<longleftrightarrow> key e < k"
  unfolding compares_def by (metis antisym_conv3 order.strict_iff_not order_less_irrefl)

lemma sorted_ordered:
  assumes "sorted_wrt (<) (map key xs)" and "compares key k cmp (set xs)"
  shows "ordered cmp xs"
  using assms
proof (induction xs)
  case (Cons x xs)
  then have "compares key k cmp (set xs)" by (auto simp: compares_def)
  with Cons have "ordered cmp xs" by simp
  moreover have "cmp y < 0" if "y \<in> set xs" "cmp x \<le> 0" for y
  proof -
    have "k \<le> key x" using Cons.prems(2) that(2) by (auto simp: compares_def order_le_less)
    moreover have "key x < key y" using Cons.prems(1) that(1) by simp
    ultimately have "k < key y" by simp
    then show ?thesis using Cons.prems(2) that(1) by (simp add: compares_def)
  qed
  ultimately show ?case by (simp add: ordered_def)
qed (simp add: ordered_def)

lemma ins_list_keys:
  assumes "compares key k cmp (set xs)" and "key new = k" and "\<forall>e \<in> set xs. key e = k \<longrightarrow> key (upd e) = k"
  shows "key ` set (ins_list cmp new upd xs) = insert k (key ` set xs)"
  using assms by (induction xs) (auto simp: compares_def)

lemma ins_list_sorted:
  assumes "sorted_wrt (<) (map key xs)" and "compares key k cmp (set xs)" and "key new = k"
    and "\<forall>e \<in> set xs. key e = k \<longrightarrow> key (upd e) = k"
  shows "sorted_wrt (<) (map key (ins_list cmp new upd xs))"
  using assms
proof (induction xs)
  case (Cons x xs)
  have c: "compares key k cmp (set xs)" using Cons.prems(2) by (auto simp: compares_def)
  have x: "cmp x = 0 \<longleftrightarrow> key x = k" "cmp x < 0 \<longleftrightarrow> k < key x" using Cons.prems(2) by (auto simp: compares_def)
  consider (eq) "cmp x = 0" | (lt) "cmp x < 0" | (gt) "cmp x > 0" by linarith
  then show ?case
  proof cases
    case eq
    then show ?thesis using Cons.prems x by auto
  next
    case lt
    then show ?thesis using Cons.prems x by (auto intro: less_trans)
  next
    case gt
    then have "key x < k" using compares_pos [OF Cons.prems(2), of x] by simp
    moreover have "key ` set (ins_list cmp new upd xs) = insert k (key ` set xs)"
      using c Cons.prems by (intro ins_list_keys) auto
    moreover have "\<forall>y \<in> set xs. key x < key y" using Cons.prems(1) by simp
    ultimately have "\<forall>z \<in> key ` set (ins_list cmp new upd xs). key x < z" by auto
    with gt Cons c show ?thesis by auto
  qed
qed simp

lemma find_absent: "k \<notin> key ` set xs \<Longrightarrow> find (\<lambda>e. key e = k) xs = None"
  by (auto simp: find_None_iff)

lemma find_ins_list:
  assumes "sorted_wrt (<) (map key xs)" and "compares key k cmp (set xs)" and "key new = k"
    and "\<forall>e \<in> set xs. key e = k \<longrightarrow> key (upd e) = k"
  shows "find (\<lambda>e. key e = j) (ins_list cmp new upd xs) =
    (if j = k then Some (case find (\<lambda>e. key e = k) xs of None \<Rightarrow> new | Some e \<Rightarrow> upd e) else find (\<lambda>e. key e = j) xs)"
  using assms
proof (induction xs)
  case (Cons x xs)
  have c: "compares key k cmp (set xs)" using Cons.prems(2) by (auto simp: compares_def)
  have x: "cmp x = 0 \<longleftrightarrow> key x = k" "cmp x < 0 \<longleftrightarrow> k < key x" using Cons.prems(2) by (auto simp: compares_def)
  have rest: "find (\<lambda>e. key e = k) xs = None" if "cmp x < 0"
  proof (rule find_absent)
    have "\<forall>y \<in> set xs. k < key y" using Cons.prems(1) x(2) that by auto
    then show "k \<notin> key ` set xs" by auto
  qed
  consider (eq) "cmp x = 0" | (lt) "cmp x < 0" | (gt) "cmp x > 0" by linarith
  then show ?case
  proof cases
    case eq
    then show ?thesis using Cons.prems x by auto
  next
    case lt
    then show ?thesis using Cons.prems x rest by auto
  next
    case gt
    with Cons c x show ?thesis by auto
  qed
qed simp

lemma find_filter_out:
  "find (\<lambda>e. key e = j) (filter (\<lambda>e. key e \<noteq> k) xs) = (if j = k then None else find (\<lambda>e. key e = j) xs)"
  by (induction xs) auto

lemma find_map_at:
  assumes "\<forall>e \<in> set xs. key e = k \<longrightarrow> key (f e) = k"
  shows "find (\<lambda>e. key e = j) (map (\<lambda>e. if key e \<noteq> k then e else f e) xs) =
    (if j = k then map_option f (find (\<lambda>e. key e = k) xs) else find (\<lambda>e. key e = j) xs)"
  using assms by (induction xs) auto

section \<open>The invariant\<close>

definition elem_wf :: "dnslib \<Rightarrow> Elem \<Rightarrow> bool" where
  "elem_wf D e \<longleftrightarrow> map_ok (e_m e)
     \<and> list_all (\<lambda>(t, rrs). rrs \<noteq> []
         \<and> list_all (\<lambda>rr. rr_Type rr = t \<and> name_key D (rr_Name rr) = name_key D (e_name e)) rrs) (e_m e)"

definition elem_ok :: "dnslib \<Rightarrow> Elem \<Rightarrow> bool" where
  "elem_ok D e \<longleftrightarrow> elem_wf D e \<and> e_m e \<noteq> []"

definition elem_key :: "dnslib \<Rightarrow> Elem \<Rightarrow> string list" where
  "elem_key D e = name_key D (e_name e)"

definition tree_ok :: "dnslib \<Rightarrow> Tree \<Rightarrow> bool" where
  "tree_ok D t \<longleftrightarrow> black_root (t_Root t)
     \<and> sorted_wrt (<) (map (elem_key D) (inorder (t_Root t)))
     \<and> list_all (elem_ok D) (inorder (t_Root t))
     \<and> t_Count t = int (length (inorder (t_Root t)))"

lemma elem_wf_lookup:
  assumes "elem_wf D e"
  shows "map_of (e_m e) t = Some rrs \<Longrightarrow>
    rrs \<noteq> [] \<and> (\<forall>rr \<in> set rrs. rr_Type rr = t \<and> name_key D (rr_Name rr) = elem_key D e)"
  using assms by (fastforce simp: elem_wf_def elem_key_def list_all_iff dest: map_of_SomeD)

lemma elem_wfI:
  assumes "map_ok (e_m e)" and "\<And>t rrs. map_of (e_m e) t = Some rrs \<Longrightarrow>
    rrs \<noteq> [] \<and> (\<forall>rr \<in> set rrs. rr_Type rr = t \<and> name_key D (rr_Name rr) = elem_key D e)"
  shows "elem_wf D e"
  using assms by (fastforce simp: elem_wf_def elem_key_def list_all_iff map_ok_lookup)

lemma Elem_Name_eq:
  assumes "PrevLabel_ok D" and "elem_wf D e"
  shows "Elem_Name e = e_name e"
proof (cases "e_name e = ''''")
  case True
  have "rr_Name rr = ''''" if "(t, rr # rrs) \<in> set (e_m e)" for t rr rrs
  proof -
    have "map_of (e_m e) t = Some (rr # rrs)"
      using that assms(2) by (simp add: elem_wf_def map_ok_lookup)
    then have "name_key D (rr_Name rr) = []"
      using elem_wf_lookup [OF assms(2)] True by (auto simp: elem_key_def)
    then show ?thesis using name_key_eq_Nil [OF assms(1)] by simp
  qed
  with True show ?thesis by (auto simp: Elem_Name_def split: list.splits) blast
qed (simp add: Elem_Name_def)

lemma elem_ok_wf: "elem_ok D e \<Longrightarrow> elem_wf D e"
  by (simp add: elem_ok_def)

lemma Less_compares:
  assumes "PrevLabel_ok D" and "\<And>e. e \<in> A \<Longrightarrow> elem_wf D e"
  shows "compares (elem_key D) (name_key D name) (\<lambda>e. Less D e name) A"
  using assms by (auto simp: compares_def Less_def less_name_keys Elem_Name_eq elem_key_def)

lemma newElem_ok: "elem_ok D (newElem rr)"
  by (simp add: newElem_def elem_ok_def elem_wf_def map_ok_def)

lemma elem_key_simps [simp]:
  "elem_key D (newElem rr) = name_key D (rr_Name rr)"
  "elem_key D (Elem_Insert e rr) = elem_key D e" "elem_key D (Elem_Delete e rr) = elem_key D e"
  by (auto simp: elem_key_def newElem_def Elem_Insert_def Elem_Delete_def Let_def split: option.splits)

lemma Elem_Insert_m:
  "e_m (Elem_Insert e rr) = map_put (rr_Type rr) (Elem_Type e (rr_Type rr) @ [rr]) (e_m e)"
  by (auto simp: Elem_Insert_def Elem_Type_def Let_def split: option.splits)

lemma Elem_Insert_ok:
  assumes "elem_wf D e" and "elem_key D e = name_key D (rr_Name rr)"
  shows "elem_ok D (Elem_Insert e rr)"
proof -
  have "elem_wf D (Elem_Insert e rr)"
  proof (rule elem_wfI)
    show "map_ok (e_m (Elem_Insert e rr))" using assms(1) by (simp add: Elem_Insert_m elem_wf_def)
    show "rrs \<noteq> [] \<and> (\<forall>x \<in> set rrs. rr_Type x = t \<and> name_key D (rr_Name x) = elem_key D (Elem_Insert e rr))"
      if get: "map_of (e_m (Elem_Insert e rr)) t = Some rrs" for t rrs
    proof (cases "t = rr_Type rr")
      case True
      then show ?thesis
        using get assms(2) elem_wf_lookup [OF assms(1), of t]
        by (cases "map_of (e_m e) t") (auto simp: Elem_Insert_m Elem_Type_def)
    next
      case False
      then show ?thesis
        using get elem_wf_lookup [OF assms(1), of t rrs] by (simp add: Elem_Insert_m)
    qed
  qed
  moreover have "map_of (e_m (Elem_Insert e rr)) (rr_Type rr) \<noteq> None"
    by (simp add: Elem_Insert_m)
  ultimately show ?thesis unfolding elem_ok_def by fastforce
qed

lemma Elem_Delete_wf: "elem_wf D e \<Longrightarrow> elem_wf D (Elem_Delete e rr)"
proof (rule elem_wfI)
  assume e: "elem_wf D e"
  show "map_ok (e_m (Elem_Delete e rr))" using e by (simp add: Elem_Delete_def elem_wf_def)
  show "rrs \<noteq> [] \<and> (\<forall>x \<in> set rrs. rr_Type x = t \<and> name_key D (rr_Name x) = elem_key D (Elem_Delete e rr))"
    if "map_of (e_m (Elem_Delete e rr)) t = Some rrs" for t rrs
    using that elem_wf_lookup [OF e, of t rrs] by (auto simp: Elem_Delete_def elem_key_def split: if_splits)
qed

lemma Elem_Type_ops:
  "Elem_Type (newElem rr) ty = (if ty = rr_Type rr then [rr] else [])"
  "Elem_Type (Elem_Insert e rr) ty = (if ty = rr_Type rr then Elem_Type e ty @ [rr] else Elem_Type e ty)"
  "Elem_Type (Elem_Delete e rr) ty = (if ty = rr_Type rr then [] else Elem_Type e ty)"
  "Elem_Empty e \<Longrightarrow> Elem_Type e ty = []"
  by (auto simp: Elem_Insert_m Elem_Type_def newElem_def Elem_Delete_def Elem_Empty_def split: option.splits)

section \<open>The operations keep the invariant\<close>

lemma tree_okD:
  assumes "tree_ok D t"
  shows "black_root (t_Root t)" "sorted_wrt (<) (map (elem_key D) (inorder (t_Root t)))"
    "\<And>e. e \<in> set (inorder (t_Root t)) \<Longrightarrow> elem_ok D e" "t_Count t = int (length (inorder (t_Root t)))"
  using assms by (auto simp: tree_ok_def list_all_iff)

lemma tree_compares:
  assumes "PrevLabel_ok D" and "tree_ok D t"
  shows "compares (elem_key D) (name_key D name) (\<lambda>e. Less D e name) (set (inorder (t_Root t)))"
    and "ordered (\<lambda>e. Less D e name) (inorder (t_Root t))"
proof -
  show "compares (elem_key D) (name_key D name) (\<lambda>e. Less D e name) (set (inorder (t_Root t)))"
    using tree_okD(3) [OF assms(2)] by (intro Less_compares [OF assms(1)]) (auto simp: elem_ok_def)
  then show "ordered (\<lambda>e. Less D e name) (inorder (t_Root t))"
    using tree_okD(2) [OF assms(2)] by (rule sorted_ordered [rotated])
qed

lemma compares_filter:
  "compares key k cmp (set xs) \<Longrightarrow> filter (\<lambda>e. cmp e \<noteq> 0) xs = filter (\<lambda>e. key e \<noteq> k) xs"
  by (rule filter_cong) (auto simp: compares_def)

lemma compares_map:
  "compares key k cmp (set xs) \<Longrightarrow> map (\<lambda>e. if cmp e \<noteq> 0 then e else f e) xs = map (\<lambda>e. if key e \<noteq> k then e else f e) xs"
  by (rule map_cong) (auto simp: compares_def)

lemma compares_find:
  "compares key k cmp (set xs) \<Longrightarrow> find (\<lambda>e. cmp e = 0) xs = find (\<lambda>e. key e = k) xs"
  by (rule find_cong) (auto simp: compares_def)

definition elem_at :: "dnslib \<Rightarrow> Tree \<Rightarrow> string list \<Rightarrow> Elem option" where
  "elem_at D t k = find (\<lambda>e. elem_key D e = k) (inorder (t_Root t))"

lemma Search_elem_at:
  assumes "PrevLabel_ok D" and "tree_ok D t"
  shows "Tree_Search D t name = elem_at D t (name_key D name)"
  unfolding Tree_Search_def elem_at_def
  by (simp add: search_inorder [OF tree_compares(2) [OF assms]] compares_find [OF tree_compares(1) [OF assms]])

lemma ins_list_elems:
  "x \<in> set (ins_list cmp new upd xs) \<Longrightarrow> x = new \<or> x \<in> set xs \<or> (\<exists>e \<in> set xs. cmp e = 0 \<and> x = upd e)"
  by (induction xs) (auto split: if_splits)

lemma Tree_Insert_spec:
  assumes "PrevLabel_ok D" and "tree_ok D t"
  shows "\<exists>t'. Tree_Insert D t rr = Some t' \<and> tree_ok D t'
    \<and> inorder (t_Root t') = ins_list (\<lambda>e. Less D e (rr_Name rr)) (newElem rr) (\<lambda>e. Elem_Insert e rr) (inorder (t_Root t))"
proof -
  let ?c = "\<lambda>e. Less D e (rr_Name rr)" and ?u = "\<lambda>e. Elem_Insert e rr" and ?xs = "inorder (t_Root t)"
  let ?ys = "ins_list ?c (newElem rr) ?u ?xs"
  obtain q d where q: "insert_node ?c (newElem rr) ?u (t_Root t) = Some (q, d)" "black_root (paint Black q)" "q \<noteq> NilNode"
    using insert_node_root [OF tree_okD(1) [OF assms(2)]] by blast
  note ino = insert_node_inorder [OF tree_compares(2) [OF assms] q(1)]
  note c = tree_compares(1) [OF assms, of "rr_Name rr"]
  have "sorted_wrt (<) (map (elem_key D) ?ys)"
    by (rule ins_list_sorted [OF tree_okD(2) [OF assms(2)] c]) auto
  moreover have "elem_ok D e" if "e \<in> set ?ys" for e
  proof -
    have "e = newElem rr \<or> e \<in> set ?xs \<or> (\<exists>x \<in> set ?xs. elem_key D x = name_key D (rr_Name rr) \<and> e = ?u x)"
      using ins_list_elems [OF that] c unfolding compares_def by blast
    then show ?thesis
      using newElem_ok Elem_Insert_ok tree_okD(3) [OF assms(2)] elem_ok_wf by blast
  qed
  ultimately show ?thesis
    using q ino tree_okD(4) [OF assms(2)] by (auto simp: Tree_Insert_def tree_ok_def list_all_iff)
qed

lemma elem_at_Insert:
  assumes "PrevLabel_ok D" and "tree_ok D t" and "Tree_Insert D t rr = Some t'"
  shows "elem_at D t' k =
    (if k = name_key D (rr_Name rr)
     then Some (case elem_at D t k of None \<Rightarrow> newElem rr | Some e \<Rightarrow> Elem_Insert e rr) else elem_at D t k)"
  using Tree_Insert_spec [OF assms(1,2), of rr] assms(3)
    find_ins_list [OF tree_okD(2) [OF assms(2)] tree_compares(1) [OF assms(1,2), of "rr_Name rr"],
      of "newElem rr" "\<lambda>e. Elem_Insert e rr" k]
  by (auto simp: elem_at_def)

lemma sorted_map_at:
  assumes "\<And>e. key (f e) = key e"
  shows "map key (map (\<lambda>e. if P e then e else f e) xs) = map key xs"
  using assms by auto

lemma find_unique:
  fixes key :: "'e \<Rightarrow> 'k :: linorder"
  assumes "sorted_wrt (<) (map key xs)" and "find (\<lambda>e. key e = k) xs = Some x" and "y \<in> set xs" and "key y = k"
  shows "y = x"
proof -
  have "distinct (map key xs)" using assms(1) by (simp add: strict_sorted_iff)
  moreover have "x \<in> set xs" "key x = k" using assms(2) by (auto simp: find_Some_iff)
  ultimately show ?thesis using assms(3,4) by (auto simp: distinct_map inj_on_def)
qed

lemma Tree_Delete_spec:
  assumes "PrevLabel_ok D" and "tree_ok D t"
  shows "\<exists>t'. Tree_Delete D t rr = Some t' \<and> tree_ok D t'
    \<and> (\<forall>k. elem_at D t' k =
          (if k = name_key D (rr_Name rr)
           then Option.bind (elem_at D t k) (\<lambda>e. if Elem_Empty (Elem_Delete e rr) then None else Some (Elem_Delete e rr))
           else elem_at D t k))"
proof -
  let ?k = "name_key D (rr_Name rr)" and ?c = "\<lambda>e. Less D e (rr_Name rr)" and ?f = "\<lambda>e. Elem_Delete e rr"
  let ?xs = "inorder (t_Root t)" and ?m = "modify (\<lambda>e. Less D e (rr_Name rr)) (\<lambda>e. Elem_Delete e rr) (t_Root t)"
  note c = tree_compares(1) [OF assms, of "rr_Name rr"]
  have srch: "Tree_Search D t (rr_Name rr) = elem_at D t ?k" by (rule Search_elem_at [OF assms])
  have m: "inorder ?m = map (\<lambda>e. if elem_key D e \<noteq> ?k then e else ?f e) ?xs"
    unfolding compares_map [OF c, symmetric] by (rule modify_inorder [OF tree_compares(2) [OF assms]])
  have keys: "map (elem_key D) (inorder ?m) = map (elem_key D) ?xs" unfolding m by (rule sorted_map_at) simp
  have at: "find (\<lambda>e. elem_key D e = k) (inorder ?m) = (if k = ?k then map_option ?f (elem_at D t ?k) else elem_at D t k)" for k
    unfolding m elem_at_def by (rule find_map_at) simp
  have root: "black_root ?m" using tree_okD(1) [OF assms(2)] by simp
  have wf: "elem_wf D e" if "e \<in> set (inorder ?m)" for e
    using that tree_okD(3) [OF assms(2)] Elem_Delete_wf unfolding m by (fastforce simp: elem_ok_def)
  show ?thesis
  proof (cases "elem_at D t ?k")
    case None
    then show ?thesis using assms(2) srch by (auto simp: Tree_Delete_def)
  next
    case (Some el)
    have el: "el \<in> set ?xs" "elem_key D el = ?k" using Some by (auto simp: elem_at_def find_Some_iff)
    have uniq: "e = ?f el \<or> e \<in> set ?xs \<and> elem_key D e \<noteq> ?k" if "e \<in> set (inorder ?m)" for e
      using that find_unique [OF tree_okD(2) [OF assms(2)] Some [unfolded elem_at_def]] unfolding m by auto
    show ?thesis
    proof (cases "Elem_Empty (?f el)")
      case False
      have "elem_ok D e" if "e \<in> set (inorder ?m)" for e
        using uniq [OF that] wf [OF that] tree_okD(3) [OF assms(2)] False by (auto simp: elem_ok_def Elem_Empty_def)
      then have "tree_ok D (t\<lparr>t_Root := ?m\<rparr>)"
        using root keys tree_okD(2,4) [OF assms(2)] arg_cong [OF m, of length]
        by (simp add: tree_ok_def list_all_iff)
      with False Some srch at show ?thesis by (auto simp: Tree_Delete_def elem_at_def)
    next
      case True
      have cm: "compares (elem_key D) ?k ?c (set (inorder ?m))"
        using wf by (intro Less_compares [OF assms(1)])
      have sorted: "sorted_wrt (<) (map (elem_key D) (inorder ?m))" using keys tree_okD(2) [OF assms(2)] by simp
      have "length (inorder ?m) > 0" using length_pos_if_in_set [OF el(1)] unfolding m by simp
      then have ne: "?m \<noteq> NilNode" by force
      obtain q d where q: "delete_node ?c ?m = Some (q, d)" "black_root (paint Black q)"
        "inorder q = filter (\<lambda>e. ?c e \<noteq> 0) (inorder ?m)" "d = int (length (inorder q)) - int (length (inorder ?m))"
        using delete_node_root [OF root ne sorted_ordered [OF sorted cm]] by blast
      have q3: "inorder q = filter (\<lambda>e. elem_key D e \<noteq> ?k) (inorder ?m)"
        using q(3) compares_filter [OF cm] by simp
      let ?t' = "t\<lparr>t_Root := paint Black q, t_Count := t_Count t + d\<rparr>"
      have "elem_ok D e" if "e \<in> set (inorder q)" for e
      proof -
        have "e \<in> set (inorder ?m)" "elem_key D e \<noteq> ?k" using that unfolding q3 by auto
        then show ?thesis using uniq [of e] tree_okD(3) [OF assms(2), of e] el(2) by auto
      qed
      moreover have "sorted_wrt (<) (map (elem_key D) (inorder q))"
        using sorted unfolding q3 by (simp add: sorted_wrt_map sorted_wrt_filter)
      moreover have "length (inorder ?m) = length ?xs" unfolding m by simp
      ultimately have "tree_ok D ?t'"
        using q(2,4) tree_okD(4) [OF assms(2)] by (simp add: tree_ok_def list_all_iff)
      moreover have "elem_at D ?t' k = (if k = ?k then None else elem_at D t k)" for k
        using at [of k] find_filter_out [of "elem_key D" k ?k "inorder ?m"] by (simp add: elem_at_def q3)
      moreover have "Tree_Delete D t rr = Some ?t'"
        using True Some srch q(1) ne by (simp add: Tree_Delete_def Tree_deleteNode_def)
      ultimately show ?thesis using True Some by auto
    qed
  qed
qed

lemma Tree_DeleteMin_spec:
  assumes "tree_ok D t"
  shows "\<exists>t'. Tree_DeleteMin t = Some t' \<and> tree_ok D t' \<and> inorder (t_Root t') = tl (inorder (t_Root t))"
proof (cases "t_Root t = NilNode")
  case True
  then show ?thesis using assms by (simp add: Tree_DeleteMin_def)
next
  case False
  obtain q where q: "deleteMin (t_Root t) = Some (q, - 1)" "black_root (paint Black q)" "inorder q = tl (inorder (t_Root t))"
    using deleteMin_root [OF tree_okD(1) [OF assms] False] by blast
  obtain x xs where "inorder (t_Root t) = x # xs" using False by (cases "inorder (t_Root t)") auto
  with q False assms show ?thesis by (auto simp: Tree_DeleteMin_def tree_ok_def)
qed

lemma Tree_DeleteMax_spec:
  assumes "tree_ok D t"
  shows "\<exists>t'. Tree_DeleteMax t = Some t' \<and> tree_ok D t' \<and> inorder (t_Root t') = butlast (inorder (t_Root t))"
proof (cases "t_Root t = NilNode")
  case True
  then show ?thesis using assms by (simp add: Tree_DeleteMax_def)
next
  case False
  obtain q where q: "deleteMax (t_Root t) = Some (q, - 1)" "black_root (paint Black q)" "inorder q = butlast (inorder (t_Root t))"
    using deleteMax_root [OF tree_okD(1) [OF assms] False] by blast
  obtain x xs where "inorder (t_Root t) = xs @ [x]" using False by (cases "inorder (t_Root t)" rule: rev_cases) auto
  with q False assms show ?thesis by (auto simp: Tree_DeleteMax_def tree_ok_def sorted_wrt_append)
qed

lemma new_Tree_ok: "tree_ok D new_Tree"
  by (simp add: tree_ok_def new_Tree_def black_root_def llrb_def)

section \<open>An index of records\<close>

text \<open>
  What the zone relies on: insertion appends a record to those of its name and type, deletion removes all
  of them, both succeed, and neither touches other names or types. Names with the same key are
  the same name.
\<close>

datatype index_op = Ins RR | Del RR

fun index_run :: "('t \<Rightarrow> RR \<Rightarrow> 't option) \<Rightarrow> ('t \<Rightarrow> RR \<Rightarrow> 't option) \<Rightarrow> index_op list \<Rightarrow> 't \<Rightarrow> 't option" where
  "index_run ins del [] t = Some t"
| "index_run ins del (Ins rr # ops) t = Option.bind (ins t rr) (index_run ins del ops)"
| "index_run ins del (Del rr # ops) t = Option.bind (del t rr) (index_run ins del ops)"

definition covers :: "(string \<Rightarrow> 'k) \<Rightarrow> string \<Rightarrow> u16 \<Rightarrow> RR \<Rightarrow> bool" where
  "covers key name ty rr = (key (rr_Name rr) = key name \<and> rr_Type rr = ty)"

text \<open>The specification: the records inserted and not deleted since, in the order of insertion.\<close>

fun live :: "(string \<Rightarrow> 'k) \<Rightarrow> index_op list \<Rightarrow> RR list \<Rightarrow> RR list" where
  "live key [] rrs = rrs"
| "live key (Ins rr # ops) rrs = live key ops (rrs @ [rr])"
| "live key (Del rr # ops) rrs = live key ops (filter (\<lambda>x. \<not> covers key (rr_Name rr) (rr_Type rr) x) rrs)"

locale rr_index =
  fixes get :: "'t \<Rightarrow> string \<Rightarrow> u16 \<Rightarrow> RR list"
    and ins :: "'t \<Rightarrow> RR \<Rightarrow> 't option"
    and del :: "'t \<Rightarrow> RR \<Rightarrow> 't option"
    and ok :: "'t \<Rightarrow> bool"
    and key :: "string \<Rightarrow> 'k"
  assumes get_ins: "ok t \<Longrightarrow> \<exists>t'. ins t rr = Some t' \<and> ok t'
      \<and> (\<forall>name ty. get t' name ty = (if covers key name ty rr then get t name ty @ [rr] else get t name ty))"
    and get_del: "ok t \<Longrightarrow> \<exists>t'. del t rr = Some t' \<and> ok t'
      \<and> (\<forall>name ty. get t' name ty = (if covers key name ty rr then [] else get t name ty))"
begin

lemma run_live:
  assumes "ok t" and "\<And>name ty. get t name ty = filter (covers key name ty) rrs"
  shows "\<exists>t'. index_run ins del ops t = Some t' \<and> ok t'
    \<and> (\<forall>name ty. get t' name ty = filter (covers key name ty) (live key ops rrs))"
  using assms
proof (induction ops arbitrary: t rrs)
  case Nil
  then show ?case by simp
next
  case (Cons op ops)
  show ?case
  proof (cases op)
    case (Ins rr)
    obtain t' where t': "ins t rr = Some t'" "ok t'"
      "\<And>name ty. get t' name ty = (if covers key name ty rr then get t name ty @ [rr] else get t name ty)"
      using get_ins [OF Cons.prems(1), of rr] by blast
    have "get t' name ty = filter (covers key name ty) (rrs @ [rr])" for name ty
      using t'(3) Cons.prems(2) by simp
    from Cons.IH [OF t'(2) this] show ?thesis using Ins t'(1) by simp
  next
    case (Del rr)
    obtain t' where t': "del t rr = Some t'" "ok t'"
      "\<And>name ty. get t' name ty = (if covers key name ty rr then [] else get t name ty)"
      using get_del [OF Cons.prems(1), of rr] by blast
    let ?rrs = "filter (\<lambda>x. \<not> covers key (rr_Name rr) (rr_Type rr) x) rrs"
    have "get t' name ty = filter (covers key name ty) ?rrs" for name ty
      using t'(3) Cons.prems(2) by (auto simp: covers_def filter_empty_conv intro!: filter_cong)
    from Cons.IH [OF t'(2) this] show ?thesis using Del t'(1) by simp
  qed
qed

end

definition tree_get :: "dnslib \<Rightarrow> Tree \<Rightarrow> string \<Rightarrow> u16 \<Rightarrow> RR list" where
  "tree_get D t name ty = (case Tree_Search D t name of Some e \<Rightarrow> Elem_Type e ty | None \<Rightarrow> [])"

lemma tree_get_Insert:
  assumes "PrevLabel_ok D" and "tree_ok D t"
  shows "\<exists>t'. Tree_Insert D t rr = Some t' \<and> tree_ok D t'
    \<and> (\<forall>name ty. tree_get D t' name ty =
         (if covers (name_key D) name ty rr then tree_get D t name ty @ [rr] else tree_get D t name ty))"
proof -
  obtain t' where t': "Tree_Insert D t rr = Some t'" "tree_ok D t'"
    using Tree_Insert_spec [OF assms] by blast
  have "tree_get D t' name ty =
      (if covers (name_key D) name ty rr then tree_get D t name ty @ [rr] else tree_get D t name ty)" for name ty
    unfolding tree_get_def Search_elem_at [OF assms] Search_elem_at [OF assms(1) t'(2)] elem_at_Insert [OF assms t'(1)]
    by (auto simp: covers_def Elem_Type_ops split: option.splits)
  with t' show ?thesis by blast
qed

lemma tree_get_Delete:
  assumes "PrevLabel_ok D" and "tree_ok D t"
  shows "\<exists>t'. Tree_Delete D t rr = Some t' \<and> tree_ok D t'
    \<and> (\<forall>name ty. tree_get D t' name ty = (if covers (name_key D) name ty rr then [] else tree_get D t name ty))"
proof -
  obtain t' where t': "Tree_Delete D t rr = Some t'" "tree_ok D t'"
    "\<And>k. elem_at D t' k = (if k = name_key D (rr_Name rr)
       then Option.bind (elem_at D t k) (\<lambda>e. if Elem_Empty (Elem_Delete e rr) then None else Some (Elem_Delete e rr))
       else elem_at D t k)"
    using Tree_Delete_spec [OF assms] by blast
  have gone: "Elem_Type e ty = []" if "Elem_Empty (Elem_Delete e rr)" "ty \<noteq> rr_Type rr" for e ty
    using Elem_Type_ops(4) [OF that(1), of ty] that(2) by (simp add: Elem_Type_ops(3))
  have "tree_get D t' name ty = (if covers (name_key D) name ty rr then [] else tree_get D t name ty)" for name ty
    unfolding tree_get_def Search_elem_at [OF assms] Search_elem_at [OF assms(1) t'(2)] t'(3)
    by (auto simp: covers_def Elem_Type_ops gone split: option.splits)
  with t' show ?thesis by blast
qed

interpretation zt: rr_index "tree_get D" "Tree_Insert D" "Tree_Delete D" "\<lambda>t. PrevLabel_ok D \<and> tree_ok D t" "name_key D" for D
  using tree_get_Insert tree_get_Delete by unfold_locales auto

lemma tree_get_new: "tree_get D new_Tree name ty = []"
  by (simp add: tree_get_def Tree_Search_def new_Tree_def)

section \<open>Properties\<close>

datatype tree_op = Insert_op RR | Delete_op RR | DeleteMin_op | DeleteMax_op

fun tree_step :: "dnslib \<Rightarrow> tree_op \<Rightarrow> Tree \<Rightarrow> Tree option" where
  "tree_step D (Insert_op rr) t = Tree_Insert D t rr"
| "tree_step D (Delete_op rr) t = Tree_Delete D t rr"
| "tree_step D DeleteMin_op t = Tree_DeleteMin t"
| "tree_step D DeleteMax_op t = Tree_DeleteMax t"

fun tree_run :: "dnslib \<Rightarrow> tree_op list \<Rightarrow> Tree \<Rightarrow> Tree option" where
  "tree_run D [] t = Some t"
| "tree_run D (op # ops) t = Option.bind (tree_step D op t) (tree_run D ops)"

lemma tree_step_ok:
  assumes "PrevLabel_ok D" and "tree_ok D t"
  shows "\<exists>t'. tree_step D op t = Some t' \<and> tree_ok D t'"
  using Tree_Insert_spec [OF assms] Tree_Delete_spec [OF assms] Tree_DeleteMin_spec [OF assms(2)]
    Tree_DeleteMax_spec [OF assms(2)]
  by (cases op) fastforce+

lemma tree_run_ok:
  assumes "PrevLabel_ok D" and "tree_ok D t"
  shows "\<exists>t'. tree_run D ops t = Some t' \<and> tree_ok D t'"
  using assms(2)
proof (induction ops arbitrary: t)
  case (Cons op ops)
  then show ?case using tree_step_ok [OF assms(1) Cons.prems, of op] by fastforce
qed simp

lemma node_all_inorder: "node_all n found = found @ inorder n"
  by (induction n arbitrary: found) auto

lemma tree_All_sorted:
  assumes "PrevLabel_ok D" and "tree_ok D t"
  shows "sorted_wrt (<) (map (\<lambda>e. name_key D (Elem_Name e)) (Tree_All t))"
proof -
  have "map (\<lambda>e. name_key D (Elem_Name e)) (Tree_All t) = map (elem_key D) (inorder (t_Root t))"
    using tree_okD(3) [OF assms(2)] Elem_Name_eq [OF assms(1)] elem_ok_wf
    by (auto simp: Tree_All_def node_all_inorder elem_key_def)
  then show ?thesis using tree_okD(2) [OF assms(2)] by metis
qed

text \<open>C3: The tree of a zone never panics and never loses its shape. Every sequence of insertions, deletions
  and removals of the least and the greatest element, from the empty tree, completes; the
  result is a left-leaning red-black tree with a black root, the names of its elements strictly increase
  in canonical order, no element is empty, every record is stored under its name and type, the
  count is the number of elements, and every path has at most twice the logarithm of that many nodes.\<close>

theorem tree_operations_safe:
  assumes "PrevLabel_ok D"
  shows "\<exists>t. tree_run D ops new_Tree = Some t \<and> tree_ok D t \<and> 2 ^ height (t_Root t) \<le> (Tree_Len t + 1) ^ 2
    \<and> length (Tree_All t) = nat (Tree_Len t)
    \<and> sorted_wrt (<) (map (\<lambda>e. name_key D (Elem_Name e)) (Tree_All t))"
proof -
  obtain t where t: "tree_run D ops new_Tree = Some t" "tree_ok D t"
    using tree_run_ok [OF assms new_Tree_ok] by blast
  have "(2 :: nat) ^ height (t_Root t) \<le> (length (inorder (t_Root t)) + 1) ^ 2"
    by (rule height_log [OF tree_okD(1) [OF t(2)]])
  then have "int (2 ^ height (t_Root t)) \<le> int ((length (inorder (t_Root t)) + 1) ^ 2)"
    by (rule zle_int [THEN iffD2])
  then have "2 ^ height (t_Root t) \<le> (Tree_Len t + 1) ^ 2"
    using tree_okD(4) [OF t(2)] by (simp add: Tree_Len_def algebra_simps)
  moreover have "length (Tree_All t) = nat (Tree_Len t)"
    using tree_okD(4) [OF t(2)] by (simp add: Tree_All_def node_all_inorder Tree_Len_def)
  ultimately show ?thesis
    using t tree_All_sorted [OF assms t(2)] by blast
qed

theorem tree_operations_safe_witness:
  "\<exists>t. tree_run plain_lib [Insert_op \<lparr>rr_Name = ''b.org.'', rr_Type = TypeA, rr_Class = 1, rr_Ttl = 60, rr_data = RD_A [1, 2, 3, 4]\<rparr>,
       Insert_op \<lparr>rr_Name = ''a.org.'', rr_Type = TypeA, rr_Class = 1, rr_Ttl = 60, rr_data = RD_A [1, 2, 3, 5]\<rparr>,
       DeleteMin_op] new_Tree = Some t \<and> tree_ok plain_lib t"
  using tree_operations_safe [OF plain_PrevLabel_ok] by blast

text \<open>C4: The tree is an index of the records of a zone. After any sequence of insertions and deletions a
  lookup of a name and a type gives exactly the records of that name and type that were inserted and
  not deleted since, in the order of insertion, duplicates included. Names that differ only in
  letter case are the same name.\<close>

theorem tree_holds_live_records:
  assumes "PrevLabel_ok D"
  shows "\<exists>t. index_run (Tree_Insert D) (Tree_Delete D) ops new_Tree = Some t
    \<and> (\<forall>name ty. tree_get D t name ty = filter (covers (name_key D) name ty) (live (name_key D) ops []))"
  using zt.run_live [of D new_Tree "[]" ops] assms new_Tree_ok tree_get_new by auto

theorem tree_holds_live_records_witness:
  "\<exists>t. index_run (Tree_Insert plain_lib) (Tree_Delete plain_lib)
      [Ins \<lparr>rr_Name = ''a.org.'', rr_Type = TypeA, rr_Class = 1, rr_Ttl = 60, rr_data = RD_A [1, 2, 3, 4]\<rparr>,
       Ins \<lparr>rr_Name = ''A.org.'', rr_Type = TypeMX, rr_Class = 1, rr_Ttl = 60, rr_data = RD_MX 10 ''m.org.''\<rparr>,
       Del \<lparr>rr_Name = ''A.Org.'', rr_Type = TypeA, rr_Class = 1, rr_Ttl = 0, rr_data = RD_A []\<rparr>] new_Tree = Some t
    \<and> tree_get plain_lib t ''a.org.'' TypeA = [] \<and> length (tree_get plain_lib t ''a.org.'' TypeMX) = 1"
proof -
  let ?ops = "[Ins \<lparr>rr_Name = ''a.org.'', rr_Type = TypeA, rr_Class = 1, rr_Ttl = 60, rr_data = RD_A [1, 2, 3, 4]\<rparr>,
       Ins \<lparr>rr_Name = ''A.org.'', rr_Type = TypeMX, rr_Class = 1, rr_Ttl = 60, rr_data = RD_MX 10 ''m.org.''\<rparr>,
       Del \<lparr>rr_Name = ''A.Org.'', rr_Type = TypeA, rr_Class = 1, rr_Ttl = 0, rr_data = RD_A []\<rparr>]"
  have "filter (covers (name_key plain_lib) ''a.org.'' TypeA) (live (name_key plain_lib) ?ops []) = []"
    "length (filter (covers (name_key plain_lib) ''a.org.'' TypeMX) (live (name_key plain_lib) ?ops [])) = 1"
    by code_simp+
  then show ?thesis
    using tree_holds_live_records [OF plain_PrevLabel_ok, of ?ops] by auto
qed

lemma last_opt_Some: "last_opt xs = Some e \<Longrightarrow> \<exists>ys. xs = ys @ [e]"
  by (cases xs rule: rev_cases) (auto simp: last_opt_def)

lemma compares_le: "compares key k cmp A \<Longrightarrow> e \<in> A \<Longrightarrow> cmp e \<le> 0 \<longleftrightarrow> k \<le> key e"
  by (auto simp: compares_def order_le_less)

lemma Prev_spec:
  assumes "PrevLabel_ok D" and "tree_ok D t"
  shows "Tree_Prev D t name = last_opt (filter (\<lambda>e. elem_key D e \<le> name_key D name) (inorder (t_Root t)))"
proof -
  have "filter (\<lambda>e. Less D e name \<ge> 0) (inorder (t_Root t)) = filter (\<lambda>e. elem_key D e \<le> name_key D name) (inorder (t_Root t))"
    using tree_compares(1) [OF assms, of name] by (intro filter_cong) (auto simp: compares_def not_less [symmetric])
  then show ?thesis by (simp add: Tree_Prev_def floor_inorder [OF tree_compares(2) [OF assms]])
qed

lemma Next_spec:
  assumes "PrevLabel_ok D" and "tree_ok D t"
  shows "Tree_Next D t name = find (\<lambda>e. name_key D name \<le> elem_key D e) (inorder (t_Root t))"
proof -
  have "find (\<lambda>e. Less D e name \<le> 0) (inorder (t_Root t)) = find (\<lambda>e. name_key D name \<le> elem_key D e) (inorder (t_Root t))"
    using compares_le [OF tree_compares(1) [OF assms, of name]] by (intro find_cong) simp_all
  then show ?thesis by (simp add: Tree_Next_def ceil_inorder [OF tree_compares(2) [OF assms]])
qed

text \<open>The greatest element up to a key and the least from a key on, in a set of elements.\<close>

definition greatest_upto :: "('e \<Rightarrow> 'k :: linorder) \<Rightarrow> 'k \<Rightarrow> 'e set \<Rightarrow> 'e option \<Rightarrow> bool" where
  "greatest_upto key k A r \<longleftrightarrow>
     (case r of None \<Rightarrow> {x \<in> A. key x \<le> k} = {} | Some e \<Rightarrow> e \<in> A \<and> key e \<le> k \<and> {x \<in> A. key e < key x \<and> key x \<le> k} = {})"

definition least_from :: "('e \<Rightarrow> 'k :: linorder) \<Rightarrow> 'k \<Rightarrow> 'e set \<Rightarrow> 'e option \<Rightarrow> bool" where
  "least_from key k A r \<longleftrightarrow>
     (case r of None \<Rightarrow> {x \<in> A. k \<le> key x} = {} | Some e \<Rightarrow> e \<in> A \<and> k \<le> key e \<and> {x \<in> A. key x < key e \<and> k \<le> key x} = {})"

lemma last_filter_greatest:
  assumes "sorted_wrt (<) (map key xs)"
  shows "greatest_upto key k (set xs) (last_opt (filter (\<lambda>e. key e \<le> k) xs))"
proof (cases "last_opt (filter (\<lambda>e. key e \<le> k) xs)")
  case None
  then have "{x \<in> set xs. key x \<le> k} = {}" unfolding last_opt_None filter_empty_conv by blast
  then show ?thesis unfolding None greatest_upto_def by simp
next
  case (Some e)
  obtain ys where ys: "filter (\<lambda>e. key e \<le> k) xs = ys @ [e]" using last_opt_Some [OF Some] ..
  have mem: "e \<in> set (filter (\<lambda>e. key e \<le> k) xs)" unfolding ys by simp
  have sorted: "sorted_wrt (<) (map key (ys @ [e]))"
    unfolding ys [symmetric] sorted_wrt_map using assms unfolding sorted_wrt_map by (rule sorted_wrt_filter)
  have "\<not> key e < key x" if "x \<in> set xs" "key x \<le> k" for x
  proof -
    have "x \<in> set (ys @ [e])" unfolding ys [symmetric] using that by simp
    then have "x = e \<or> key x < key e" using sorted by (auto simp: sorted_wrt_append)
    then show ?thesis by (elim disjE) auto
  qed
  moreover have "e \<in> set xs" "key e \<le> k" using mem by auto
  ultimately have "e \<in> set xs \<and> key e \<le> k \<and> {x \<in> set xs. key e < key x \<and> key x \<le> k} = {}" by blast
  then show ?thesis unfolding Some greatest_upto_def by simp
qed

lemma find_least:
  assumes "sorted_wrt (<) (map key xs)"
  shows "least_from key k (set xs) (find (\<lambda>e. k \<le> key e) xs)"
  using assms
proof (induction xs)
  case (Cons x xs)
  show ?case
  proof (cases "k \<le> key x")
    case True
    with Cons.prems show ?thesis by (auto simp: least_from_def)
  next
    case False
    with Cons show ?thesis by (auto simp: least_from_def split: option.splits)
  qed
qed (simp add: least_from_def)

text \<open>The neighbours of a name. \<open>Prev\<close> gives the element with the greatest name that is not after the
  one asked for, \<open>Next\<close> the one with the least name that is not before it, and nothing
  exactly when there is none. \<open>Min\<close> and \<open>Max\<close> are the ends. This is what denial of existence and
  the search for the closest encloser rest on.\<close>

theorem tree_neighbours:
  assumes "PrevLabel_ok D" and "tree_ok D t"
  shows "greatest_upto (elem_key D) (name_key D name) (set (Tree_All t)) (Tree_Prev D t name)
    \<and> least_from (elem_key D) (name_key D name) (set (Tree_All t)) (Tree_Next D t name)
    \<and> Tree_Min t = (if Tree_All t = [] then None else Some (hd (Tree_All t)))
    \<and> Tree_Max t = (if Tree_All t = [] then None else Some (last (Tree_All t)))"
proof -
  have all: "Tree_All t = inorder (t_Root t)" by (simp add: Tree_All_def node_all_inorder)
  show ?thesis
    unfolding Prev_spec [OF assms] Next_spec [OF assms] all Tree_Min_def Tree_Max_def
    using last_filter_greatest [OF tree_okD(2) [OF assms(2)]] find_least [OF tree_okD(2) [OF assms(2)]]
      min_elem_inorder [of "t_Root t"] max_elem_inorder [of "t_Root t"] by auto
qed

theorem tree_neighbours_witness:
  "\<exists>t. tree_run plain_lib [Insert_op \<lparr>rr_Name = ''b.org.'', rr_Type = TypeA, rr_Class = 1, rr_Ttl = 60, rr_data = RD_A [1, 2, 3, 4]\<rparr>] new_Tree = Some t
     \<and> map_option e_name (Tree_Prev plain_lib t ''c.org.'') = Some ''b.org.'' \<and> Tree_Next plain_lib t ''c.org.'' = None
     \<and> Tree_Min t = Tree_Max t \<and> greatest_upto (elem_key plain_lib) (name_key plain_lib ''c.org.'') (set (Tree_All t)) (Tree_Prev plain_lib t ''c.org.'')"
proof -
  let ?rr = "\<lparr>rr_Name = ''b.org.'', rr_Type = TypeA, rr_Class = 1, rr_Ttl = 60, rr_data = RD_A [1, 2, 3, 4]\<rparr>"
  let ?t = "\<lparr>t_Root = Node NilNode Black (newElem ?rr) NilNode, t_Count = 1\<rparr>"
  have run: "tree_run plain_lib [Insert_op ?rr] new_Tree = Some ?t" by code_simp
  have "tree_ok plain_lib ?t" using tree_run_ok [OF plain_PrevLabel_ok new_Tree_ok, of "[Insert_op ?rr]"] run by simp
  from tree_neighbours [OF plain_PrevLabel_ok this, of "''c.org.''"]
  have "greatest_upto (elem_key plain_lib) (name_key plain_lib ''c.org.'') (set (Tree_All ?t)) (Tree_Prev plain_lib ?t ''c.org.'')"
    "Tree_Min ?t = Tree_Max ?t" by (auto simp: Tree_All_def)
  moreover have "map_option e_name (Tree_Prev plain_lib ?t ''c.org.'') = Some ''b.org.''" "Tree_Next plain_lib ?t ''c.org.'' = None"
    by code_simp+
  ultimately show ?thesis using run by blast
qed

text \<open>A visit of the elements in order, which ends at the first error.\<close>

fun auth_visit ::
  "dnslib \<Rightarrow> (Elem \<Rightarrow> (u16, RR list) gomap \<Rightarrow> bool \<Rightarrow> 's \<Rightarrow> 's \<times> 'x option) \<Rightarrow> Elem list
   \<Rightarrow> string list \<times> 's \<Rightarrow> (string list \<times> 's) \<times> 'x option" where
  "auth_visit D fn [] s = (s, None)"
| "auth_visit D fn (e # es) (ns, s) =
     (let ns = see_ns e ns in
      case fn e (e_m e) (authoritative D ns (Elem_Name e)) s of
        (s, Some err) \<Rightarrow> ((ns, s), Some err)
      | (s, None) \<Rightarrow> auth_visit D fn es (ns, s))"

lemma auth_visit_append:
  "auth_visit D fn (xs @ ys) s =
     (case auth_visit D fn xs s of (s, Some err) \<Rightarrow> (s, Some err) | (s, None) \<Rightarrow> auth_visit D fn ys s)"
proof (induction xs arbitrary: s)
  case (Cons x xs)
  obtain ns t where "s = (ns, t)" by (cases s)
  with Cons show ?case by (auto simp: Let_def split: prod.splits option.splits)
qed simp

lemma node_authwalk_visit: "node_authwalk D fn n s = auth_visit D fn (inorder n) s"
proof (induction n arbitrary: s)
  case (Node l c e r)
  then show ?case by (auto simp: auth_visit_append Let_def split: prod.splits option.splits)
qed simp

text \<open>The suffixes of a name that the loop looks up, and its outcome.\<close>

definition looked_up :: "dnslib \<Rightarrow> string \<Rightarrow> nat \<Rightarrow> string set" where
  "looked_up D name i =
     (\<lambda>j. drop (fst (NextLabel D name j)) name) ` {j. i \<le> j \<and> (\<forall>h \<in> {i..j}. \<not> snd (NextLabel D name h))}"

lemma looked_up_end: "snd (NextLabel D name i) \<Longrightarrow> looked_up D name i = {}"
  by (auto simp: looked_up_def)

lemma looked_up_step:
  assumes "\<not> snd (NextLabel D name i)"
  shows "looked_up D name i = insert (drop (fst (NextLabel D name i)) name) (looked_up D name (i + 1))"
proof -
  have "(i \<le> j \<and> (\<forall>h \<in> {i..j}. \<not> snd (NextLabel D name h))) \<longleftrightarrow>
      j = i \<or> i + 1 \<le> j \<and> (\<forall>h \<in> {i + 1..j}. \<not> snd (NextLabel D name h))" for j
  proof (cases "i < j")
    case True
    then have "{i..j} = insert i {i + 1..j}" using Icc_eq_insert_lb_nat [of i j] by simp
    with True assms show ?thesis by auto
  qed (use assms in auto)
  then have "{j. i \<le> j \<and> (\<forall>h \<in> {i..j}. \<not> snd (NextLabel D name h))}
      = insert i {j. i + 1 \<le> j \<and> (\<forall>h \<in> {i + 1..j}. \<not> snd (NextLabel D name h))}" by auto
  then show ?thesis unfolding looked_up_def by simp
qed

lemma NextLabel_okD: "NextLabel_ok D \<Longrightarrow> NextLabel D s i = (j, False) \<Longrightarrow> i < j \<and> j < length s"
  unfolding NextLabel_ok_def by (metis fst_conv snd_conv)

lemma auth_loop_enough:
  assumes "NextLabel_ok D" and "length name < i + k" and "0 < k"
  shows "auth_loop D ns name i k = Some (looked_up D name i \<inter> set ns = {})"
  using assms(2,3)
proof (induction k arbitrary: i)
  case (Suc k)
  obtain j b where jb: "NextLabel D name i = (j, b)" by (cases "NextLabel D name i")
  show ?case
  proof (cases b)
    case True
    then show ?thesis using jb looked_up_end [of D name i] by simp
  next
    case False
    then have "i < j" "j < length name" using NextLabel_okD [OF assms(1)] jb by auto
    then show ?thesis
      using False jb looked_up_step [of D name i] Suc.IH [of "i + 1"] Suc.prems by auto
  qed
qed simp

lemma authoritative_iff:
  "NextLabel_ok D \<Longrightarrow> authoritative D ns name \<longleftrightarrow> looked_up D name 0 \<inter> set ns = {}"
  unfolding authoritative_def by (subst auth_loop_enough) auto

text \<open>The names of the delegations among some elements.\<close>

definition delegations :: "Elem list \<Rightarrow> string set" where
  "delegations es = {Elem_Name e | e. e \<in> set es \<and> Elem_Type e TypeNS \<noteq> []}"

lemma set_see_ns: "set (see_ns e ns) = set ns \<union> delegations [e]"
  by (auto simp: see_ns_def delegations_def)

definition record_visit :: "Elem \<Rightarrow> (u16, RR list) gomap \<Rightarrow> bool \<Rightarrow> (Elem \<times> bool) list \<Rightarrow> (Elem \<times> bool) list \<times> unit option" where
  "record_visit e m auth seen = (seen @ [(e, auth)], None)"

lemma delegations_Cons: "delegations (e # es) = delegations [e] \<union> delegations es"
  by (auto simp: delegations_def)

lemma auth_visit_record:
  assumes "NextLabel_ok D"
  shows "\<exists>ns'. auth_visit D record_visit es (ns, seen) =
    ((ns', seen @ map (\<lambda>i. (es ! i, looked_up D (Elem_Name (es ! i)) 0 \<inter> (set ns \<union> delegations (take (Suc i) es)) = {}))
        [0..<length es]), None)"
proof (induction es arbitrary: ns seen)
  case (Cons e es)
  let ?ns = "see_ns e ns" and ?a = "authoritative D (see_ns e ns) (Elem_Name e)"
  have step: "auth_visit D record_visit (e # es) (ns, seen) = auth_visit D record_visit es (?ns, seen @ [(e, ?a)])"
    by (simp add: record_visit_def Let_def)
  have upt: "[0..<length (e # es)] = 0 # map Suc [0..<length es]"
    by (simp add: map_Suc_upt upt_conv_Cons del: upt_Suc)
  have del: "set ns \<union> delegations (take (Suc (Suc i)) (e # es)) = set ?ns \<union> delegations (take (Suc i) es)" for i
    unfolding take_Suc_Cons delegations_Cons [of e "take (Suc i) es"] set_see_ns by blast
  have "?a \<longleftrightarrow> looked_up D (Elem_Name e) 0 \<inter> (set ns \<union> delegations (take (Suc 0) (e # es))) = {}"
    by (simp add: authoritative_iff [OF assms] set_see_ns)
  then have "(e, ?a) # map (\<lambda>i. (es ! i, looked_up D (Elem_Name (es ! i)) 0 \<inter> (set ?ns \<union> delegations (take (Suc i) es)) = {}))
        [0..<length es] =
      map (\<lambda>i. ((e # es) ! i, looked_up D (Elem_Name ((e # es) ! i)) 0 \<inter> (set ns \<union> delegations (take (Suc i) (e # es))) = {}))
        [0..<length (e # es)]"
    unfolding upt by (simp add: del [symmetric] comp_def del: take_Suc_Cons)
  then show ?case
    using Cons.IH [of ?ns "seen @ [(e, ?a)]"] unfolding step by simp
qed simp

text \<open>\<open>AuthWalk\<close> visits every element once, in canonical order, and says which are authoritative: an
  element is not, exactly when a name that ends its name at a label is the owner of an NS record in the
  tree and does not come after it. The inner search always ends.\<close>

theorem authwalk_flags:
  assumes "NextLabel_ok D"
  shows "Tree_AuthWalk D record_visit t [] =
    (map (\<lambda>i. (Tree_All t ! i,
        looked_up D (Elem_Name (Tree_All t ! i)) 0 \<inter> delegations (take (Suc i) (Tree_All t)) = {})) [0..<length (Tree_All t)], None)"
proof -
  have all: "Tree_All t = inorder (t_Root t)" by (simp add: Tree_All_def node_all_inorder)
  show ?thesis
    using auth_visit_record [OF assms, of "inorder (t_Root t)" "[]" "[]"]
    by (auto simp: Tree_AuthWalk_def node_authwalk_visit all)
qed

definition delegated_tree :: Tree where
  "delegated_tree =
     \<lparr>t_Root = Node (Node NilNode Red
          (newElem \<lparr>rr_Name = ''sub.org.'', rr_Type = TypeNS, rr_Class = 1, rr_Ttl = 60, rr_data = RD_NS ''ns.org.''\<rparr>) NilNode)
        Black (newElem \<lparr>rr_Name = ''www.sub.org.'', rr_Type = TypeA, rr_Class = 1, rr_Ttl = 60, rr_data = RD_A [1, 2, 3, 4]\<rparr>) NilNode,
      t_Count = 2\<rparr>"

theorem authwalk_flags_witness:
  "map snd (fst (Tree_AuthWalk plain_lib record_visit delegated_tree [])) = [True, False]
   \<and> looked_up plain_lib ''www.sub.org.'' 0 \<inter> delegations (take 2 (Tree_All delegated_tree)) \<noteq> {}"
proof -
  have flags: "map snd (fst (Tree_AuthWalk plain_lib record_visit delegated_tree [])) = [True, False]" by code_simp
  have "length (Tree_All delegated_tree) = 2" "Elem_Name (Tree_All delegated_tree ! 1) = ''www.sub.org.''" by code_simp+
  with flags show ?thesis
    unfolding authwalk_flags [OF plain_NextLabel_ok] by (simp add: numeral_2_eq_2 comp_def)
qed

end
