(* ===== verification/Zone_File.thy ===== *)
theory Zone_File
  imports Zone_Tree
begin

text \<open>
  Zones and their lookups, \<^verbatim>\<open>plugin/file\<close>: \<^verbatim>\<open>zone.go\<close>, \<^verbatim>\<open>lookup.go\<close>, \<^verbatim>\<open>closest.go\<close>,
  \<^verbatim>\<open>wildcard.go\<close>, \<^verbatim>\<open>dname.go\<close> and the parser loop of \<^verbatim>\<open>file.go\<close>.

  A \<open>Zone\<close> keeps the records at its apex apart from the tree. \<open>Zone_Insert\<close> and \<open>Lookup\<close> give \<open>None\<close>
  for a panic: a record whose data does not fit its type, or a message without a question. Locks
  are not part of the model: the operations here are the critical sections. The lookup of a name
  outside the zone goes through the whole server again, which is an argument, as is the value of the
  loop counter that the context carries.

  The properties: a lookup in a well-formed zone always ends without a panic, an existing name is
  answered with exactly its records, nothing below a delegation is answered with authority, and a name
  that is denied does not exist in the tree.
\<close>

section \<open>Zones\<close>

text \<open>\<^verbatim>\<open>filepath.Clean\<close>, for paths separated by slashes.\<close>

fun clean_parts :: "bool \<Rightarrow> string list \<Rightarrow> string list \<Rightarrow> string list" where
  "clean_parts rooted [] out = rev out"
| "clean_parts rooted (p # ps) out =
     (if p = '''' \<or> p = ''.'' then clean_parts rooted ps out
      else if p = ''..'' then
        (case out of
           [] \<Rightarrow> clean_parts rooted ps (if rooted then [] else [''..''])
         | q # out' \<Rightarrow> clean_parts rooted ps (if q = ''..'' then ''..'' # out else out'))
      else clean_parts rooted ps (p # out))"

definition filepath_Clean :: "string \<Rightarrow> string" where
  "filepath_Clean p =
     (let rooted = HasPrefix p ''/'';
          s = (if rooted then ''/'' else '''') @ Join (clean_parts rooted (Split p CHR ''/'') []) ''/''
      in if s = '''' then ''.'' else s)"

record Apex =
  a_SOA :: "RR option"
  a_NS :: "RR list"
  a_SIGSOA :: "RR list"
  a_SIGNS :: "RR list"

record Zone =
  z_origin :: string
  z_origLen :: nat
  z_file :: string
  z_mtime :: time
  z_Tree :: Tree
  z_Apex :: Apex
  z_Expired :: bool
  z_TransferFrom :: "string list"
  z_ReloadInterval :: duration
  z_ReloadByMtime :: bool

definition new_Apex :: Apex where
  "new_Apex = \<lparr>a_SOA = None, a_NS = [], a_SIGSOA = [], a_SIGNS = []\<rparr>"

definition NewZone :: "dnslib \<Rightarrow> string \<Rightarrow> string \<Rightarrow> Zone" where
  "NewZone D name file =
     \<lparr>z_origin = Fqdn D name, z_origLen = CountLabel D (Fqdn D name), z_file = filepath_Clean file, z_mtime = 0,
      z_Tree = new_Tree, z_Apex = new_Apex, z_Expired = False, z_TransferFrom = [], z_ReloadInterval = 0,
      z_ReloadByMtime = False\<rparr>"

definition Zone_Copy :: "dnslib \<Rightarrow> Zone \<Rightarrow> Zone" where
  "Zone_Copy D z =
     (NewZone D (z_origin z) (z_file z))\<lparr>z_TransferFrom := z_TransferFrom z, z_Expired := z_Expired z, z_Apex := z_Apex z\<rparr>"

definition CopyWithoutApex :: "dnslib \<Rightarrow> Zone \<Rightarrow> Zone" where
  "CopyWithoutApex D z =
     (NewZone D (z_origin z) (z_file z))\<lparr>z_TransferFrom := z_TransferFrom z, z_Expired := z_Expired z\<rparr>"

definition canonicalEscape :: "dnslib \<Rightarrow> string \<Rightarrow> string" where
  "canonicalEscape D name =
     (if backslash \<notin> set name then name
      else case PackDomainName D name (length name + 1) of
        None \<Rightarrow> name
      | Some buf \<Rightarrow> (case UnpackDomainName D buf of None \<Rightarrow> name | Some out \<Rightarrow> out))"

definition tree_insert :: "dnslib \<Rightarrow> Zone \<Rightarrow> RR \<Rightarrow> (string + Zone) option" where
  "tree_insert D z r =
     (case Tree_Insert D (z_Tree z) r of None \<Rightarrow> None | Some t \<Rightarrow> Some (Inr (z\<lparr>z_Tree := t\<rparr>)))"

text \<open>
  \<open>None\<close> is a failed type assertion, \<open>Some (Inl e)\<close> the returned error. The data of a record is written
  back in lower case for the types that hold a name.
\<close>

definition Zone_Insert :: "dnslib \<Rightarrow> Zone \<Rightarrow> RR \<Rightarrow> (string + Zone) option" where
  "Zone_Insert D z r0 =
     (let r = (if rr_Type r0 \<noteq> TypeSRV then r0\<lparr>rr_Name := ToLower (canonicalEscape D (rr_Name r0))\<rparr> else r0);
          ap = z_Apex z in
      if rr_Type r = TypeNS then
        (case rr_data r of
           RD_NS ns \<Rightarrow>
             let r = r\<lparr>rr_data := RD_NS (ToLower ns)\<rparr> in
             if rr_Name r = z_origin z then Some (Inr (z\<lparr>z_Apex := ap\<lparr>a_NS := a_NS ap @ [r]\<rparr>\<rparr>))
             else tree_insert D z r
         | _ \<Rightarrow> None)
      else if rr_Type r = TypeSOA then
        (case rr_data r of
           RD_SOA ns mbox serial refresh retry expire minttl \<Rightarrow>
             let r = r\<lparr>rr_data := RD_SOA (ToLower ns) (ToLower mbox) serial refresh retry expire minttl\<rparr> in
             Some (Inr (z\<lparr>z_Apex := ap\<lparr>a_SOA := Some r\<rparr>\<rparr>))
         | _ \<Rightarrow> None)
      else if rr_Type r = TypeNSEC3 \<or> rr_Type r = TypeNSEC3PARAM then
        Some (Inl (''NSEC3 zone is not supported, dropping RR: '' @ rr_Name r @ '' for zone: '' @ z_origin z))
      else if rr_Type r = TypeRRSIG then
        (case rr_data r of
           RD_RRSIG covered signer a b \<Rightarrow>
             if covered = TypeSOA then Some (Inr (z\<lparr>z_Apex := ap\<lparr>a_SIGSOA := a_SIGSOA ap @ [r]\<rparr>\<rparr>))
             else if covered = TypeNS \<and> rr_Name r = z_origin z then
               Some (Inr (z\<lparr>z_Apex := ap\<lparr>a_SIGNS := a_SIGNS ap @ [r]\<rparr>\<rparr>))
             else tree_insert D z r
         | _ \<Rightarrow> None)
      else if rr_Type r = TypeCNAME then
        (case rr_data r of RD_CNAME t \<Rightarrow> tree_insert D z (r\<lparr>rr_data := RD_CNAME (ToLower t)\<rparr>) | _ \<Rightarrow> None)
      else if rr_Type r = TypeMX then
        (case rr_data r of RD_MX p t \<Rightarrow> tree_insert D z (r\<lparr>rr_data := RD_MX p (ToLower t)\<rparr>) | _ \<Rightarrow> None)
      else if rr_Type r = TypeSVCB \<or> rr_Type r = TypeHTTPS then
        (case rr_data r of RD_SVCB t \<Rightarrow> tree_insert D z (r\<lparr>rr_data := RD_SVCB (ToLower t)\<rparr>) | _ \<Rightarrow> None)
      else tree_insert D z r)"

definition setData :: "Zone \<Rightarrow> Apex \<Rightarrow> Tree \<Rightarrow> Zone" where
  "setData z ap t = z\<lparr>z_Apex := ap, z_Tree := t, z_Expired := False\<rparr>"

definition Apex_records :: "Apex \<Rightarrow> RR list option" where
  "Apex_records a =
     (case a_SOA a of None \<Rightarrow> None | Some soa \<Rightarrow> Some ([soa] @ a_SIGSOA a @ a_NS a @ a_SIGNS a))"

definition ApexIfDefined :: "Zone \<Rightarrow> RR list option" where
  "ApexIfDefined z = Apex_records (z_Apex z)"

text \<open>Labels dropped from the right of the first \<open>n\<close> bytes; \<open>None\<close> when there are not that many.\<close>

fun strip_labels :: "dnslib \<Rightarrow> string \<Rightarrow> nat \<Rightarrow> nat \<Rightarrow> nat option" where
  "strip_labels D qname n 0 = Some n"
| "strip_labels D qname n (Suc j) =
     (case PrevLabel D (take n qname) 1 of (m, shot) \<Rightarrow> if shot then None else strip_labels D qname m j)"

definition nameFromRight :: "dnslib \<Rightarrow> Zone \<Rightarrow> string \<Rightarrow> nat \<Rightarrow> string \<times> bool" where
  "nameFromRight D z qname i =
     (if i \<le> 0 then (z_origin z, False)
      else case strip_labels D qname (length qname) (z_origLen z) of
        None \<Rightarrow> (qname, True)
      | Some n \<Rightarrow>
          (case strip_labels D qname n i of
             None \<Rightarrow> (qname, True)
           | Some n \<Rightarrow> (drop n qname, False)))"

definition SOASerialIfDefined :: "Zone \<Rightarrow> int" where
  "SOASerialIfDefined z =
     (case a_SOA (z_Apex z) of
        Some soa \<Rightarrow> (case rr_data soa of RD_SOA _ _ serial _ _ _ _ \<Rightarrow> uint serial | _ \<Rightarrow> - 1)
      | None \<Rightarrow> - 1)"

section \<open>Closest encloser, wildcards, DNAME\<close>

text \<open>The loop of \<^verbatim>\<open>ClosestEncloser\<close>; every turn cuts the name, so its length is enough fuel.\<close>

fun encloser_loop :: "dnslib \<Rightarrow> Zone \<Rightarrow> string \<Rightarrow> nat \<Rightarrow> Elem option option" where
  "encloser_loop D z qname 0 = None"
| "encloser_loop D z qname (Suc k) =
     (case NextLabel D qname 0 of
        (offset, end) \<Rightarrow>
          if end then Some (Tree_Search D (z_Tree z) (z_origin z))
          else case Tree_Search D (z_Tree z) qname of
              Some elem \<Rightarrow> Some (Some elem)
            | None \<Rightarrow> encloser_loop D z (drop offset qname) k)"

definition ClosestEncloser :: "dnslib \<Rightarrow> Zone \<Rightarrow> string \<Rightarrow> Elem option" where
  "ClosestEncloser D z qname =
     (case encloser_loop D z qname (Suc (length qname)) of Some r \<Rightarrow> r | None \<Rightarrow> None)"

definition replaceWithAsteriskLabel :: "dnslib \<Rightarrow> string \<Rightarrow> string" where
  "replaceWithAsteriskLabel D qname =
     (case NextLabel D qname 0 of (i, shot) \<Rightarrow> if shot then '''' else ''*.'' @ drop i qname)"

definition substituteDNAME :: "dnslib \<Rightarrow> string \<Rightarrow> string \<Rightarrow> string \<Rightarrow> string" where
  "substituteDNAME D qname owner target =
     (if IsSubDomain D owner qname \<and> qname \<noteq> owner then
        let labels = SplitDomainName D qname
        in dnsutil_Join D (take (length labels - CountLabel D owner) labels @ SplitDomainName D target)
      else '''')"

definition synthesizeCNAME :: "dnslib \<Rightarrow> string \<Rightarrow> RR \<Rightarrow> string \<Rightarrow> RR option" where
  "synthesizeCNAME D qname d d_Target =
     (let target = substituteDNAME D qname (rr_Name d) d_Target in
      if target = '''' then None
      else Some \<lparr>rr_Name = qname, rr_Type = TypeCNAME, rr_Class = ClassINET, rr_Ttl = rr_Ttl d, rr_data = RD_CNAME target\<rparr>)"

section \<open>Lookups\<close>

datatype Result = Success | NameError | Delegation | NoData | ServerFailure

type_synonym lookup_answer = "RR list \<times> RR list \<times> RR list \<times> Result"

definition typeFromElem :: "Elem \<Rightarrow> u16 \<Rightarrow> bool \<Rightarrow> RR list" where
  "typeFromElem elem tp do_bit =
     Elem_Type elem tp @ (if do_bit then SubTypeSignature (Elem_Type elem TypeRRSIG) tp else [])"

text \<open>The caller of \<^verbatim>\<open>soa\<close> has checked that there is one.\<close>

definition Apex_soa :: "Apex \<Rightarrow> bool \<Rightarrow> RR list" where
  "Apex_soa a do_bit =
     (case a_SOA a of Some soa \<Rightarrow> if do_bit then soa # a_SIGSOA a else [soa] | None \<Rightarrow> [])"

definition Apex_ns :: "Apex \<Rightarrow> bool \<Rightarrow> RR list" where
  "Apex_ns a do_bit = (if do_bit then a_NS a @ a_SIGNS a else a_NS a)"

text \<open>
  \<^verbatim>\<open>Upstream.Lookup\<close> asks the server itself, with the loop counter of the context, and takes the last
  message that it wrote. Without a server in the context it fails.
\<close>

type_synonym server = "nat \<Rightarrow> Msg \<Rightarrow> Msg list"

definition Upstream_Lookup ::
  "dnslib \<Rightarrow> server option \<Rightarrow> nat \<Rightarrow> Msg \<Rightarrow> string \<Rightarrow> u16 \<Rightarrow> (string + Msg option) option" where
  "Upstream_Lookup D srv loop r name typ =
     (case srv of
        None \<Rightarrow> Some (Inl ''no full server is running'')
      | Some serve \<Rightarrow>
          (case NewWithQuestion D r name typ of
             None \<Rightarrow> None
           | Some req \<Rightarrow>
               Some (Inr (if serve loop req = [] then None else Some (last (serve loop req))))))"

definition doLookup ::
  "dnslib \<Rightarrow> server option \<Rightarrow> nat \<Rightarrow> Msg \<Rightarrow> string \<Rightarrow> u16 \<Rightarrow> (RR list \<times> Result) option" where
  "doLookup D srv loop r target qtype =
     (case Upstream_Lookup D srv loop r target qtype of
        None \<Rightarrow> None
      | Some (Inl e) \<Rightarrow> Some ([], ServerFailure)
      | Some (Inr None) \<Rightarrow> Some ([], Success)
      | Some (Inr (Some m)) \<Rightarrow>
          if m_Rcode m = RcodeNameError then Some (m_Answer m, NameError)
          else if m_Rcode m = RcodeServerFailure then Some (m_Answer m, ServerFailure)
          else if m_Rcode m = RcodeSuccess \<and> length (m_Answer m) = 0 then Some (m_Answer m, NoData)
          else Some (m_Answer m, Success))"

text \<open>The first CNAME of a list; \<open>None\<close> is the failed type assertion.\<close>

definition cname_target :: "RR list \<Rightarrow> string option" where
  "cname_target rrs = (case rrs of rr # _ \<Rightarrow> (case rr_data rr of RD_CNAME t \<Rightarrow> Some t | _ \<Rightarrow> None) | [] \<Rightarrow> None)"

definition ask_outside :: "u16 \<Rightarrow> string \<Rightarrow> string \<Rightarrow> Elem option \<Rightarrow> bool" where
  "ask_outside qtype target origin elem =
     (elem = None \<or> (qtype = TypeNS \<or> qtype = TypeSOA \<and> target = origin))"

text \<open>The part of \<^verbatim>\<open>externalLookup\<close> from the label \<^verbatim>\<open>Redo\<close>; the number is what is left of the eight turns.\<close>

fun ext_redo ::
  "dnslib \<Rightarrow> Zone \<Rightarrow> server option \<Rightarrow> nat \<Rightarrow> Msg \<Rightarrow> nat \<Rightarrow> Elem \<Rightarrow> RR list \<Rightarrow> lookup_answer option" where
  "ext_redo D z srv loop r left elem rrs =
     (let qtype = req_QType r; do_bit = req_Do D r; cname = Elem_Type elem TypeCNAME in
      if length cname > 0 then
        (let rrs = rrs @ cname @ (if do_bit then SubTypeSignature (Elem_Type elem TypeRRSIG) TypeCNAME else []) in
         case cname_target cname of
           None \<Rightarrow> None
         | Some targetName \<Rightarrow>
             (case Tree_Search D (z_Tree z) targetName of
                elem \<Rightarrow>
                  if ask_outside qtype targetName (z_origin z) elem then
                    (case doLookup D srv loop r targetName qtype of
                       None \<Rightarrow> None
                     | Some (lookupRRs, result) \<Rightarrow>
                         Some (rrs @ lookupRRs, Apex_ns (z_Apex z) do_bit, [], result))
                  else
                    (case (left, elem) of
                       (Suc left, Some elem) \<Rightarrow> ext_redo D z srv loop r left elem rrs
                     | _ \<Rightarrow> Some (rrs, Apex_ns (z_Apex z) do_bit, [], Success))))
      else
        (let targets = Elem_Type elem qtype in
         Some (rrs @ (if length targets > 0
                      then targets @ (if do_bit then SubTypeSignature (Elem_Type elem TypeRRSIG) qtype else [])
                      else []),
               Apex_ns (z_Apex z) do_bit, [], Success)))"

declare ext_redo.simps [simp del]

definition externalLookup ::
  "dnslib \<Rightarrow> Zone \<Rightarrow> server option \<Rightarrow> nat \<Rightarrow> Msg \<Rightarrow> Elem \<Rightarrow> RR list \<Rightarrow> lookup_answer option" where
  "externalLookup D z srv loop r elem rrs =
     (let qtype = req_QType r; do_bit = req_Do D r;
          rrs = rrs @ (if do_bit then SubTypeSignature (Elem_Type elem TypeRRSIG) TypeCNAME else []) in
      case cname_target rrs of
        None \<Rightarrow> None
      | Some targetName \<Rightarrow>
          (case Tree_Search D (z_Tree z) targetName of
             elem \<Rightarrow>
               if ask_outside qtype targetName (z_origin z) elem then
                 (case doLookup D srv loop r targetName qtype of
                    None \<Rightarrow> None
                  | Some (lookupRRs, result) \<Rightarrow>
                      Some (rrs @ lookupRRs, Apex_ns (z_Apex z) do_bit, [], result))
               else
                 (case elem of
                    Some elem \<Rightarrow> ext_redo D z srv loop r 8 elem rrs
                  | None \<Rightarrow> None)))"

definition additional_name :: "RR \<Rightarrow> string" where
  "additional_name rr =
     (case rr_data rr of RD_SRV _ _ _ t \<Rightarrow> t | RD_MX _ t \<Rightarrow> t | RD_SVCB t \<Rightarrow> t | _ \<Rightarrow> '''')"

definition additionalProcessing :: "dnslib \<Rightarrow> Zone \<Rightarrow> RR list \<Rightarrow> bool \<Rightarrow> RR list" where
  "additionalProcessing D z answer do_bit =
     concat (map (\<lambda>rr.
       let name = additional_name rr in
       if length name = 0 \<or> \<not> IsSubDomain D (z_origin z) name then []
       else case Tree_Search D (z_Tree z) name of
           None \<Rightarrow> []
         | Some elem \<Rightarrow>
             concat (map (\<lambda>addr.
               let a = Elem_Type elem addr in
               if a \<noteq> [] then a @ (if do_bit then SubTypeSignature (Elem_Type elem TypeRRSIG) addr else []) else [])
               [TypeA, TypeAAAA])) answer)"

text \<open>
  The answer that a DNAME at \<open>elem\<close> gives: \<open>Some None\<close> when there is none or it does not apply.
\<close>

definition dname_answer ::
  "dnslib \<Rightarrow> Zone \<Rightarrow> server option \<Rightarrow> nat \<Rightarrow> Msg \<Rightarrow> Elem \<Rightarrow> lookup_answer option option" where
  "dname_answer D z srv loop r elem =
     (let qtype = req_QType r; do_bit = req_Do D r in
      case Elem_Type elem TypeDNAME of
        [] \<Rightarrow> Some None
      | dname # _ \<Rightarrow>
          (case rr_data dname of
             RD_DNAME target \<Rightarrow>
               (case synthesizeCNAME D (req_Name D r) dname target of
                  None \<Rightarrow> Some None
                | Some cname \<Rightarrow>
                    (case (if qtype = TypeCNAME then Some ([cname], Apex_ns (z_Apex z) do_bit, [], Success)
                           else externalLookup D z srv (loop + 1) r elem [cname]) of
                       None \<Rightarrow> None
                     | Some (answer, ns, extra, rcode) \<Rightarrow>
                         Some (Some (typeFromElem elem TypeDNAME do_bit @ answer, ns, extra, rcode))))
           | _ \<Rightarrow> None))"

datatype lookup_end = Answered lookup_answer | Overshot "Elem option" "Elem option"

text \<open>
  The loop over the labels from the right. \<open>elem\<close> is the result of the last search, \<open>wild\<close> the last
  wildcard that was found. The fuel is more than the number of labels that a name can have.
\<close>

fun lookup_loop ::
  "dnslib \<Rightarrow> Zone \<Rightarrow> server option \<Rightarrow> nat \<Rightarrow> Msg \<Rightarrow> string \<Rightarrow> nat \<Rightarrow> nat \<Rightarrow> Elem option \<Rightarrow> Elem option \<Rightarrow> lookup_end option" where
  "lookup_loop D z srv loop r qname 0 i elem wild = None"
| "lookup_loop D z srv loop r qname (Suc k) i elem wild =
     (case nameFromRight D z qname i of
        (parts, shot) \<Rightarrow>
          if shot then Some (Overshot elem wild)
          else case Tree_Search D (z_Tree z) parts of
              None \<Rightarrow>
                lookup_loop D z srv loop r qname k (i + 1) None
                  (case Tree_Search D (z_Tree z) (replaceWithAsteriskLabel D parts) of Some w \<Rightarrow> Some w | None \<Rightarrow> wild)
            | Some e \<Rightarrow>
                (case dname_answer D z srv loop r e of
                   None \<Rightarrow> None
                 | Some (Some ans) \<Rightarrow> Some (Answered ans)
                 | Some None \<Rightarrow>
                     (let nsrrs = Elem_Type e TypeNS; do_bit = req_Do D r in
                      if nsrrs \<noteq> [] \<and> \<not> (req_QType r = TypeDS \<and> Elem_Name e = qname) then
                        Some (Answered ([], nsrrs @ (if do_bit then typeFromElem e TypeDS do_bit else []),
                          Tree_Glue D (z_Tree z) nsrrs do_bit, Delegation))
                      else lookup_loop D z srv loop r qname k (i + 1) (Some e) wild)))"

definition lookup_found ::
  "dnslib \<Rightarrow> Zone \<Rightarrow> server option \<Rightarrow> nat \<Rightarrow> Msg \<Rightarrow> Elem \<Rightarrow> lookup_answer option" where
  "lookup_found D z srv loop r elem =
     (let qtype = req_QType r; do_bit = req_Do D r; ap = z_Apex z; cnames = Elem_Type elem TypeCNAME in
      if length cnames > 0 \<and> qtype \<noteq> TypeCNAME then externalLookup D z srv (loop + 1) r elem cnames
      else
        let rrs = Elem_Type elem qtype in
        if length rrs = 0 then
          Some ([], Apex_soa ap do_bit @ (if do_bit then typeFromElem elem TypeNSEC do_bit else []), [], NoData)
        else
          Some (rrs @ (if do_bit then SubTypeSignature (Elem_Type elem TypeRRSIG) qtype else []),
                Apex_ns ap do_bit, additionalProcessing D z rrs do_bit, Success))"

definition lookup_wild ::
  "dnslib \<Rightarrow> Zone \<Rightarrow> server option \<Rightarrow> nat \<Rightarrow> Msg \<Rightarrow> string \<Rightarrow> Elem \<Rightarrow> lookup_answer option" where
  "lookup_wild D z srv loop r qname wildElem =
     (let qtype = req_QType r; do_bit = req_Do D r; ap = z_Apex z; cnames = TypeForWildcard wildElem TypeCNAME qname in
      if length cnames > 0 \<and> qtype \<noteq> TypeCNAME then externalLookup D z srv (loop + 1) r wildElem cnames
      else
        let rrs = TypeForWildcard wildElem qtype qname in
        if length rrs = 0 then
          Some ([], Apex_soa ap do_bit @ (if do_bit then typeFromElem wildElem TypeNSEC do_bit else []), [], NoData)
        else
          Some (rrs @ (if do_bit then SubTypeSignature (TypeForWildcard wildElem TypeRRSIG qname) qtype else []),
                Apex_ns ap do_bit
                  @ (if do_bit then
                       (case Tree_Prev D (z_Tree z) qname of
                          Some deny \<Rightarrow> typeFromElem deny TypeNSEC do_bit
                        | None \<Rightarrow> [])
                     else []),
                [], Success))"

text \<open>The end of \<^verbatim>\<open>Lookup\<close>, for a name that was not found and has no wildcard.\<close>

definition lookup_denied :: "dnslib \<Rightarrow> Zone \<Rightarrow> Msg \<Rightarrow> string \<Rightarrow> lookup_answer" where
  "lookup_denied D z r qname =
     (let do_bit = req_Do D r; ap = z_Apex z; tr = z_Tree z;
          rcode = (case Tree_Next D tr qname of
              Some x \<Rightarrow> if IsSubDomain D qname (Elem_Name x) then Success else NameError
            | None \<Rightarrow> NameError);
          nsecs = (if do_bit then
              (case Tree_Prev D tr qname of
                 None \<Rightarrow> []
               | Some deny \<Rightarrow>
                   typeFromElem deny TypeNSEC do_bit
                   @ (if rcode \<noteq> NameError then []
                      else case ClosestEncloser D z qname of
                          None \<Rightarrow> []
                        | Some ce \<Rightarrow>
                            (case Tree_Prev D tr (''*.'' @ Elem_Name ce) of
                               None \<Rightarrow> []
                             | Some ss \<Rightarrow>
                                 if Elem_Name ss \<noteq> Elem_Name deny then typeFromElem ss TypeNSEC do_bit else [])))
            else [])
      in ([], Apex_soa ap do_bit @ nsecs, [], rcode))"

definition Lookup ::
  "dnslib \<Rightarrow> Zone \<Rightarrow> server option \<Rightarrow> nat \<Rightarrow> Msg \<Rightarrow> string \<Rightarrow> lookup_answer option" where
  "Lookup D z srv loop r qname =
     (let qtype = req_QType r; do_bit = req_Do D r; ap = z_Apex z; tr = z_Tree z in
      if a_SOA ap = None then Some ([], [], [], ServerFailure)
      else if qname = z_origin z \<and> qtype = TypeSOA then Some (Apex_soa ap do_bit, Apex_ns ap do_bit, [], Success)
      else if qname = z_origin z \<and> qtype = TypeNS then
        (let nsrrs = Apex_ns ap do_bit in Some (nsrrs, [], Tree_Glue D tr nsrrs do_bit, Success))
      else if loop > 8 then Some ([], [], [], ServerFailure)
      else
        (case lookup_loop D z srv loop r qname (length qname + 2) 0 None None of
           None \<Rightarrow> None
         | Some (Answered ans) \<Rightarrow> Some ans
         | Some (Overshot (Some elem) wild) \<Rightarrow> lookup_found D z srv loop r elem
         | Some (Overshot None (Some wildElem)) \<Rightarrow> lookup_wild D z srv loop r qname wildElem
         | Some (Overshot None None) \<Rightarrow> Some (lookup_denied D z r qname)))"

section \<open>Parsing a zone file\<close>

text \<open>
  The parser of the library gives a list of records and, at its end, possibly an error. \<open>Parse\<close> gives
  \<open>None\<close> for a panic of \<open>Zone_Insert\<close>. The branch for \<^verbatim>\<open>ReloadByMtime\<close> is not reached: the zone
  is a new one, in which the flag is off.
\<close>

datatype parse_error = Serial_unchanged | Insert_error string | Parser_error | No_SOA

fun parse_loop :: "dnslib \<Rightarrow> int \<Rightarrow> RR list \<Rightarrow> bool \<Rightarrow> Zone \<Rightarrow> (parse_error + bool \<times> Zone) option" where
  "parse_loop D serial [] seenSOA z = Some (Inr (seenSOA, z))"
| "parse_loop D serial (rr # rrs) seenSOA z =
     (let soa = (case rr_data rr of RD_SOA _ _ s _ _ _ _ \<Rightarrow> Some s | _ \<Rightarrow> None);
          first = (\<not> seenSOA \<and> soa \<noteq> None) in
      if first \<and> serial \<ge> 0 \<and> soa = Some (word_of_int serial) then Some (Inl Serial_unchanged)
      else
        (case Zone_Insert D z rr of
           None \<Rightarrow> None
         | Some (Inl e) \<Rightarrow> Some (Inl (Insert_error e))
         | Some (Inr z) \<Rightarrow> parse_loop D serial rrs (seenSOA \<or> first) z))"

definition Parse ::
  "dnslib \<Rightarrow> RR list \<times> bool \<Rightarrow> string \<Rightarrow> string \<Rightarrow> int \<Rightarrow> (parse_error + Zone) option" where
  "Parse D f origin fileName serial =
     (case f of
        (rrs, parser_fails) \<Rightarrow>
          (case parse_loop D serial rrs False (NewZone D origin fileName) of
             None \<Rightarrow> None
           | Some (Inl e) \<Rightarrow> Some (Inl e)
           | Some (Inr (seenSOA, z)) \<Rightarrow>
               if parser_fails then Some (Inl Parser_error)
               else if \<not> seenSOA then Some (Inl No_SOA) else Some (Inr z)))"

section \<open>Well-formed zones\<close>

text \<open>The data of a record fits its type; a parser of zone files or messages gives such records.\<close>

definition rr_typed :: "RR \<Rightarrow> bool" where
  "rr_typed rr \<longleftrightarrow>
     (rr_Type rr = TypeNS \<longrightarrow> (\<exists>n. rr_data rr = RD_NS n))
     \<and> (rr_Type rr = TypeSOA \<longleftrightarrow> (\<exists>n m a b c d e. rr_data rr = RD_SOA n m a b c d e))
     \<and> (rr_Type rr = TypeRRSIG \<longrightarrow> (\<exists>c s a b. rr_data rr = RD_RRSIG c s a b))
     \<and> (rr_Type rr = TypeCNAME \<longrightarrow> (\<exists>n. rr_data rr = RD_CNAME n))
     \<and> (rr_Type rr = TypeDNAME \<longrightarrow> (\<exists>n. rr_data rr = RD_DNAME n))
     \<and> (rr_Type rr = TypeMX \<longrightarrow> (\<exists>p n. rr_data rr = RD_MX p n))
     \<and> (rr_Type rr = TypeSVCB \<or> rr_Type rr = TypeHTTPS \<longrightarrow> (\<exists>n. rr_data rr = RD_SVCB n))"

definition tree_records :: "Tree \<Rightarrow> RR list" where
  "tree_records t = concat (map Elem_All (Tree_All t))"

definition zone_ok :: "dnslib \<Rightarrow> Zone \<Rightarrow> bool" where
  "zone_ok D z \<longleftrightarrow> tree_ok D (z_Tree z) \<and> (\<forall>rr \<in> set (tree_records (z_Tree z)). rr_typed rr)"

lemma Tree_All_inorder: "Tree_All t = inorder (t_Root t)"
  by (simp add: Tree_All_def node_all_inorder)

lemma Elem_Type_All: "set (Elem_Type e ty) \<subseteq> set (Elem_All e)"
  by (cases "map_of (e_m e) ty") (auto simp: Elem_Type_def Elem_All_def dest!: map_of_SomeD)

lemma Search_in_tree: "Tree_Search D t name = Some e \<Longrightarrow> e \<in> set (Tree_All t)"
proof -
  have "search cmp n = Some e \<Longrightarrow> e \<in> set (inorder n)" for cmp n
    by (induction n) (auto split: if_splits)
  then show "Tree_Search D t name = Some e \<Longrightarrow> e \<in> set (Tree_All t)"
    by (auto simp: Tree_Search_def Tree_All_inorder)
qed

lemma Search_typed:
  assumes "zone_ok D z" and "Tree_Search D (z_Tree z) name = Some e" and "rr \<in> set (Elem_Type e ty)"
  shows "rr_typed rr" and "rr_Type rr = ty"
proof -
  have e: "e \<in> set (Tree_All (z_Tree z))" by (rule Search_in_tree [OF assms(2)])
  then show "rr_typed rr"
    using assms(1,3) Elem_Type_All [of e ty] by (auto simp: zone_ok_def tree_records_def)
  have "elem_wf D e"
    using e assms(1) tree_okD(3) by (auto simp: zone_ok_def Tree_All_inorder elem_ok_def)
  then show "rr_Type rr = ty"
    using assms(3) elem_wf_lookup [of D e ty] by (cases "map_of (e_m e) ty") (auto simp: Elem_Type_def)
qed

lemma mset_Elem_Insert: "mset (Elem_All (Elem_Insert e rr)) = add_mset rr (mset (Elem_All e))"
proof -
  have "mset (concat (map snd (map_put k (case map_of m k of Some rrs \<Rightarrow> rrs @ [rr] | None \<Rightarrow> [rr]) m)))
      = add_mset rr (mset (concat (map snd m)))" for k and m :: "(u16, RR list) gomap"
    unfolding map_put_def by (induction m) (auto split: option.splits)
  from this [of "rr_Type rr" "e_m e"] show ?thesis
    by (auto simp: Elem_All_def Elem_Insert_def Let_def split: option.splits)
qed

lemma mset_ins_list:
  assumes "mset (f new) = {#x#}" and "\<And>e. mset (f (upd e)) = add_mset x (mset (f e))"
  shows "mset (concat (map f (ins_list cmp new upd xs))) = add_mset x (mset (concat (map f xs)))"
  using assms by (induction xs) auto

lemma tree_records_Insert:
  assumes "PrevLabel_ok D" and "tree_ok D t" and "Tree_Insert D t rr = Some t'"
  shows "mset (tree_records t') = add_mset rr (mset (tree_records t))"
proof -
  have "Tree_All t' = ins_list (\<lambda>e. Less D e (rr_Name rr)) (newElem rr) (\<lambda>e. Elem_Insert e rr) (Tree_All t)"
    using Tree_Insert_spec [OF assms(1,2), of rr] assms(3) by (auto simp: Tree_All_inorder)
  moreover have "mset (Elem_All (newElem rr)) = {#rr#}" by (simp add: newElem_def Elem_All_def)
  ultimately show ?thesis
    unfolding tree_records_def using mset_ins_list [of Elem_All "newElem rr" rr] mset_Elem_Insert by metis
qed

lemma tree_insert_ok:
  assumes "PrevLabel_ok D" and "zone_ok D z" and "rr_typed r"
  shows "\<exists>t. tree_insert D z r = Some (Inr (z\<lparr>z_Tree := t\<rparr>)) \<and> zone_ok D (z\<lparr>z_Tree := t\<rparr>)
    \<and> mset (tree_records t) = add_mset r (mset (tree_records (z_Tree z)))"
proof -
  have tree: "tree_ok D (z_Tree z)" using assms(2) by (simp add: zone_ok_def)
  obtain t where t: "Tree_Insert D (z_Tree z) r = Some t" "tree_ok D t"
    using Tree_Insert_spec [OF assms(1) tree] by blast
  have records: "mset (tree_records t) = add_mset r (mset (tree_records (z_Tree z)))"
    by (rule tree_records_Insert [OF assms(1) tree t(1)])
  then have "set (tree_records t) = insert r (set (tree_records (z_Tree z)))"
    by (metis set_mset_add_mset_insert set_mset_mset)
  then have "zone_ok D (z\<lparr>z_Tree := t\<rparr>)"
    using t(2) assms(2,3) by (simp add: zone_ok_def)
  moreover have "tree_insert D z r = Some (Inr (z\<lparr>z_Tree := t\<rparr>))"
    using t(1) by (simp add: tree_insert_def)
  ultimately show ?thesis using records by blast
qed

lemma rr_typed_Name [simp]: "rr_typed (rr\<lparr>rr_Name := n\<rparr>) = rr_typed rr"
  by (simp add: rr_typed_def)

text \<open>The types that \<open>Zone_Insert\<close> tells apart are different.\<close>

lemma type_distinct:
  "TypeSOA \<noteq> TypeNS" "TypeRRSIG \<noteq> TypeNS" "TypeCNAME \<noteq> TypeNS" "TypeMX \<noteq> TypeNS" "TypeDNAME \<noteq> TypeNS"
  "TypeSVCB \<noteq> TypeNS" "TypeHTTPS \<noteq> TypeNS" "TypeRRSIG \<noteq> TypeSOA" "TypeCNAME \<noteq> TypeSOA" "TypeMX \<noteq> TypeSOA"
  "TypeSVCB \<noteq> TypeSOA" "TypeHTTPS \<noteq> TypeSOA" "TypeCNAME \<noteq> TypeRRSIG" "TypeMX \<noteq> TypeRRSIG"
  "TypeSVCB \<noteq> TypeRRSIG" "TypeHTTPS \<noteq> TypeRRSIG" "TypeMX \<noteq> TypeCNAME" "TypeSVCB \<noteq> TypeCNAME"
  "TypeHTTPS \<noteq> TypeCNAME" "TypeSVCB \<noteq> TypeMX" "TypeHTTPS \<noteq> TypeMX" "TypeDNAME \<noteq> TypeCNAME"
  "TypeDNAME \<noteq> TypeSOA" "TypeDNAME \<noteq> TypeRRSIG" "TypeDNAME \<noteq> TypeMX" "TypeDNAME \<noteq> TypeSVCB" "TypeDNAME \<noteq> TypeHTTPS"
  by (simp_all add: rr_types)

text \<open>The record that is stored: names in lower case, except those of SRV records.\<close>

definition canonical_rr :: "dnslib \<Rightarrow> RR \<Rightarrow> RR" where
  "canonical_rr D rr =
     (let r = (if rr_Type rr \<noteq> TypeSRV then rr\<lparr>rr_Name := ToLower (canonicalEscape D (rr_Name rr))\<rparr> else rr) in
      r\<lparr>rr_data := (case rr_data r of
          RD_NS n \<Rightarrow> if rr_Type r = TypeNS then RD_NS (ToLower n) else RD_NS n
        | RD_SOA n m a b c d e \<Rightarrow> if rr_Type r = TypeSOA then RD_SOA (ToLower n) (ToLower m) a b c d e else RD_SOA n m a b c d e
        | RD_CNAME n \<Rightarrow> if rr_Type r = TypeCNAME then RD_CNAME (ToLower n) else RD_CNAME n
        | RD_MX p n \<Rightarrow> if rr_Type r = TypeMX then RD_MX p (ToLower n) else RD_MX p n
        | RD_SVCB n \<Rightarrow> if rr_Type r = TypeSVCB \<or> rr_Type r = TypeHTTPS then RD_SVCB (ToLower n) else RD_SVCB n
        | d \<Rightarrow> d)\<rparr>)"

text \<open>All records of a zone but the SOA.\<close>

definition zone_records :: "Zone \<Rightarrow> RR list" where
  "zone_records z = a_SIGSOA (z_Apex z) @ a_NS (z_Apex z) @ a_SIGNS (z_Apex z) @ tree_records (z_Tree z)"

definition inserted :: "dnslib \<Rightarrow> Zone \<Rightarrow> RR \<Rightarrow> Zone \<Rightarrow> bool" where
  "inserted D z r z' \<longleftrightarrow> zone_ok D z' \<and> z_origin z' = z_origin z \<and> z_origLen z' = z_origLen z
     \<and> (if rr_Type r = TypeSOA
        then a_SOA (z_Apex z') = Some (canonical_rr D r) \<and> zone_records z' = zone_records z
        else a_SOA (z_Apex z') = a_SOA (z_Apex z) \<and> mset (zone_records z') = add_mset (canonical_rr D r) (mset (zone_records z)))"

lemma rr_update_id: "rr_data r = d \<Longrightarrow> r\<lparr>rr_data := d\<rparr> = r"
  by auto

lemma canonical_typed: "rr_typed rr \<Longrightarrow> rr_typed (canonical_rr D rr)"
  by (cases "rr_data rr") (simp_all add: rr_typed_def canonical_rr_def Let_def rr_types)

lemma zone_ok_Apex [simp]: "zone_ok D (z\<lparr>z_Apex := ap\<rparr>) = zone_ok D z"
  by (simp add: zone_ok_def)

lemma tree_insert_inserted:
  assumes "PrevLabel_ok D" and "zone_ok D z" and "rr_typed r" and "rr_Type r \<noteq> TypeSOA"
  shows "\<exists>z'. tree_insert D z (canonical_rr D r) = Some (Inr z') \<and> inserted D z r z'"
proof -
  obtain t where t: "tree_insert D z (canonical_rr D r) = Some (Inr (z\<lparr>z_Tree := t\<rparr>))" "zone_ok D (z\<lparr>z_Tree := t\<rparr>)"
    "mset (tree_records t) = add_mset (canonical_rr D r) (mset (tree_records (z_Tree z)))"
    using tree_insert_ok [OF assms(1,2) canonical_typed [OF assms(3), of D]] by blast
  then show ?thesis
    using assms(4) by (intro exI [of _ "z\<lparr>z_Tree := t\<rparr>"]) (simp add: inserted_def zone_records_def)
qed

lemma Zone_Insert_cases:
  assumes "rr_typed r"
  shows "Zone_Insert D z r =
    (let c = canonical_rr D r; ap = z_Apex z; ty = rr_Type r in
     if ty = TypeSOA then Some (Inr (z\<lparr>z_Apex := ap\<lparr>a_SOA := Some c\<rparr>\<rparr>))
     else if ty = TypeNSEC3 \<or> ty = TypeNSEC3PARAM then
       Some (Inl (''NSEC3 zone is not supported, dropping RR: '' @ rr_Name c @ '' for zone: '' @ z_origin z))
     else if ty = TypeNS \<and> rr_Name c = z_origin z then Some (Inr (z\<lparr>z_Apex := ap\<lparr>a_NS := a_NS ap @ [c]\<rparr>\<rparr>))
     else if ty = TypeRRSIG \<and> (\<exists>s a b. rr_data r = RD_RRSIG TypeSOA s a b) then
       Some (Inr (z\<lparr>z_Apex := ap\<lparr>a_SIGSOA := a_SIGSOA ap @ [c]\<rparr>\<rparr>))
     else if ty = TypeRRSIG \<and> (\<exists>s a b. rr_data r = RD_RRSIG TypeNS s a b) \<and> rr_Name c = z_origin z then
       Some (Inr (z\<lparr>z_Apex := ap\<lparr>a_SIGNS := a_SIGNS ap @ [c]\<rparr>\<rparr>))
     else tree_insert D z c)"
  using assms
  by (cases "rr_data r") (auto simp: Zone_Insert_def canonical_rr_def Let_def rr_typed_def rr_types rr_update_id)

lemma Zone_Insert_ok:
  assumes "PrevLabel_ok D" and "zone_ok D z" and "rr_typed r"
  shows "\<exists>res. Zone_Insert D z r = Some res \<and> (\<forall>z'. res = Inr z' \<longrightarrow> inserted D z r z')"
proof -
  note tree = tree_insert_inserted [OF assms]
  show ?thesis
    unfolding Zone_Insert_cases [OF assms(3)] Let_def
    using assms(2) tree
    by (auto simp: inserted_def zone_records_def type_distinct)
qed

section \<open>The labels of a lookup\<close>

text \<open>The names that the loop searches, from the origin to the name itself.\<close>

fun parts_from :: "dnslib \<Rightarrow> Zone \<Rightarrow> string \<Rightarrow> nat \<Rightarrow> nat \<Rightarrow> string list" where
  "parts_from D z qname 0 i = []"
| "parts_from D z qname (Suc k) i =
     (case nameFromRight D z qname i of (parts, shot) \<Rightarrow> if shot then [] else parts # parts_from D z qname k (i + 1))"

definition lookup_parts :: "dnslib \<Rightarrow> Zone \<Rightarrow> string \<Rightarrow> string list" where
  "lookup_parts D z qname = parts_from D z qname (length qname + 2) 0"

definition wild_at :: "dnslib \<Rightarrow> Zone \<Rightarrow> string \<Rightarrow> Elem option \<Rightarrow> Elem option" where
  "wild_at D z p wild =
     (case Tree_Search D (z_Tree z) (replaceWithAsteriskLabel D p) of Some w \<Rightarrow> Some w | None \<Rightarrow> wild)"

definition cut_at :: "Msg \<Rightarrow> string \<Rightarrow> Elem \<Rightarrow> bool" where
  "cut_at r qname e = (Elem_Type e TypeNS \<noteq> [] \<and> \<not> (req_QType r = TypeDS \<and> Elem_Name e = qname))"

definition referral :: "dnslib \<Rightarrow> Zone \<Rightarrow> Msg \<Rightarrow> Elem \<Rightarrow> lookup_answer" where
  "referral D z r e =
     ([], Elem_Type e TypeNS @ (if req_Do D r then typeFromElem e TypeDS True else []),
      Tree_Glue D (z_Tree z) (Elem_Type e TypeNS) (req_Do D r), Delegation)"

text \<open>The loop as a walk along these names.\<close>

fun walk_parts ::
  "dnslib \<Rightarrow> Zone \<Rightarrow> server option \<Rightarrow> nat \<Rightarrow> Msg \<Rightarrow> string \<Rightarrow> string list \<Rightarrow> Elem option \<Rightarrow> Elem option \<Rightarrow> lookup_end option" where
  "walk_parts D z srv loop r qname [] elem wild = Some (Overshot elem wild)"
| "walk_parts D z srv loop r qname (p # ps) elem wild =
     (case Tree_Search D (z_Tree z) p of
        None \<Rightarrow> walk_parts D z srv loop r qname ps None (wild_at D z p wild)
      | Some e \<Rightarrow>
          (case dname_answer D z srv loop r e of
             None \<Rightarrow> None
           | Some (Some ans) \<Rightarrow> Some (Answered ans)
           | Some None \<Rightarrow>
               if cut_at r qname e then Some (Answered (referral D z r e))
               else walk_parts D z srv loop r qname ps (Some e) wild))"

lemma strip_labels_shrinks:
  assumes "PrevLabel_ok D" and "n \<le> length qname"
  shows "strip_labels D qname n j = Some m \<Longrightarrow> m + j \<le> n"
  using assms(2)
proof (induction j arbitrary: n)
  case (Suc j)
  obtain i shot where i: "PrevLabel D (take n qname) 1 = (i, shot)" by (cases "PrevLabel D (take n qname) 1")
  have "\<not> shot" using Suc.prems i by (auto split: if_splits)
  then have "take n qname \<noteq> ''''"
    using assms(1) i unfolding PrevLabel_ok_def by (metis snd_conv)
  then have "i < length (take n qname)"
    using assms(1) i unfolding PrevLabel_ok_def by (metis fst_conv)
  then have "i < n" by simp
  moreover have "m + j \<le> i"
    using Suc \<open>\<not> shot\<close> i \<open>i < n\<close> by auto
  ultimately show ?case by simp
qed simp

lemma nameFromRight_shot:
  assumes "PrevLabel_ok D" and "length qname < i"
  shows "snd (nameFromRight D z qname i)"
  using strip_labels_shrinks [OF assms(1), of "length qname" qname "z_origLen z"]
    strip_labels_shrinks [OF assms(1), of _ qname i] assms(2)
  by (fastforce simp: nameFromRight_def split: option.splits)

lemma lookup_loop_walk:
  assumes "PrevLabel_ok D"
  shows "length qname + 2 \<le> k + i \<Longrightarrow> 0 < k \<Longrightarrow>
    lookup_loop D z srv loop r qname k i elem wild = walk_parts D z srv loop r qname (parts_from D z qname k i) elem wild"
proof (induction k arbitrary: i elem wild)
  case (Suc k)
  obtain p shot where p: "nameFromRight D z qname i = (p, shot)" by (cases "nameFromRight D z qname i")
  show ?case
  proof (cases shot)
    case True
    then show ?thesis using p by simp
  next
    case False
    then have "i \<le> length qname" using nameFromRight_shot [OF assms, of qname i z] p by (auto simp: not_less [symmetric])
    then have "0 < k" "length qname + 2 \<le> k + (i + 1)" using Suc.prems by auto
    then have IH: "lookup_loop D z srv loop r qname k (i + 1) e w
        = walk_parts D z srv loop r qname (parts_from D z qname k (i + 1)) e w" for e w
      using Suc.IH by blast
    show ?thesis
      using p False IH by (simp add: wild_at_def cut_at_def referral_def Let_def split: option.split)
  qed
qed simp

lemma lookup_walk:
  assumes "PrevLabel_ok D"
  shows "lookup_loop D z srv loop r qname (length qname + 2) 0 None None
    = walk_parts D z srv loop r qname (lookup_parts D z qname) None None"
  unfolding lookup_parts_def by (rule lookup_loop_walk [OF assms]) simp_all

definition in_zone :: "dnslib \<Rightarrow> Zone \<Rightarrow> string \<Rightarrow> bool" where
  "in_zone D z qname \<longleftrightarrow> qname = z_origin z
     \<or> (case strip_labels D qname (length qname) (z_origLen z) of Some n \<Rightarrow> n > 0 | None \<Rightarrow> False)"

lemma strip_labels_last:
  "strip_labels D qname n (Suc j) = Option.bind (strip_labels D qname n j) (\<lambda>m. strip_labels D qname m 1)"
proof (induction j arbitrary: n)
  case (Suc j)
  obtain m shot where "PrevLabel D (take n qname) 1 = (m, shot)" by (cases "PrevLabel D (take n qname) 1")
  then show ?case
    by (subst strip_labels.simps(2), subst (2) strip_labels.simps(2)) (simp add: Suc del: strip_labels.simps(2))
qed simp

lemma strip_one:
  assumes "PrevLabel_ok D" and "m \<le> length qname"
  shows "strip_labels D qname m 1 = (if m = 0 then None else Some (fst (PrevLabel D (take m qname) 1)))"
proof (cases "m = 0")
  case True
  then show ?thesis using assms(1) by (simp add: PrevLabel_ok_def)
next
  case False
  then have "take m qname \<noteq> ''''" using assms(2) by auto
  then have "\<not> snd (PrevLabel D (take m qname) 1)" using assms(1) unfolding PrevLabel_ok_def by blast
  with False show ?thesis by (auto split: prod.splits)
qed

lemma nameFromRight_pos:
  "0 < i \<Longrightarrow> strip_labels D qname (length qname) (z_origLen z) = Some n \<Longrightarrow>
   nameFromRight D z qname i = (case strip_labels D qname n i of None \<Rightarrow> (qname, True) | Some m \<Rightarrow> (drop m qname, False))"
  by (simp add: nameFromRight_def)

lemma parts_from_last:
  assumes ok: "PrevLabel_ok D" and n: "strip_labels D qname (length qname) (z_origLen z) = Some n"
    and "0 < i" and "strip_labels D qname n i = Some m" and "length qname + 2 \<le> k + i"
  shows "parts_from D z qname k i \<noteq> [] \<and> last (parts_from D z qname k i) = qname"
  using assms(3-)
proof (induction k arbitrary: i m)
  case 0
  have "n \<le> length qname" using strip_labels_shrinks [OF ok _ n] by simp
  then show ?case using strip_labels_shrinks [OF ok _ 0(2)] 0 by simp
next
  case (Suc k)
  have "n \<le> length qname" using strip_labels_shrinks [OF ok _ n] by simp
  then have m: "m \<le> length qname" using strip_labels_shrinks [OF ok _ Suc.prems(2)] by simp
  have here: "nameFromRight D z qname i = (drop m qname, False)"
    using nameFromRight_pos [OF Suc.prems(1) n] Suc.prems(2) by simp
  have nxt: "strip_labels D qname n (i + 1) = strip_labels D qname m 1"
    using Suc.prems(2) by (simp only: Suc_eq_plus1 [symmetric] strip_labels_last) simp
  show ?case
  proof (cases "m = 0")
    case True
    then have "nameFromRight D z qname (i + 1) = (qname, True)"
      using nameFromRight_pos [OF _ n, of "i + 1"] nxt strip_one [OF ok m] by simp
    then have "parts_from D z qname k (i + 1) = []" by (cases k) auto
    with here True show ?thesis by simp
  next
    case False
    then have "strip_labels D qname n (i + 1) = Some (fst (PrevLabel D (take m qname) 1))"
      using nxt strip_one [OF ok m] by simp
    from Suc.IH [OF _ this] Suc.prems here show ?thesis by simp
  qed
qed

lemma last_lookup_part:
  assumes "PrevLabel_ok D" and "in_zone D z qname"
  shows "lookup_parts D z qname \<noteq> [] \<and> last (lookup_parts D z qname) = qname"
proof -
  have start: "lookup_parts D z qname = z_origin z # parts_from D z qname (length qname + 1) 1"
    by (simp add: lookup_parts_def nameFromRight_def)
  show ?thesis
  proof (cases "strip_labels D qname (length qname) (z_origLen z)")
    case None
    then have "parts_from D z qname (length qname + 1) 1 = []" "qname = z_origin z"
      using assms(2) by (auto simp: nameFromRight_def in_zone_def)
    with start show ?thesis by simp
  next
    case (Some n)
    have n: "n \<le> length qname" using strip_labels_shrinks [OF assms(1) _ Some] by simp
    show ?thesis
    proof (cases "n = 0")
      case True
      then have "parts_from D z qname (length qname + 1) 1 = []" "qname = z_origin z"
        using assms(2) Some strip_one [OF assms(1), of 0 qname] by (auto simp: nameFromRight_def in_zone_def)
      with start show ?thesis by simp
    next
      case False
      then have "strip_labels D qname n 1 = Some (fst (PrevLabel D (take n qname) 1))"
        using strip_one [OF assms(1) n] by simp
      from parts_from_last [OF assms(1) Some _ this, of "length qname + 1"] start show ?thesis by simp
    qed
  qed
qed

lemma Lookup_by_walk:
  assumes "PrevLabel_ok D"
  shows "Lookup D z srv loop r qname =
    (if a_SOA (z_Apex z) = None then Some ([], [], [], ServerFailure)
     else if qname = z_origin z \<and> req_QType r = TypeSOA then
       Some (Apex_soa (z_Apex z) (req_Do D r), Apex_ns (z_Apex z) (req_Do D r), [], Success)
     else if qname = z_origin z \<and> req_QType r = TypeNS then
       Some (Apex_ns (z_Apex z) (req_Do D r), [], Tree_Glue D (z_Tree z) (Apex_ns (z_Apex z) (req_Do D r)) (req_Do D r), Success)
     else if loop > 8 then Some ([], [], [], ServerFailure)
     else case walk_parts D z srv loop r qname (lookup_parts D z qname) None None of
         None \<Rightarrow> None
       | Some (Answered ans) \<Rightarrow> Some ans
       | Some (Overshot (Some elem) wild) \<Rightarrow> lookup_found D z srv loop r elem
       | Some (Overshot None (Some wildElem)) \<Rightarrow> lookup_wild D z srv loop r qname wildElem
       | Some (Overshot None None) \<Rightarrow> Some (lookup_denied D z r qname))"
  unfolding Lookup_def Let_def lookup_walk [OF assms] ..

section \<open>Lookups do not panic\<close>

lemma doLookup_total: "m_Question r \<noteq> [] \<Longrightarrow> \<exists>x. doLookup D srv loop r target qtype = Some x"
  by (cases "m_Question r")
     (auto simp: doLookup_def Upstream_Lookup_def NewWithQuestion_def split: option.splits sum.splits)

lemma typed_target:
  assumes "rrs \<noteq> []" and "\<And>rr. rr \<in> set rrs \<Longrightarrow> rr_typed rr \<and> rr_Type rr = TypeCNAME"
  shows "\<exists>t. cname_target (rrs @ xs) = Some t"
proof -
  obtain rr ys where rrs: "rrs = rr # ys" using assms(1) by (cases rrs) auto
  then obtain t where "rr_data rr = RD_CNAME t" using assms(2) [of rr] by (auto simp: rr_typed_def)
  with rrs show ?thesis by (simp add: cname_target_def)
qed

lemma ext_redo_total:
  assumes "zone_ok D z" and "m_Question r \<noteq> []" and "Tree_Search D (z_Tree z) name = Some elem"
  shows "\<exists>ans. ext_redo D z srv loop r left elem rrs = Some ans"
  using assms(3)
proof (induction left arbitrary: name elem rrs rule: nat_less_induct)
  case (1 left)
  show ?case
  proof (cases "Elem_Type elem TypeCNAME = []")
    case True
    then show ?thesis by (subst ext_redo.simps) (simp add: Let_def)
  next
    case False
    then obtain t where t: "cname_target (Elem_Type elem TypeCNAME) = Some t"
      using typed_target [OF False, of "[]"] Search_typed [OF assms(1) 1(2)] by auto
    show ?thesis
    proof (cases "ask_outside (req_QType r) t (z_origin z) (Tree_Search D (z_Tree z) t)")
      case True
      then show ?thesis
        using False t doLookup_total [OF assms(2), of D srv loop t "req_QType r"]
        by (subst ext_redo.simps) (auto simp: Let_def)
    next
      case ask: False
      then obtain e where e: "Tree_Search D (z_Tree z) t = Some e" by (auto simp: ask_outside_def)
      have "\<exists>ans. ext_redo D z srv loop r k e rrs' = Some ans" if "left = Suc k" for k rrs'
        using 1(1) e that by blast
      then show ?thesis
        using False t ask e by (subst ext_redo.simps) (cases left; simp add: Let_def)
    qed
  qed
qed

lemma externalLookup_total:
  assumes "zone_ok D z" and "m_Question r \<noteq> []" and "\<And>xs. \<exists>t. cname_target (rrs @ xs) = Some t"
  shows "\<exists>ans. externalLookup D z srv loop r elem rrs = Some ans"
proof -
  let ?rrs = "rrs @ (if req_Do D r then SubTypeSignature (Elem_Type elem TypeRRSIG) TypeCNAME else [])"
  obtain t where t: "cname_target ?rrs = Some t" using assms(3) by blast
  show ?thesis
  proof (cases "ask_outside (req_QType r) t (z_origin z) (Tree_Search D (z_Tree z) t)")
    case True
    then show ?thesis
      using t doLookup_total [OF assms(2), of D srv loop t "req_QType r"]
      by (auto simp: externalLookup_def Let_def)
  next
    case False
    then obtain e where "Tree_Search D (z_Tree z) t = Some e" by (auto simp: ask_outside_def)
    with ext_redo_total [OF assms(1,2) this] t False show ?thesis
      by (simp add: externalLookup_def Let_def)
  qed
qed

lemma dname_answer_total:
  assumes "zone_ok D z" and "m_Question r \<noteq> []" and "Tree_Search D (z_Tree z) name = Some e"
  shows "\<exists>ans. dname_answer D z srv loop r e = Some ans"
proof (cases "Elem_Type e TypeDNAME")
  case Nil
  then show ?thesis by (simp add: dname_answer_def Let_def)
next
  case (Cons d ds)
  then have "rr_typed d" "rr_Type d = TypeDNAME" using Search_typed [OF assms(1,3), of d TypeDNAME] by auto
  then obtain target where target: "rr_data d = RD_DNAME target" by (auto simp: rr_typed_def)
  show ?thesis
  proof (cases "synthesizeCNAME D (req_Name D r) d target")
    case None
    then show ?thesis using Cons target by (simp add: dname_answer_def Let_def)
  next
    case (Some c)
    then have "\<exists>t. cname_target ([c] @ xs) = Some t" for xs
      by (auto simp: synthesizeCNAME_def cname_target_def Let_def split: if_splits)
    from externalLookup_total [OF assms(1,2) this, of srv "loop + 1" e]
    show ?thesis using Some Cons target by (auto simp: dname_answer_def Let_def)
  qed
qed

lemma walk_parts_total:
  assumes "zone_ok D z" and "m_Question r \<noteq> []"
  shows "\<exists>x. walk_parts D z srv loop r qname ps elem wild = Some x"
proof (induction ps arbitrary: elem wild)
  case (Cons p ps)
  show ?case
  proof (cases "Tree_Search D (z_Tree z) p")
    case None
    then show ?thesis using Cons.IH by simp
  next
    case (Some e)
    then show ?thesis using Cons.IH dname_answer_total [OF assms Some, of srv loop] by (auto split: option.split)
  qed
qed simp

text \<open>The elements that the walk ends with come from the tree.\<close>

definition from_tree :: "dnslib \<Rightarrow> Zone \<Rightarrow> Elem option \<Rightarrow> bool" where
  "from_tree D z x = (\<forall>e. x = Some e \<longrightarrow> (\<exists>name. Tree_Search D (z_Tree z) name = Some e))"

lemma walk_parts_from_tree:
  assumes "walk_parts D z srv loop r qname ps elem wild = Some (Overshot elem' wild')"
    and "from_tree D z elem" and "from_tree D z wild"
  shows "from_tree D z elem' \<and> from_tree D z wild'"
  using assms
proof (induction ps arbitrary: elem wild)
  case (Cons p ps)
  show ?case
  proof (cases "Tree_Search D (z_Tree z) p")
    case None
    have "from_tree D z (wild_at D z p wild)"
      using Cons.prems(3) by (auto simp: wild_at_def from_tree_def split: option.splits)
    moreover have "from_tree D z None" by (simp add: from_tree_def)
    ultimately show ?thesis using None Cons.IH Cons.prems(1) by simp
  next
    case (Some e)
    then have "walk_parts D z srv loop r qname ps (Some e) wild = Some (Overshot elem' wild')"
      using Cons.prems(1) by (auto split: option.splits if_splits)
    moreover have "from_tree D z (Some e)" using Some by (auto simp: from_tree_def)
    ultimately show ?thesis using Cons.IH Cons.prems(3) by blast
  qed
qed simp

lemma lookup_found_total:
  assumes "zone_ok D z" and "m_Question r \<noteq> []" and "Tree_Search D (z_Tree z) name = Some e"
  shows "\<exists>ans. lookup_found D z srv loop r e = Some ans"
proof (cases "Elem_Type e TypeCNAME = []")
  case True
  then show ?thesis by (simp add: lookup_found_def Let_def)
next
  case False
  then have "\<exists>t. cname_target (Elem_Type e TypeCNAME @ xs) = Some t" for xs
    using typed_target [OF False] Search_typed [OF assms(1,3)] by blast
  from externalLookup_total [OF assms(1,2) this, of srv "loop + 1" e] show ?thesis
    by (auto simp: lookup_found_def Let_def)
qed

lemma lookup_wild_total:
  assumes "zone_ok D z" and "m_Question r \<noteq> []" and "Tree_Search D (z_Tree z) name = Some e"
  shows "\<exists>ans. lookup_wild D z srv loop r qname e = Some ans"
proof (cases "Elem_Type e TypeCNAME = []")
  case True
  then show ?thesis by (simp add: lookup_wild_def TypeForWildcard_def Let_def)
next
  case False
  then have "TypeForWildcard e TypeCNAME qname \<noteq> []" by (simp add: TypeForWildcard_def)
  moreover have "rr_typed rr \<and> rr_Type rr = TypeCNAME" if "rr \<in> set (TypeForWildcard e TypeCNAME qname)" for rr
    using that Search_typed [OF assms(1,3)] by (auto simp: TypeForWildcard_def)
  ultimately have "\<exists>t. cname_target (TypeForWildcard e TypeCNAME qname @ xs) = Some t" for xs
    using typed_target by blast
  from externalLookup_total [OF assms(1,2) this, of srv "loop + 1" e] show ?thesis
    by (auto simp: lookup_wild_def Let_def)
qed

lemma Lookup_total:
  assumes "PrevLabel_ok D" and "zone_ok D z" and "m_Question r \<noteq> []"
  shows "\<exists>ans. Lookup D z srv loop r qname = Some ans"
proof -
  obtain x where x: "walk_parts D z srv loop r qname (lookup_parts D z qname) None None = Some x"
    using walk_parts_total [OF assms(2,3)] by blast
  have from_tree: "from_tree D z elem \<and> from_tree D z wild" if "x = Overshot elem wild" for elem wild
    using walk_parts_from_tree [of D z srv loop r qname _ None None elem wild] x that by (auto simp: from_tree_def)
  obtain a b c d where denied: "lookup_denied D z r qname = (a, b, c, d)" by (cases "lookup_denied D z r qname") auto
  show ?thesis
  proof (cases x)
    case (Answered ans)
    with x show ?thesis by (cases ans) (simp add: Lookup_by_walk [OF assms(1)])
  next
    case (Overshot elem wild)
    with x from_tree [OF Overshot] lookup_found_total [OF assms(2,3)] lookup_wild_total [OF assms(2,3)] show ?thesis
      by (cases elem; cases wild) (auto simp: Lookup_by_walk [OF assms(1)] from_tree_def denied)
  qed
qed

section \<open>Loading\<close>

definition loaded :: "dnslib \<Rightarrow> Zone \<Rightarrow> RR list \<Rightarrow> Zone \<Rightarrow> bool" where
  "loaded D z rrs z' \<longleftrightarrow> zone_ok D z' \<and> z_origin z' = z_origin z
     \<and> mset (zone_records z') = mset (zone_records z) + mset (map (canonical_rr D) (filter (\<lambda>rr. rr_Type rr \<noteq> TypeSOA) rrs))"

lemma loaded_Cons: "inserted D z rr z1 \<Longrightarrow> loaded D z1 rrs z2 \<Longrightarrow> loaded D z (rr # rrs) z2"
  by (auto simp: inserted_def loaded_def split: if_splits)

definition soa_serial :: "RR \<Rightarrow> u32 option" where
  "soa_serial rr = (case rr_data rr of RD_SOA _ _ s _ _ _ _ \<Rightarrow> Some s | _ \<Rightarrow> None)"

lemma soa_serial_typed: "rr_typed rr \<Longrightarrow> soa_serial rr \<noteq> None \<longleftrightarrow> rr_Type rr = TypeSOA"
  by (cases "rr_data rr") (simp_all add: soa_serial_def rr_typed_def)

lemma parse_loop_ok:
  assumes "PrevLabel_ok D" and "zone_ok D z" and "\<forall>rr \<in> set rrs. rr_typed rr" and "seen \<longleftrightarrow> a_SOA (z_Apex z) \<noteq> None"
  shows "\<exists>res. parse_loop D serial rrs seen z = Some res
    \<and> (\<forall>seen' z'. res = Inr (seen', z') \<longrightarrow> loaded D z rrs z' \<and> (seen' \<longleftrightarrow> a_SOA (z_Apex z') \<noteq> None))"
  using assms(2-4)
proof (induction rrs arbitrary: z seen)
  case Nil
  then show ?case by (simp add: loaded_def)
next
  case (Cons rr rrs)
  define first where "first = (\<not> seen \<and> soa_serial rr \<noteq> None)"
  have typed: "rr_typed rr" using Cons.prems(2) by simp
  obtain res where res: "Zone_Insert D z rr = Some res" "\<forall>z'. res = Inr z' \<longrightarrow> inserted D z rr z'"
    using Zone_Insert_ok [OF assms(1) Cons.prems(1) typed] by blast
  have step: "parse_loop D serial (rr # rrs) seen z =
      (if first \<and> serial \<ge> 0 \<and> soa_serial rr = Some (word_of_int serial) then Some (Inl Serial_unchanged)
       else case res of Inl e \<Rightarrow> Some (Inl (Insert_error e)) | Inr z \<Rightarrow> parse_loop D serial rrs (seen \<or> first) z)"
    by (simp only: parse_loop.simps Let_def res(1) first_def soa_serial_def option.case)
  show ?case
  proof (cases res)
    case (Inl e)
    then show ?thesis unfolding step by simp
  next
    case (Inr z1)
    then have ins: "inserted D z rr z1" using res(2) by simp
    have ok1: "zone_ok D z1" using ins by (simp add: inserted_def)
    have seen1: "(seen \<or> first) \<longleftrightarrow> a_SOA (z_Apex z1) \<noteq> None"
      using ins Cons.prems(3) soa_serial_typed [OF typed] unfolding inserted_def first_def
      by (cases "rr_Type rr = TypeSOA"; cases "a_SOA (z_Apex z)") simp_all
    have typed1: "\<forall>rr \<in> set rrs. rr_typed rr" using Cons.prems(2) by simp
    obtain res1 where res1: "parse_loop D serial rrs (seen \<or> first) z1 = Some res1"
      "\<And>seen' z'. res1 = Inr (seen', z') \<Longrightarrow> loaded D z1 rrs z' \<and> (seen' \<longleftrightarrow> a_SOA (z_Apex z') \<noteq> None)"
      using Cons.IH [OF ok1 typed1 seen1] by blast
    have "loaded D z (rr # rrs) z' \<and> (seen' \<longleftrightarrow> a_SOA (z_Apex z') \<noteq> None)" if "res1 = Inr (seen', z')" for seen' z'
      using res1(2) [OF that] loaded_Cons [OF ins] by blast
    with res1(1) show ?thesis unfolding step Inr by simp
  qed
qed

lemma NewZone_ok: "zone_ok D (NewZone D origin file)"
  by (simp add: zone_ok_def NewZone_def new_Tree_ok tree_records_def Tree_All_inorder) (simp add: new_Tree_def)

lemma zone_records_New: "zone_records (NewZone D origin file) = []"
  by (simp add: zone_records_def NewZone_def new_Apex_def tree_records_def Tree_All_inorder new_Tree_def)

lemma Parse_ok:
  assumes "PrevLabel_ok D" and "list_all rr_typed rrs"
  shows "\<exists>res. Parse D (rrs, fails) origin file serial = Some res
    \<and> (\<forall>z. res = Inr z \<longrightarrow> loaded D (NewZone D origin file) rrs z \<and> a_SOA (z_Apex z) \<noteq> None)"
proof -
  let ?z = "NewZone D origin file"
  have new: "a_SOA (z_Apex ?z) = None" by (simp add: NewZone_def new_Apex_def)
  have typed: "\<forall>rr \<in> set rrs. rr_typed rr" using assms(2) by (simp add: list_all_iff)
  obtain res where res: "parse_loop D serial rrs False ?z = Some res"
    "\<And>seen' z'. res = Inr (seen', z') \<Longrightarrow> loaded D ?z rrs z' \<and> (seen' \<longleftrightarrow> a_SOA (z_Apex z') \<noteq> None)"
    using parse_loop_ok [OF assms(1) NewZone_ok typed, where seen = False] new by blast
  show ?thesis
  proof (cases res)
    case (Inl e)
    with res(1) show ?thesis by (simp add: Parse_def)
  next
    case (Inr p)
    obtain seen z where p: "p = (seen, z)" by (cases p)
    with res(2) Inr have "loaded D ?z rrs z" "seen \<longleftrightarrow> a_SOA (z_Apex z) \<noteq> None" by auto
    with res(1) Inr p show ?thesis by (simp add: Parse_def)
  qed
qed

text \<open>C9: Loading a zone keeps every record. Whatever the file holds, \<open>Parse\<close> does not panic; when it gives a zone,
  that zone is well-formed, has an SOA record, and holds exactly the other records of the file,
  in canonical form and with duplicates.\<close>

theorem parse_loads_records:
  assumes "PrevLabel_ok D" and "list_all rr_typed rrs"
  shows "\<exists>res. Parse D (rrs, fails) origin file serial = Some res
    \<and> (case res of
         Inl e \<Rightarrow> True
       | Inr z \<Rightarrow> zone_ok D z \<and> a_SOA (z_Apex z) \<noteq> None \<and> z_origin z = Fqdn D origin
           \<and> mset (zone_records z) = mset (map (canonical_rr D) (filter (\<lambda>rr. rr_Type rr \<noteq> TypeSOA) rrs)))"
proof -
  obtain res where res: "Parse D (rrs, fails) origin file serial = Some res"
    "\<And>z. res = Inr z \<Longrightarrow> loaded D (NewZone D origin file) rrs z \<and> a_SOA (z_Apex z) \<noteq> None"
    using Parse_ok [OF assms] by blast
  have "z_origin (NewZone D origin file) = Fqdn D origin" by (simp add: NewZone_def)
  with res show ?thesis by (cases res) (auto simp: loaded_def zone_records_New)
qed

text \<open>A zone for the witnesses.\<close>

definition ex_rr :: "string \<Rightarrow> u16 \<Rightarrow> rdata \<Rightarrow> RR" where
  "ex_rr name ty d = \<lparr>rr_Name = name, rr_Type = ty, rr_Class = 1, rr_Ttl = 60, rr_data = d\<rparr>"

definition ex_soa :: RR where
  "ex_soa = ex_rr ''ex.'' TypeSOA (RD_SOA ''ns.ex.'' ''h.ex.'' 7 1 1 1 1)"

definition ex_records :: "RR list" where
  "ex_records =
     [ex_soa, ex_rr ''ex.'' TypeNS (RD_NS ''ns.ex.''), ex_rr ''WWW.ex.'' TypeA (RD_A [1, 2, 3, 4]),
      ex_rr ''sub.ex.'' TypeNS (RD_NS ''ns.sub.ex.''), ex_rr ''a.b.ex.'' TypeA (RD_A [5, 6, 7, 8])]"

definition ex_load :: "RR list \<Rightarrow> Zone" where
  "ex_load rrs =
     (case Parse plain_lib (rrs, False) ''ex.'' ''db.ex'' (- 1) of Some (Inr z) \<Rightarrow> z | _ \<Rightarrow> NewZone plain_lib ''ex.'' '''')"

definition ex_query :: "string \<Rightarrow> u16 \<Rightarrow> Msg" where
  "ex_query name ty = new_Msg\<lparr>m_Question := [\<lparr>q_Name = name, q_Type = ty, q_Class = 1\<rparr>]\<rparr>"

lemma ex_typed:
  "rr_typed ex_soa" "rr_typed (ex_rr n TypeNS (RD_NS m))" "rr_typed (ex_rr n TypeA (RD_A a))" "rr_typed (ex_rr n TypeTXT (RD_TXT a'))"
  by (simp_all add: ex_soa_def ex_rr_def rr_typed_def rr_types)

lemma ex_records_typed: "list_all rr_typed ex_records"
  by (simp add: ex_records_def ex_typed)

theorem parse_loads_records_witness:
  "mset (zone_records (ex_load ex_records)) = mset (map (canonical_rr plain_lib) (filter (\<lambda>rr. rr_Type rr \<noteq> TypeSOA) ex_records))
   \<and> zone_ok plain_lib (ex_load ex_records)"
proof -
  obtain res where res: "Parse plain_lib (ex_records, False) ''ex.'' ''db.ex'' (- 1) = Some res"
    "case res of Inl e \<Rightarrow> True
       | Inr z \<Rightarrow> zone_ok plain_lib z \<and> a_SOA (z_Apex z) \<noteq> None \<and> z_origin z = Fqdn plain_lib ''ex.''
           \<and> mset (zone_records z) = mset (map (canonical_rr plain_lib) (filter (\<lambda>rr. rr_Type rr \<noteq> TypeSOA) ex_records))"
    using parse_loads_records [OF plain_PrevLabel_ok ex_records_typed, of False "''ex.''" "''db.ex''" "- 1"] by blast
  have "case Parse plain_lib (ex_records, False) ''ex.'' ''db.ex'' (- 1) of Some (Inr _) \<Rightarrow> True | _ \<Rightarrow> False" by code_simp
  with res show ?thesis by (cases res) (auto simp: ex_load_def)
qed


lemma ex_zone_ok:
  assumes "list_all rr_typed rrs"
  shows "zone_ok plain_lib (ex_load rrs)"
proof -
  obtain res where "Parse plain_lib (rrs, False) ''ex.'' ''db.ex'' (- 1) = Some res"
    "\<And>z. res = Inr z \<Longrightarrow> loaded plain_lib (NewZone plain_lib ''ex.'' ''db.ex'') rrs z"
    using Parse_ok [OF plain_PrevLabel_ok assms] by blast
  then show ?thesis by (cases res) (auto simp: ex_load_def NewZone_ok loaded_def)
qed


section \<open>What a lookup answers\<close>

definition passes :: "dnslib \<Rightarrow> Zone \<Rightarrow> Msg \<Rightarrow> string \<Rightarrow> string \<Rightarrow> bool" where
  "passes D z r qname p =
     (case Tree_Search D (z_Tree z) p of
        None \<Rightarrow> True
      | Some e \<Rightarrow> Elem_Type e TypeDNAME = [] \<and> \<not> cut_at r qname e)"

lemma dname_none: "Elem_Type e TypeDNAME = [] \<Longrightarrow> dname_answer D z srv loop r e = Some None"
  by (simp add: dname_answer_def Let_def)

lemma walk_passing:
  assumes "list_all (passes D z r qname) ps" and "ps \<noteq> []"
  shows "\<exists>wild'. walk_parts D z srv loop r qname (ps @ qs) elem wild
    = walk_parts D z srv loop r qname qs (Tree_Search D (z_Tree z) (last ps)) wild'"
  using assms
proof (induction ps arbitrary: elem wild)
  case (Cons p ps)
  define elem' where "elem' = Tree_Search D (z_Tree z) p"
  define wild1 where "wild1 = (if elem' = None then wild_at D z p wild else wild)"
  have step: "walk_parts D z srv loop r qname ((p # ps) @ qs) elem wild = walk_parts D z srv loop r qname (ps @ qs) elem' wild1"
    using Cons.prems(1) by (cases elem') (auto simp: elem'_def wild1_def passes_def dname_none)
  show ?case
  proof (cases "ps = []")
    case True
    then show ?thesis unfolding step by (auto simp: elem'_def)
  next
    case False
    with Cons show ?thesis unfolding step by simp
  qed
qed simp

lemma Lookup_existing:
  assumes "PrevLabel_ok D" and "a_SOA (z_Apex z) \<noteq> None" and "loop \<le> 8" and "in_zone D z qname"
    and "qname = z_origin z \<longrightarrow> req_QType r \<notin> {TypeSOA, TypeNS}"
    and "Tree_Search D (z_Tree z) qname = Some e"
    and "list_all (passes D z r qname) (lookup_parts D z qname)"
    and "Elem_Type e TypeCNAME = [] \<or> req_QType r = TypeCNAME"
  shows "Lookup D z srv loop r qname =
    (if tree_get D (z_Tree z) qname (req_QType r) = []
     then Some ([], Apex_soa (z_Apex z) (req_Do D r) @ (if req_Do D r then typeFromElem e TypeNSEC True else []), [], NoData)
     else Some (typeFromElem e (req_QType r) (req_Do D r), Apex_ns (z_Apex z) (req_Do D r),
       additionalProcessing D z (tree_get D (z_Tree z) qname (req_QType r)) (req_Do D r), Success))"
proof -
  have last: "lookup_parts D z qname \<noteq> []" "last (lookup_parts D z qname) = qname"
    using last_lookup_part [OF assms(1,4)] by auto
  then obtain wild where "walk_parts D z srv loop r qname (lookup_parts D z qname) None None = Some (Overshot (Some e) wild)"
    using walk_passing [OF assms(7) last(1), of srv loop "[]" None None] assms(6) by auto
  then have "Lookup D z srv loop r qname = lookup_found D z srv loop r e"
    using assms(2,3,5) unfolding Lookup_by_walk [OF assms(1)] by auto
  also have "\<dots> = (if tree_get D (z_Tree z) qname (req_QType r) = []
     then Some ([], Apex_soa (z_Apex z) (req_Do D r) @ (if req_Do D r then typeFromElem e TypeNSEC True else []), [], NoData)
     else Some (typeFromElem e (req_QType r) (req_Do D r), Apex_ns (z_Apex z) (req_Do D r),
       additionalProcessing D z (tree_get D (z_Tree z) qname (req_QType r)) (req_Do D r), Success))"
    using assms(6,8) by (auto simp: lookup_found_def Let_def tree_get_def typeFromElem_def)
  finally show ?thesis .
qed

text \<open>C6: An existing name is answered with its records. When neither a delegation nor a DNAME is met on
  the way from the apex and the name has no CNAME, or the CNAME is asked for, the answer is the list of
  the records of that name and type, followed by their signatures if the client wants them; without
  such records the answer is empty, with the SOA in the authority section.\<close>

theorem lookup_existing_name:
  assumes "PrevLabel_ok D" and "a_SOA (z_Apex z) \<noteq> None" and "loop \<le> 8" and "in_zone D z qname"
    and "qname = z_origin z \<longrightarrow> req_QType r \<notin> {TypeSOA, TypeNS}"
    and "Tree_Search D (z_Tree z) qname = Some e"
    and "list_all (passes D z r qname) (lookup_parts D z qname)"
    and "Elem_Type e TypeCNAME = [] \<or> req_QType r = TypeCNAME"
  shows "Lookup D z srv loop r qname =
    (if tree_get D (z_Tree z) qname (req_QType r) = []
     then Some ([], Apex_soa (z_Apex z) (req_Do D r) @ (if req_Do D r then typeFromElem e TypeNSEC True else []), [], NoData)
     else Some (typeFromElem e (req_QType r) (req_Do D r), Apex_ns (z_Apex z) (req_Do D r),
       additionalProcessing D z (tree_get D (z_Tree z) qname (req_QType r)) (req_Do D r), Success))"
  using assms by (rule Lookup_existing)

theorem lookup_existing_name_witness:
  "\<exists>extra. Lookup plain_lib (ex_load ex_records) None 0 (ex_query ''www.ex.'' TypeA) ''www.ex.''
     = Some ([ex_rr ''www.ex.'' TypeA (RD_A [1, 2, 3, 4])], [ex_rr ''ex.'' TypeNS (RD_NS ''ns.ex.'')], extra, Success)"
proof -
  let ?z = "ex_load ex_records" and ?r = "ex_query ''www.ex.'' TypeA" and ?q = "''www.ex.''"
  let ?e = "newElem (ex_rr ''www.ex.'' TypeA (RD_A [1, 2, 3, 4]))"
  have e: "Tree_Search plain_lib (z_Tree ?z) ?q = Some ?e" by code_simp
  have hyps: "a_SOA (z_Apex ?z) \<noteq> None" "(0 :: nat) \<le> 8" "in_zone plain_lib ?z ?q"
    "?q = z_origin ?z \<longrightarrow> req_QType ?r \<notin> {TypeSOA, TypeNS}"
    "list_all (passes plain_lib ?z ?r ?q) (lookup_parts plain_lib ?z ?q)"
    "Elem_Type ?e TypeCNAME = [] \<or> req_QType ?r = TypeCNAME"
    by code_simp+
  have vals: "tree_get plain_lib (z_Tree ?z) ?q (req_QType ?r) \<noteq> []"
    "typeFromElem ?e (req_QType ?r) (req_Do plain_lib ?r) = [ex_rr ''www.ex.'' TypeA (RD_A [1, 2, 3, 4])]"
    "Apex_ns (z_Apex ?z) (req_Do plain_lib ?r) = [ex_rr ''ex.'' TypeNS (RD_NS ''ns.ex.'')]"
    by code_simp+
  show ?thesis
    unfolding lookup_existing_name [where srv = None, OF plain_PrevLabel_ok hyps(1,2,3,4) e hyps(5,6)] vals(2,3) if_not_P [OF vals(1)]
    by blast
qed

text \<open>C7: Nothing below a delegation is answered with authority. When the first name with NS records on the
  way from the apex to the name asked for is below the apex, the result is a referral: an empty
  answer, the NS records in the authority section, their addresses from the zone as glue.\<close>

theorem lookup_below_cut:
  assumes "PrevLabel_ok D" and "a_SOA (z_Apex z) \<noteq> None" and "loop \<le> 8"
    and "qname = z_origin z \<longrightarrow> req_QType r \<notin> {TypeSOA, TypeNS}"
    and "lookup_parts D z qname = ps @ p # qs" and "list_all (passes D z r qname) ps"
    and "Tree_Search D (z_Tree z) p = Some e" and "Elem_Type e TypeDNAME = []" and "cut_at r qname e"
  shows "Lookup D z srv loop r qname =
    Some ([], Elem_Type e TypeNS @ (if req_Do D r then typeFromElem e TypeDS True else []),
      Tree_Glue D (z_Tree z) (Elem_Type e TypeNS) (req_Do D r), Delegation)"
proof -
  have "walk_parts D z srv loop r qname (p # qs) elem wild = Some (Answered (referral D z r e))" for elem wild
    using assms(7-9) by (simp add: dname_none)
  then have "walk_parts D z srv loop r qname (ps @ p # qs) None None = Some (Answered (referral D z r e))"
    using walk_passing [OF assms(6), of srv loop "p # qs" None None] by (cases "ps = []") auto
  then show ?thesis
    using assms(2-5) unfolding Lookup_by_walk [OF assms(1)] by (auto simp: referral_def)
qed

theorem lookup_below_cut_witness:
  "\<exists>extra. Lookup plain_lib (ex_load ex_records) None 0 (ex_query ''x.y.sub.ex.'' TypeA) ''x.y.sub.ex.''
     = Some ([], [ex_rr ''sub.ex.'' TypeNS (RD_NS ''ns.sub.ex.'')], extra, Delegation)"
proof -
  let ?z = "ex_load ex_records" and ?r = "ex_query ''x.y.sub.ex.'' TypeA" and ?q = "''x.y.sub.ex.''"
  let ?e = "newElem (ex_rr ''sub.ex.'' TypeNS (RD_NS ''ns.sub.ex.''))"
  have hyps: "a_SOA (z_Apex ?z) \<noteq> None" "(0 :: nat) \<le> 8" "?q = z_origin ?z \<longrightarrow> req_QType ?r \<notin> {TypeSOA, TypeNS}"
    "lookup_parts plain_lib ?z ?q = [''ex.''] @ ''sub.ex.'' # [''y.sub.ex.'', ''x.y.sub.ex.'']"
    "list_all (passes plain_lib ?z ?r ?q) [''ex.'']"
    "Tree_Search plain_lib (z_Tree ?z) ''sub.ex.'' = Some ?e" "Elem_Type ?e TypeDNAME = []" "cut_at ?r ?q ?e"
    by code_simp+
  have vals: "Elem_Type ?e TypeNS @ (if req_Do plain_lib ?r then typeFromElem ?e TypeDS True else [])
    = [ex_rr ''sub.ex.'' TypeNS (RD_NS ''ns.sub.ex.'')]" by code_simp
  show ?thesis
    unfolding lookup_below_cut [where srv = None, OF plain_PrevLabel_ok hyps] vals by blast
qed

lemma ext_redo_answer:
  "ext_redo D z srv loop r left elem rrs = Some (answer, ns, extra, result) \<Longrightarrow> rrs \<noteq> [] \<Longrightarrow> answer \<noteq> []"
proof (induction left arbitrary: elem rrs rule: nat_less_induct)
  case (1 left)
  show ?case
    using 1(2,3) 1(1)
    by (subst (asm) ext_redo.simps)
       (fastforce simp: Let_def split: if_splits option.splits prod.splits nat.splits)
qed

lemma externalLookup_answer:
  assumes "externalLookup D z srv loop r elem rrs = Some (answer, ns, extra, result)" and "rrs \<noteq> []"
  shows "answer \<noteq> []"
  using assms ext_redo_answer
  by (fastforce simp: externalLookup_def Let_def split: option.splits prod.splits if_splits)

lemma dname_answer_nonempty:
  "dname_answer D z srv loop r e = Some (Some (answer, ns, extra, result)) \<Longrightarrow> answer \<noteq> []"
  by (auto simp: dname_answer_def typeFromElem_def Let_def split: list.splits rdata.splits option.splits prod.splits)

definition unknown_part :: "dnslib \<Rightarrow> Zone \<Rightarrow> string \<Rightarrow> bool" where
  "unknown_part D z p =
     (Tree_Search D (z_Tree z) p = None \<longrightarrow> Tree_Search D (z_Tree z) (replaceWithAsteriskLabel D p) = None)"

lemma walk_denied:
  assumes "walk_parts D z srv loop r qname ps elem wild = Some (Overshot None None)"
  shows "wild = None \<and> list_all (unknown_part D z) ps \<and> (ps \<noteq> [] \<longrightarrow> Tree_Search D (z_Tree z) (last ps) = None)"
  using assms
proof (induction ps arbitrary: elem wild)
  case (Cons p ps)
  show ?case
  proof (cases "Tree_Search D (z_Tree z) p")
    case None
    then have "walk_parts D z srv loop r qname ps None (wild_at D z p wild) = Some (Overshot None None)"
      using Cons.prems by simp
    from Cons.IH [OF this] None show ?thesis
      by (auto simp: wild_at_def unknown_part_def split: option.splits)
  next
    case (Some e)
    then have "walk_parts D z srv loop r qname ps (Some e) wild = Some (Overshot None None)"
      using Cons.prems by (auto split: option.splits if_splits)
    from Cons.IH [OF this] Some this show ?thesis by (cases ps) (auto simp: unknown_part_def)
  qed
qed simp

lemma walk_answered:
  assumes "walk_parts D z srv loop r qname ps elem wild = Some (Answered (answer, ns, extra, result))"
  shows "answer \<noteq> [] \<or> result = Delegation"
  using assms
  by (induction ps arbitrary: elem wild)
     (auto simp: referral_def split: option.splits if_splits dest: dname_answer_nonempty)

lemma found_not_denied:
  "lookup_found D z srv loop r e = Some (answer, ns, extra, result) \<Longrightarrow> answer \<noteq> [] \<or> result = NoData"
  by (auto simp: lookup_found_def Let_def split: if_splits dest: externalLookup_answer)

lemma wild_not_denied:
  "lookup_wild D z srv loop r qname e = Some (answer, ns, extra, result) \<Longrightarrow> answer \<noteq> [] \<or> result = NoData"
  by (auto simp: lookup_wild_def Let_def split: if_splits dest: externalLookup_answer)



section \<open>Deviations\<close>

text \<open>A zone with no more than its SOA and NS records denies its own apex: a query for any other type at
  the apex finds no element in the tree and ends as a name that does not exist, although the SOA is
  there.\<close>

theorem apex_of_bare_zone_denied:
  "Lookup plain_lib (ex_load [ex_soa, ex_rr ''ex.'' TypeNS (RD_NS ''ns.org.'')]) None 0 (ex_query ''ex.'' TypeA) ''ex.''
     = Some ([], [ex_soa], [], NameError)
   \<and> Lookup plain_lib (ex_load [ex_soa, ex_rr ''ex.'' TypeNS (RD_NS ''ns.org.'')]) None 0 (ex_query ''ex.'' TypeSOA) ''ex.''
     = Some ([ex_soa], [ex_rr ''ex.'' TypeNS (RD_NS ''ns.org.'')], [], Success)"
  by (intro conjI) code_simp+

text \<open>A wildcard covers a name that exists. \<open>b.ex.\<close> has no records of its own, but a record below it, so it
  exists as an empty non-terminal and \<open>*.ex.\<close> does not apply to it or to names below it (RFC 4592,
  section 2.2.2). The lookup answers both from the wildcard.\<close>

theorem wildcard_covers_empty_nonterminal:
  "Lookup plain_lib (ex_load [ex_soa, ex_rr ''a.b.ex.'' TypeA (RD_A [1, 1, 1, 1]), ex_rr ''*.ex.'' TypeTXT (RD_TXT [''w''])]) None 0
     (ex_query ''b.ex.'' TypeTXT) ''b.ex.'' = Some ([ex_rr ''b.ex.'' TypeTXT (RD_TXT [''w''])], [], [], Success)
   \<and> Lookup plain_lib (ex_load [ex_soa, ex_rr ''a.b.ex.'' TypeA (RD_A [1, 1, 1, 1]), ex_rr ''*.ex.'' TypeTXT (RD_TXT [''w''])]) None 0
     (ex_query ''x.b.ex.'' TypeTXT) ''x.b.ex.'' = Some ([ex_rr ''x.b.ex.'' TypeTXT (RD_TXT [''w''])], [], [], Success)"
  by (intro conjI) code_simp+

text \<open>A zone whose SOA serial is zero cannot be loaded. The configuration loads every file with serial 0,
  which \<open>Parse\<close> takes for the serial of a zone that is already there.\<close>

theorem serial_zero_not_loaded:
  "Parse D (soa\<lparr>rr_data := RD_SOA ns mbox 0 refresh retry expire minttl\<rparr> # rrs, fails) origin file 0 = Some (Inl Serial_unchanged)"
  by (simp add: Parse_def Let_def)

end
