(* ===== verification/Zone_Secondary.thy ===== *)
theory Zone_Secondary
  imports Zone_File DNS_Request
begin

text \<open>
  Transfers of zones, \<^verbatim>\<open>plugin/file\<close>: \<^verbatim>\<open>secondary.go\<close>, \<^verbatim>\<open>xfr.go\<close>, \<^verbatim>\<open>notify.go\<close>, \<^verbatim>\<open>reload.go\<close>.

  The network is an argument: what the primaries answer to a query for the SOA and to a request for
  the zone. A zone that is transferred out is the list of the batches that go through the channel. \<open>Update\<close>
  is a step function on ticks of its three timers; each tick carries the network at that moment.

  The properties: serial numbers compare as RFC 1982 says; a transfer that fails leaves the zone as it
  was; a zone that is sent arrives with all its records. The deviations: a transfer that fails midway
  leaves records for the next primary, a zone whose primaries refuse never expires, an expired
  zone stays expired when the serial has not changed, and a zone watched by modification time is
  loaded at every tick.
\<close>

section \<open>Transferring in\<close>

record network =
  n_soa :: "string \<Rightarrow> Msg option"
  n_axfr :: "string \<Rightarrow> RR list option list option"

datatype xfr_error = Setup_failed | Envelope_failed | Record_refused string

text \<open>
  The records of an envelope are inserted until one is refused; those before it stay in \<open>z1\<close>. \<open>None\<close> is a panic.
\<close>

fun insert_all :: "dnslib \<Rightarrow> RR list \<Rightarrow> Zone \<Rightarrow> (Zone \<times> xfr_error option) option" where
  "insert_all D [] z1 = Some (z1, None)"
| "insert_all D (rr # rrs) z1 =
     (case Zone_Insert D z1 rr of
        None \<Rightarrow> None
      | Some (Inl e) \<Rightarrow> Some (z1, Some (Record_refused e))
      | Some (Inr z1) \<Rightarrow> insert_all D rrs z1)"

fun receive :: "dnslib \<Rightarrow> RR list option list \<Rightarrow> Zone \<Rightarrow> (Zone \<times> xfr_error option) option" where
  "receive D [] z1 = Some (z1, None)"
| "receive D (None # envs) z1 = Some (z1, Some Envelope_failed)"
| "receive D (Some rrs # envs) z1 =
     (case insert_all D rrs z1 of
        None \<Rightarrow> None
      | Some (z1, Some e) \<Rightarrow> Some (z1, Some e)
      | Some (z1, None) \<Rightarrow> receive D envs z1)"

text \<open>The loop over the primaries; every one of them adds to the same \<open>z1\<close>.\<close>

fun try_primaries ::
  "dnslib \<Rightarrow> network \<Rightarrow> string list \<Rightarrow> Zone \<Rightarrow> xfr_error option \<Rightarrow> (Zone \<times> xfr_error option) option" where
  "try_primaries D net [] z1 err = Some (z1, err)"
| "try_primaries D net (tr # trs) z1 err =
     (case n_axfr net tr of
        None \<Rightarrow> try_primaries D net trs z1 (Some Setup_failed)
      | Some envs \<Rightarrow>
          (case receive D envs z1 of
             None \<Rightarrow> None
           | Some (z1, Some e) \<Rightarrow> try_primaries D net trs z1 (Some e)
           | Some (z1, None) \<Rightarrow> Some (z1, None)))"

text \<open>The zone after the transfer, its error, and whether secondaries are notified.\<close>

definition TransferIn :: "dnslib \<Rightarrow> network \<Rightarrow> bool \<Rightarrow> Zone \<Rightarrow> (Zone \<times> xfr_error option \<times> bool) option" where
  "TransferIn D net has_xfer z =
     (if z_TransferFrom z = [] then Some (z, None, False)
      else case try_primaries D net (z_TransferFrom z) (CopyWithoutApex D z) None of
          None \<Rightarrow> None
        | Some (z1, Some e) \<Rightarrow> Some (z, Some e, False)
        | Some (z1, None) \<Rightarrow> Some (setData z (z_Apex z1) (z_Tree z1), None, has_xfer))"

section \<open>Serial numbers\<close>

definition MaxSerialIncrement :: u32 where
  "MaxSerialIncrement = 2147483647"

definition less_serial :: "u32 \<Rightarrow> u32 \<Rightarrow> bool" where
  "less_serial a b = (if a < b then b - a \<le> MaxSerialIncrement else a - b > MaxSerialIncrement)"

text \<open>The first SOA record of an answer; \<open>None\<close> is the failed type assertion.\<close>

fun soa_in :: "RR list \<Rightarrow> u32 option option" where
  "soa_in [] = Some None"
| "soa_in (a # as) =
     (if rr_Type a = TypeSOA then (case soa_serial a of Some s \<Rightarrow> Some (Some s) | None \<Rightarrow> None) else soa_in as)"

fun ask_primaries :: "network \<Rightarrow> string list \<Rightarrow> bool \<Rightarrow> (u32 option \<times> bool) option" where
  "ask_primaries net [] err = Some (None, err)"
| "ask_primaries net (tr # trs) err =
     (case n_soa net tr of
        None \<Rightarrow> ask_primaries net trs True
      | Some ret \<Rightarrow>
          if m_Rcode ret \<noteq> RcodeSuccess then ask_primaries net trs False
          else case soa_in (m_Answer ret) of
              None \<Rightarrow> None
            | Some (Some s) \<Rightarrow> Some (Some s, False)
            | Some None \<Rightarrow> ask_primaries net trs False)"

text \<open>Whether to transfer, and whether the check failed.\<close>

definition shouldTransfer :: "network \<Rightarrow> Zone \<Rightarrow> (bool \<times> bool) option" where
  "shouldTransfer net z =
     (case ask_primaries net (z_TransferFrom z) False of
        None \<Rightarrow> None
      | Some (None, err) \<Rightarrow> Some (False, err)
      | Some (Some serial, err) \<Rightarrow>
          (case a_SOA (z_Apex z) of
             None \<Rightarrow> Some (True, err)
           | Some soa \<Rightarrow>
               (case soa_serial soa of None \<Rightarrow> None | Some own \<Rightarrow> Some (less_serial own serial, err))))"

section \<open>Keeping a secondary zone up to date\<close>

record updater =
  u_zone :: Zone
  u_retryActive :: bool
  u_restarts :: nat

datatype tick = Expire_tick | Retry_tick network | Refresh_tick network

text \<open>
  The refresh, retry and expire times of a SOA record. \<^verbatim>\<open>time.NewTicker\<close> panics on an interval that is not
  positive.
\<close>

definition tickers_start :: "RR \<Rightarrow> bool" where
  "tickers_start soa =
     (case rr_data soa of RD_SOA _ _ _ refresh retry expire _ \<Rightarrow> refresh \<noteq> 0 \<and> retry \<noteq> 0 \<and> expire \<noteq> 0 | _ \<Rightarrow> False)"

text \<open>
  A tick of \<^verbatim>\<open>Update\<close>. After a check without error the timers start again, which \<open>u_restarts\<close> counts: the
  code after the label \<^verbatim>\<open>Restart\<close> reads the SOA record and starts them. \<open>None\<close> is a panic.
\<close>

definition update_restart :: "updater \<Rightarrow> Zone \<Rightarrow> updater option" where
  "update_restart u z =
     (case a_SOA (z_Apex z) of
        None \<Rightarrow> None
      | Some soa \<Rightarrow>
          if tickers_start soa then Some \<lparr>u_zone = z, u_retryActive = False, u_restarts = u_restarts u + 1\<rparr> else None)"

definition Update_step :: "dnslib \<Rightarrow> bool \<Rightarrow> tick \<Rightarrow> updater \<Rightarrow> updater option" where
  "Update_step D has_xfer t u =
     (case t of
        Expire_tick \<Rightarrow>
          Some (if \<not> u_retryActive u then u else u\<lparr>u_zone := (u_zone u)\<lparr>z_Expired := True\<rparr>\<rparr>)
      | Retry_tick net \<Rightarrow>
          if \<not> u_retryActive u then Some u
          else (case shouldTransfer net (u_zone u) of
              None \<Rightarrow> None
            | Some (ok, True) \<Rightarrow> Some u
            | Some (False, False) \<Rightarrow> update_restart u (u_zone u)
            | Some (True, False) \<Rightarrow>
                (case TransferIn D net has_xfer (u_zone u) of
                   None \<Rightarrow> None
                 | Some (z, Some e, n) \<Rightarrow> Some u
                 | Some (z, None, n) \<Rightarrow> update_restart u z))
      | Refresh_tick net \<Rightarrow>
          (case shouldTransfer net (u_zone u) of
              None \<Rightarrow> None
            | Some (ok, True) \<Rightarrow> Some (u\<lparr>u_retryActive := True\<rparr>)
            | Some (False, False) \<Rightarrow> update_restart u (u_zone u)
            | Some (True, False) \<Rightarrow>
                (case TransferIn D net has_xfer (u_zone u) of
                   None \<Rightarrow> None
                 | Some (z, Some e, n) \<Rightarrow> Some (u\<lparr>u_retryActive := True\<rparr>)
                 | Some (z, None, n) \<Rightarrow> update_restart u z)))"

fun Update_run :: "dnslib \<Rightarrow> bool \<Rightarrow> tick list \<Rightarrow> updater \<Rightarrow> updater option" where
  "Update_run D has_xfer [] u = Some u"
| "Update_run D has_xfer (t # ts) u = Option.bind (Update_step D has_xfer t u) (Update_run D has_xfer ts)"

section \<open>Transferring out\<close>

text \<open>
  The batches that \<^verbatim>\<open>Zone.Transfer\<close> sends; \<open>None\<close> is its error. \<^verbatim>\<open>Walk\<close> sends one batch for every element.
\<close>

definition Zone_Transfer :: "Zone \<Rightarrow> u32 \<Rightarrow> RR list list option" where
  "Zone_Transfer z serial =
     (case a_SOA (z_Apex z) of
        None \<Rightarrow> None
      | Some soa \<Rightarrow>
          (case Apex_records (z_Apex z) of
             None \<Rightarrow> None
           | Some apex \<Rightarrow>
               Some (if serial \<noteq> 0 \<and> soa_serial soa = Some serial then [[soa]]
                     else fst (Tree_Walk (\<lambda>e _ ch. (ch @ [Elem_All e], None :: unit option)) (z_Tree z) [apex]) @ [[soa]])))"

section \<open>Notifies\<close>

definition isNotify :: "Zone \<Rightarrow> string \<Rightarrow> Msg \<Rightarrow> bool" where
  "isNotify z remote r =
     (m_Opcode r = OpcodeNotify \<and> z_TransferFrom z \<noteq> []
      \<and> list_ex (\<lambda>f. case SplitHostPort f of None \<Rightarrow> False | Some (from, _) \<Rightarrow> from = req_IP remote) (z_TransferFrom z))"

section \<open>Reloading\<close>

text \<open>
  A tick of the timer of \<^verbatim>\<open>Reload\<close>: the modification time of the file and its records, if they can be
  read. The flag tells whether the zone was replaced.
\<close>

definition Reload_tick :: "dnslib \<Rightarrow> time option \<Rightarrow> (RR list \<times> bool) option \<Rightarrow> Zone \<Rightarrow> (Zone \<times> bool) option" where
  "Reload_tick D stat content z =
     (let parse = (\<lambda>serial. case content of
            None \<Rightarrow> Some (z, False)
          | Some f \<Rightarrow>
              (case Parse D f (z_origin z) (z_file z) serial of
                 None \<Rightarrow> None
               | Some (Inl e) \<Rightarrow> Some (z, False)
               | Some (Inr zone) \<Rightarrow> Some (setData z (z_Apex zone) (z_Tree zone), True)))
      in if z_ReloadByMtime z then
           (case stat of
              None \<Rightarrow> Some (z, False)
            | Some mtime \<Rightarrow> if \<not> z_mtime z < mtime then Some (z, False) else parse 0)
         else parse (SOASerialIfDefined z))"

section \<open>Serial arithmetic\<close>

text \<open>C37: Serial numbers compare as RFC 1982 says. With the distance from \<open>a\<close> to \<open>b\<close> taken modulo two to the
  power 32, \<open>a\<close> is less when the distance is positive and below two to the power 31, and not less when it
  is zero or above; at exactly that distance, which the RFC leaves open, the larger number is less.\<close>

theorem less_serial_rfc1982:
  "less_serial a b = (let d = uint (b - a) in if d = 2 ^ 31 then b < a else 0 < d \<and> d < 2 ^ 31)"
proof -
  have range: "0 \<le> uint a" "uint a < 4294967296" "0 \<le> uint b" "uint b < 4294967296"
    using uint_lt2p [of a] uint_lt2p [of b] by simp_all
  have ba: "uint (b - a) = (uint b - uint a) mod 4294967296" by (simp add: uint_word_ariths)
  have ab: "uint (a - b) = (uint a - uint b) mod 4294967296" by (simp add: uint_word_ariths)
  have max: "uint MaxSerialIncrement = 2147483647" by (simp add: MaxSerialIncrement_def)
  show ?thesis
  proof (cases "uint a < uint b")
    case True
    then have "uint (b - a) = uint b - uint a"
      using range unfolding ba by (intro mod_pos_pos_trivial; linarith)
    with True show ?thesis
      by (auto simp: less_serial_def Let_def word_less_alt word_le_def max)
  next
    case False
    then have "uint (a - b) = uint a - uint b"
      using range unfolding ab by (intro mod_pos_pos_trivial; linarith)
    moreover have "uint (b - a) = (if uint a = uint b then 0 else uint b - uint a + 4294967296)"
    proof (cases "uint a = uint b")
      case True
      then show ?thesis unfolding ba by simp
    next
      case ne: False
      have "(uint b - uint a) mod 4294967296 = (uint b - uint a + 4294967296) mod 4294967296" by simp
      also have "\<dots> = uint b - uint a + 4294967296"
        using False range ne by (intro mod_pos_pos_trivial; linarith)
      finally show ?thesis unfolding ba using ne by simp
    qed
    moreover have "0 < uint b - uint a + 4294967296" using range by linarith
    ultimately show ?thesis
      using False by (auto simp: less_serial_def Let_def word_less_alt word_le_def max)
  qed
qed

section \<open>Receiving a zone\<close>

definition storable :: "RR \<Rightarrow> bool" where
  "storable rr \<longleftrightarrow> rr_typed rr \<and> rr_Type rr \<noteq> TypeNSEC3 \<and> rr_Type rr \<noteq> TypeNSEC3PARAM"

lemma Zone_Insert_storable:
  assumes "PrevLabel_ok D" and "zone_ok D z" and "storable r"
  shows "\<exists>z'. Zone_Insert D z r = Some (Inr z') \<and> inserted D z r z'"
proof -
  have typed: "rr_typed r" and no3: "rr_Type r \<noteq> TypeNSEC3" "rr_Type r \<noteq> TypeNSEC3PARAM"
    using assms(3) by (auto simp: storable_def)
  obtain res where res: "Zone_Insert D z r = Some res" "\<And>z'. res = Inr z' \<Longrightarrow> inserted D z r z'"
    using Zone_Insert_ok [OF assms(1,2) typed] by blast
  obtain t where t: "tree_insert D z (canonical_rr D r) = Some (Inr (z\<lparr>z_Tree := t\<rparr>))"
    using tree_insert_ok [OF assms(1,2) canonical_typed [OF typed]] by blast
  have "\<exists>z'. Zone_Insert D z r = Some (Inr z')"
    unfolding Zone_Insert_cases [OF typed] Let_def using no3 t by auto
  with res show ?thesis by auto
qed

definition soa_after :: "dnslib \<Rightarrow> RR list \<Rightarrow> RR option \<Rightarrow> RR option" where
  "soa_after D rrs soa = fold (\<lambda>rr s. if rr_Type rr = TypeSOA then Some (canonical_rr D rr) else s) rrs soa"

definition taken_in :: "dnslib \<Rightarrow> Zone \<Rightarrow> RR list \<Rightarrow> Zone \<Rightarrow> bool" where
  "taken_in D z rrs z' \<longleftrightarrow> loaded D z rrs z' \<and> a_SOA (z_Apex z') = soa_after D rrs (a_SOA (z_Apex z))"

lemma taken_in_Nil: "zone_ok D z \<Longrightarrow> taken_in D z [] z"
  by (simp add: taken_in_def loaded_def soa_after_def)

lemma taken_in_Cons: "inserted D z rr z1 \<Longrightarrow> taken_in D z1 rrs z2 \<Longrightarrow> taken_in D z (rr # rrs) z2"
  using loaded_Cons [of D z rr z1 rrs z2] by (auto simp: taken_in_def soa_after_def inserted_def split: if_splits)

lemma taken_in_append:
  "taken_in D z rrs z1 \<Longrightarrow> taken_in D z1 rrs' z2 \<Longrightarrow> taken_in D z (rrs @ rrs') z2"
  by (simp add: taken_in_def loaded_def soa_after_def)

lemma insert_all_ok:
  assumes "PrevLabel_ok D" and "zone_ok D z" and "list_all storable rrs"
  shows "\<exists>z'. insert_all D rrs z = Some (z', None) \<and> taken_in D z rrs z'"
  using assms(2,3)
proof (induction rrs arbitrary: z)
  case Nil
  then show ?case by (simp add: taken_in_Nil)
next
  case (Cons rr rrs)
  obtain z1 where z1: "Zone_Insert D z rr = Some (Inr z1)" "inserted D z rr z1"
    using Zone_Insert_storable [OF assms(1) Cons.prems(1)] Cons.prems(2) by auto
  then have "zone_ok D z1" by (simp add: inserted_def)
  then obtain z2 where "insert_all D rrs z1 = Some (z2, None)" "taken_in D z1 rrs z2"
    using Cons.IH [of z1] Cons.prems(2) by auto
  with z1 taken_in_Cons show ?case by auto
qed

lemma receive_ok:
  assumes "PrevLabel_ok D" and "zone_ok D z" and "list_all storable (concat batches)"
  shows "\<exists>z'. receive D (map Some batches) z = Some (z', None) \<and> taken_in D z (concat batches) z'"
  using assms(2,3)
proof (induction batches arbitrary: z)
  case Nil
  then show ?case by (simp add: taken_in_Nil)
next
  case (Cons b bs)
  obtain z1 where z1: "insert_all D b z = Some (z1, None)" "taken_in D z b z1"
    using insert_all_ok [OF assms(1) Cons.prems(1), of b] Cons.prems(2) by auto
  then have "zone_ok D z1" by (simp add: taken_in_def loaded_def)
  then obtain z2 where "receive D (map Some bs) z1 = Some (z2, None)" "taken_in D z1 (concat bs) z2"
    using Cons.IH [of z1] Cons.prems(2) by auto
  with z1 taken_in_append show ?case by auto
qed

lemma try_primaries_ok:
  assumes "PrevLabel_ok D" and "zone_ok D z" and "list_all storable (concat batches)"
    and "list_all (\<lambda>tr. n_axfr net tr = None) dead" and "n_axfr net tr = Some (map Some batches)"
  shows "\<exists>z'. try_primaries D net (dead @ tr # rest) z err = Some (z', None) \<and> taken_in D z (concat batches) z'"
  using assms(4)
proof (induction dead arbitrary: err)
  case Nil
  then show ?case using receive_ok [OF assms(1-3)] assms(5) by auto
qed simp

lemma CopyWithoutApex_ok: "zone_ok D (CopyWithoutApex D z)" "zone_records (CopyWithoutApex D z) = []"
  "a_SOA (z_Apex (CopyWithoutApex D z)) = None"
  using NewZone_ok [of D "z_origin z" "z_file z"] zone_records_New [of D "z_origin z" "z_file z"]
  by (simp_all add: CopyWithoutApex_def zone_ok_def zone_records_def) (simp add: NewZone_def new_Apex_def)

lemma TransferIn_ok:
  assumes "PrevLabel_ok D" and "list_all storable (concat batches)"
    and "z_TransferFrom z = dead @ tr # rest"
    and "list_all (\<lambda>tr. n_axfr net tr = None) dead" and "n_axfr net tr = Some (map Some batches)"
  shows "\<exists>z'. TransferIn D net x z = Some (z', None, x) \<and> zone_ok D z' \<and> \<not> z_Expired z' \<and> z_origin z' = z_origin z
    \<and> mset (zone_records z') = mset (map (canonical_rr D) (filter (\<lambda>rr. rr_Type rr \<noteq> TypeSOA) (concat batches)))
    \<and> a_SOA (z_Apex z') = soa_after D (concat batches) None"
proof -
  obtain z1 where z1: "try_primaries D net (z_TransferFrom z) (CopyWithoutApex D z) None = Some (z1, None)"
    "taken_in D (CopyWithoutApex D z) (concat batches) z1"
    using try_primaries_ok [OF assms(1) CopyWithoutApex_ok(1) assms(2,4,5)] assms(3) by metis
  let ?z' = "setData z (z_Apex z1) (z_Tree z1)"
  have "TransferIn D net x z = Some (?z', None, x)"
    using z1(1) assms(3) by (simp add: TransferIn_def)
  moreover have "zone_ok D ?z'" "zone_records ?z' = zone_records z1" "a_SOA (z_Apex ?z') = a_SOA (z_Apex z1)"
    "\<not> z_Expired ?z'" "z_origin ?z' = z_origin z"
    using z1(2) by (simp_all add: setData_def zone_ok_def zone_records_def taken_in_def loaded_def)
  ultimately show ?thesis
    using z1(2) CopyWithoutApex_ok(2,3) [of D z] by (simp add: taken_in_def loaded_def)
qed

section \<open>Sending a zone\<close>

lemma walk_batches:
  "node_walk (\<lambda>e _ ch. (ch @ [Elem_All e], None)) n s = (s @ map Elem_All (inorder n), None)"
  by (induction n arbitrary: s) auto

lemma Zone_Transfer_full:
  assumes "a_SOA (z_Apex z) = Some soa"
  shows "Zone_Transfer z 0 = Some ([[soa] @ a_SIGSOA (z_Apex z) @ a_NS (z_Apex z) @ a_SIGNS (z_Apex z)]
    @ map Elem_All (Tree_All (z_Tree z)) @ [[soa]])"
  using assms by (simp add: Zone_Transfer_def Apex_records_def Tree_Walk_def walk_batches Tree_All_inorder)

lemma concat_Zone_Transfer:
  assumes "a_SOA (z_Apex z) = Some soa"
  shows "\<exists>bs. Zone_Transfer z 0 = Some bs \<and> concat bs = [soa] @ zone_records z @ [soa]"
  unfolding Zone_Transfer_full [OF assms] by (simp add: zone_records_def tree_records_def)

lemma loaded_storable:
  "parse_loop D serial rrs seen z = Some (Inr (seen', z')) \<Longrightarrow> list_all rr_typed rrs \<Longrightarrow> list_all storable rrs"
proof (induction rrs arbitrary: seen z)
  case (Cons rr rrs)
  have typed: "rr_typed rr" using Cons.prems(2) by simp
  obtain z1 seen1 where step: "Zone_Insert D z rr = Some (Inr z1)" "parse_loop D serial rrs seen1 z1 = Some (Inr (seen', z'))"
    using Cons.prems(1) by (auto simp: Let_def split: if_splits option.splits sum.splits)
  have "rr_Type rr \<noteq> TypeNSEC3 \<and> rr_Type rr \<noteq> TypeNSEC3PARAM"
    using step(1) unfolding Zone_Insert_cases [OF typed] Let_def by (auto simp: rr_types split: if_splits)
  with typed Cons.IH [OF step(2)] Cons.prems(2) show ?case by (simp add: storable_def)
qed simp

lemma parse_soa_after:
  assumes "PrevLabel_ok D"
  shows "parse_loop D serial rrs seen z = Some (Inr (seen', z')) \<Longrightarrow> zone_ok D z \<Longrightarrow> list_all rr_typed rrs \<Longrightarrow>
    a_SOA (z_Apex z') = soa_after D rrs (a_SOA (z_Apex z))"
proof (induction rrs arbitrary: seen z)
  case Nil
  then show ?case by (simp add: soa_after_def)
next
  case (Cons rr rrs)
  have typed: "rr_typed rr" using Cons.prems(3) by simp
  obtain z1 seen1 where step: "Zone_Insert D z rr = Some (Inr z1)" "parse_loop D serial rrs seen1 z1 = Some (Inr (seen', z'))"
    using Cons.prems(1) by (auto simp: Let_def split: if_splits option.splits sum.splits)
  have ins: "inserted D z rr z1"
    using Zone_Insert_ok [OF assms Cons.prems(2) typed] step(1) by auto
  have "a_SOA (z_Apex z') = soa_after D rrs (a_SOA (z_Apex z1))"
    using Cons.IH [OF step(2)] ins Cons.prems(3) by (simp add: inserted_def)
  with ins show ?case by (auto simp: soa_after_def inserted_def split: if_splits)
qed

lemma soa_after_in:
  "soa_after D rrs None = Some s \<Longrightarrow> \<exists>rr \<in> set rrs. rr_Type rr = TypeSOA \<and> s = canonical_rr D rr"
proof -
  have "soa_after D rrs x = Some s \<Longrightarrow> x = Some s \<or> (\<exists>rr \<in> set rrs. rr_Type rr = TypeSOA \<and> s = canonical_rr D rr)" for x
    by (induction rrs arbitrary: x) (fastforce simp: soa_after_def split: if_splits)+
  then show "soa_after D rrs None = Some s \<Longrightarrow> \<exists>rr \<in> set rrs. rr_Type rr = TypeSOA \<and> s = canonical_rr D rr" by blast
qed

lemma canonical_Type [simp]: "rr_Type (canonical_rr D rr) = rr_Type rr"
  by (simp add: canonical_rr_def Let_def)

lemma canonical_storable: "storable rr \<Longrightarrow> storable (canonical_rr D rr)"
  by (simp add: storable_def canonical_typed)

lemma Parse_run:
  assumes "Parse D (rrs, False) origin file serial = Some (Inr p)"
  shows "\<exists>seen. parse_loop D serial rrs False (NewZone D origin file) = Some (Inr (seen, p))"
proof (cases "parse_loop D serial rrs False (NewZone D origin file)")
  case None
  then show ?thesis using assms by (simp add: Parse_def)
next
  case (Some res)
  then show ?thesis
  proof (cases res)
    case (Inl e)
    then show ?thesis using assms Some by (simp add: Parse_def)
  next
    case (Inr q)
    then show ?thesis using assms Some by (cases q) (simp add: Parse_def split: if_splits)
  qed
qed

lemma Parse_records:
  assumes "PrevLabel_ok D" and "list_all rr_typed rrs" and "Parse D (rrs, False) origin file serial = Some (Inr p)"
  shows "list_all storable (zone_records p)" and "filter (\<lambda>rr. rr_Type rr \<noteq> TypeSOA) (zone_records p) = zone_records p"
    and "\<exists>soa. a_SOA (z_Apex p) = Some soa \<and> storable soa \<and> rr_Type soa = TypeSOA"
    and "mset (zone_records p) = mset (map (canonical_rr D) (filter (\<lambda>rr. rr_Type rr \<noteq> TypeSOA) rrs))"
proof -
  obtain seen where run: "parse_loop D serial rrs False (NewZone D origin file) = Some (Inr (seen, p))"
    using Parse_run [OF assms(3)] by blast
  have stor: "list_all storable rrs" by (rule loaded_storable [OF run assms(2)])
  have ld: "loaded D (NewZone D origin file) rrs p" "a_SOA (z_Apex p) \<noteq> None"
    using Parse_ok [OF assms(1,2), of False origin "file" serial] unfolding assms(3) by simp_all
  then show mset: "mset (zone_records p) = mset (map (canonical_rr D) (filter (\<lambda>rr. rr_Type rr \<noteq> TypeSOA) rrs))"
    by (simp add: loaded_def zone_records_New)
  then have set: "set (zone_records p) = canonical_rr D ` set (filter (\<lambda>rr. rr_Type rr \<noteq> TypeSOA) rrs)"
    using mset_eq_setD [OF mset] by (simp only: list.set_map)
  have "storable (canonical_rr D rr)" if "rr \<in> set rrs" for rr
    using stor that canonical_storable by (simp add: list_all_iff)
  then show "list_all storable (zone_records p)" unfolding list_all_iff set by auto
  show "filter (\<lambda>rr. rr_Type rr \<noteq> TypeSOA) (zone_records p) = zone_records p"
    unfolding filter_id_conv set by auto
  have "a_SOA (z_Apex p) = soa_after D rrs None"
    using parse_soa_after [OF assms(1) run NewZone_ok assms(2)] by (simp add: NewZone_def new_Apex_def)
  with ld(2) obtain soa where soa: "a_SOA (z_Apex p) = Some soa" "soa_after D rrs None = Some soa" by fastforce
  then obtain rr where rr: "rr \<in> set rrs" "rr_Type rr = TypeSOA" "soa = canonical_rr D rr" using soa_after_in by blast
  then have "storable rr" using stor by (simp add: list_all_iff)
  then have "storable soa" "rr_Type soa = TypeSOA" using rr(2,3) canonical_storable by simp_all
  with soa(1) show "\<exists>soa. a_SOA (z_Apex p) = Some soa \<and> storable soa \<and> rr_Type soa = TypeSOA" by blast
qed

lemma TransferIn_copy:
  assumes "PrevLabel_ok D" and "list_all rr_typed rrs" and "Parse D (rrs, False) origin file serial = Some (Inr p)"
    and "a_SOA (z_Apex p) = Some soa" and "concat batches = [soa] @ zone_records p @ [soa]"
    and "z_TransferFrom z = dead @ tr # rest" and "list_all (\<lambda>tr. n_axfr net tr = None) dead"
    and "n_axfr net tr = Some (map Some batches)"
  shows "\<exists>z'. TransferIn D net x z = Some (z', None, x) \<and> zone_ok D z' \<and> \<not> z_Expired z'
    \<and> mset (zone_records z') = mset (map (canonical_rr D) (zone_records p))
    \<and> a_SOA (z_Apex z') = map_option (canonical_rr D) (a_SOA (z_Apex p))"
proof -
  note p = Parse_records [OF assms(1-3)]
  have soa: "storable soa" "rr_Type soa = TypeSOA" using p(3) assms(4) by auto
  have "list_all storable (concat batches)" using p(1) soa(1) unfolding assms(5) by simp
  then obtain z' where z': "TransferIn D net x z = Some (z', None, x)" "zone_ok D z'" "\<not> z_Expired z'"
    "mset (zone_records z') = mset (map (canonical_rr D) (filter (\<lambda>rr. rr_Type rr \<noteq> TypeSOA) (concat batches)))"
    "a_SOA (z_Apex z') = soa_after D (concat batches) None"
    using TransferIn_ok [OF assms(1) _ assms(6,7,8)] by blast
  have "filter (\<lambda>rr. rr_Type rr \<noteq> TypeSOA) (concat batches) = zone_records p"
    unfolding assms(5) using p(2) soa(2) by simp
  moreover have "soa_after D (concat batches) None = Some (canonical_rr D soa)"
    unfolding assms(5) soa_after_def using soa(2) by simp
  ultimately show ?thesis using z' assms(4) by auto
qed

text \<open>A transferred zone is the zone of the primary. When the primary loaded its zone from a file and the
  secondary transfers it, primaries that cannot be reached aside, the secondary ends with a
  well-formed, unexpired zone that holds the same records, each in canonical form, and the same SOA.\<close>

theorem transfer_copies_zone:
  assumes "PrevLabel_ok D" and "list_all rr_typed rrs" and "Parse D (rrs, False) origin file serial = Some (Inr p)"
    and "Zone_Transfer p 0 = Some batches"
    and "z_TransferFrom z = dead @ tr # rest" and "list_all (\<lambda>tr. n_axfr net tr = None) dead"
    and "n_axfr net tr = Some (map Some batches)"
  shows "\<exists>z'. TransferIn D net x z = Some (z', None, x) \<and> zone_ok D z' \<and> \<not> z_Expired z'
    \<and> mset (zone_records z') = mset (map (canonical_rr D) (zone_records p))
    \<and> a_SOA (z_Apex z') = map_option (canonical_rr D) (a_SOA (z_Apex p))"
proof -
  obtain soa where soa: "a_SOA (z_Apex p) = Some soa" using Parse_records(3) [OF assms(1-3)] by blast
  have "concat batches = [soa] @ zone_records p @ [soa]" using concat_Zone_Transfer [OF soa] assms(4) by auto
  from TransferIn_copy [OF assms(1-3) soa this assms(5-7)] show ?thesis .
qed

lemma ex_parse: "Parse plain_lib (ex_records, False) ''ex.'' ''db.ex'' (- 1) = Some (Inr (ex_load ex_records))"
proof -
  have "case Parse plain_lib (ex_records, False) ''ex.'' ''db.ex'' (- 1) of Some (Inr _) \<Rightarrow> True | _ \<Rightarrow> False" by code_simp
  then show ?thesis by (auto simp: ex_load_def split: option.splits sum.splits)
qed

text \<open>A network in which one primary sends the given envelopes and nobody answers queries.\<close>

definition ex_net :: "string \<Rightarrow> RR list option list \<Rightarrow> network" where
  "ex_net primary envs = \<lparr>n_soa = (\<lambda>_. None), n_axfr = (\<lambda>tr. if tr = primary then Some envs else None)\<rparr>"

definition ex_secondary :: Zone where
  "ex_secondary = (NewZone plain_lib ''ex.'' '''')\<lparr>z_TransferFrom := [''10.0.0.1:53'', ''10.0.0.2:53'']\<rparr>"

theorem transfer_copies_zone_witness:
  "\<exists>batches z'. Zone_Transfer (ex_load ex_records) 0 = Some batches
     \<and> TransferIn plain_lib (ex_net ''10.0.0.2:53'' (map Some batches)) True ex_secondary = Some (z', None, True)
     \<and> zone_ok plain_lib z' \<and> length (zone_records z') = 4"
proof -
  have "Zone_Transfer (ex_load ex_records) 0 \<noteq> None" by code_simp
  then obtain batches where b: "Zone_Transfer (ex_load ex_records) 0 = Some batches" by blast
  have tf: "z_TransferFrom ex_secondary = [''10.0.0.1:53''] @ ''10.0.0.2:53'' # []" by (simp add: ex_secondary_def)
  have dead: "list_all (\<lambda>tr. n_axfr (ex_net ''10.0.0.2:53'' (map Some batches)) tr = None) [''10.0.0.1:53'']"
    and up: "n_axfr (ex_net ''10.0.0.2:53'' (map Some batches)) ''10.0.0.2:53'' = Some (map Some batches)"
    by (simp_all add: ex_net_def)
  obtain z' where z': "TransferIn plain_lib (ex_net ''10.0.0.2:53'' (map Some batches)) True ex_secondary = Some (z', None, True)"
    "zone_ok plain_lib z'" "mset (zone_records z') = mset (map (canonical_rr plain_lib) (zone_records (ex_load ex_records)))"
    using transfer_copies_zone [OF plain_PrevLabel_ok ex_records_typed ex_parse b tf dead up, of True] by blast
  have "length (zone_records (ex_load ex_records)) = 4" by code_simp
  with z'(3) have "length (zone_records z') = 4" by (metis length_map size_mset)
  with b z'(1,2) show ?thesis by blast
qed


section \<open>The update loop\<close>

definition all_records :: "Zone \<Rightarrow> RR set" where
  "all_records z = set_option (a_SOA (z_Apex z)) \<union> set (zone_records z)"

text \<open>The records that the primaries send in an exchange.\<close>

fun env_records :: "RR list option list \<Rightarrow> RR list" where
  "env_records [] = []"
| "env_records (None # envs) = env_records envs"
| "env_records (Some rrs # envs) = rrs @ env_records envs"

definition offered :: "network \<Rightarrow> string list \<Rightarrow> RR set" where
  "offered net trs = (\<Union>tr \<in> set trs. case n_axfr net tr of None \<Rightarrow> {} | Some envs \<Rightarrow> set (env_records envs))"

text \<open>
  What the library promises of the messages it unpacks, and of a transfer that it reports without an error: the
  data of a record fits its type, and there is a SOA record. Beyond that the timers of the SOA records have
  to be positive.
\<close>

definition sent_ok :: "RR \<Rightarrow> bool" where
  "sent_ok rr \<longleftrightarrow> rr_typed rr \<and> (rr_Type rr = TypeSOA \<longrightarrow> tickers_start rr)"

definition net_ok :: "network \<Rightarrow> bool" where
  "net_ok net \<longleftrightarrow>
     (\<forall>tr envs. n_axfr net tr = Some envs \<longrightarrow> (\<forall>rr \<in> set (env_records envs). sent_ok rr)
        \<and> (None \<notin> set envs \<longrightarrow> (\<exists>rr \<in> set (env_records envs). rr_Type rr = TypeSOA)))
     \<and> (\<forall>tr ret. n_soa net tr = Some ret \<longrightarrow> (\<forall>rr \<in> set (m_Answer ret). rr_typed rr))"

definition live_zone :: "dnslib \<Rightarrow> Zone \<Rightarrow> bool" where
  "live_zone D z \<longleftrightarrow> zone_ok D z \<and> (\<exists>soa. a_SOA (z_Apex z) = Some soa \<and> sent_ok soa \<and> rr_Type soa = TypeSOA)"

text \<open>A zone that has grown by some of the records \<open>S\<close>.\<close>

definition grown :: "dnslib \<Rightarrow> RR set \<Rightarrow> Zone \<Rightarrow> Zone \<Rightarrow> bool" where
  "grown D S z z' \<longleftrightarrow> zone_ok D z' \<and> all_records z' \<subseteq> all_records z \<union> canonical_rr D ` S
     \<and> (\<forall>soa. a_SOA (z_Apex z') = Some soa \<longrightarrow> a_SOA (z_Apex z) = Some soa \<or> soa \<in> canonical_rr D ` {rr \<in> S. rr_Type rr = TypeSOA})
     \<and> (a_SOA (z_Apex z) \<noteq> None \<longrightarrow> a_SOA (z_Apex z') \<noteq> None)"

lemma grown_refl: "zone_ok D z \<Longrightarrow> grown D {} z z"
  by (simp add: grown_def)

lemma grown_trans: "grown D S z z1 \<Longrightarrow> grown D T z1 z2 \<Longrightarrow> grown D (S \<union> T) z z2"
  unfolding grown_def by blast

lemma grown_mono: "grown D S z z' \<Longrightarrow> S \<subseteq> T \<Longrightarrow> grown D T z z'"
  unfolding grown_def by blast

lemma inserted_grown:
  assumes "inserted D z r z'"
  shows "grown D {r} z z'" and "rr_Type r = TypeSOA \<Longrightarrow> a_SOA (z_Apex z') \<noteq> None"
proof -
  show "rr_Type r = TypeSOA \<Longrightarrow> a_SOA (z_Apex z') \<noteq> None" using assms by (simp add: inserted_def)
  show "grown D {r} z z'"
  proof (cases "rr_Type r = TypeSOA")
    case True
    then show ?thesis using assms by (auto simp: inserted_def grown_def all_records_def)
  next
    case False
    then have "mset (zone_records z') = mset (canonical_rr D r # zone_records z)" "a_SOA (z_Apex z') = a_SOA (z_Apex z)" "zone_ok D z'"
      using assms by (simp_all add: inserted_def)
    moreover have "set (zone_records z') = insert (canonical_rr D r) (set (zone_records z))"
      using mset_eq_setD [OF calculation(1)] by simp
    ultimately show ?thesis by (simp add: grown_def all_records_def)
  qed
qed

lemma insert_all_safe:
  assumes "PrevLabel_ok D"
  shows "zone_ok D z \<Longrightarrow> \<forall>rr \<in> set rrs. rr_typed rr \<Longrightarrow>
    \<exists>z' e. insert_all D rrs z = Some (z', e) \<and> grown D (set rrs) z z'
      \<and> (e = None \<longrightarrow> (\<exists>rr \<in> set rrs. rr_Type rr = TypeSOA) \<longrightarrow> a_SOA (z_Apex z') \<noteq> None)"
proof (induction rrs arbitrary: z)
  case Nil
  then show ?case by (simp add: grown_refl)
next
  case (Cons rr rrs)
  obtain res where res: "Zone_Insert D z rr = Some res" "\<And>z'. res = Inr z' \<Longrightarrow> inserted D z rr z'"
    using Zone_Insert_ok [OF assms Cons.prems(1), of rr] Cons.prems(2) by auto
  show ?case
  proof (cases res)
    case (Inl e)
    then show ?thesis using res(1) grown_mono [OF grown_refl [OF Cons.prems(1)], of "set (rr # rrs)"] by simp
  next
    case (Inr z1)
    note ins = res(2) [OF Inr]
    have "zone_ok D z1" using ins by (simp add: inserted_def)
    from Cons.IH [OF this] Cons.prems(2) obtain z' e where z': "insert_all D rrs z1 = Some (z', e)" "grown D (set rrs) z1 z'"
      "e = None \<longrightarrow> (\<exists>rr \<in> set rrs. rr_Type rr = TypeSOA) \<longrightarrow> a_SOA (z_Apex z') \<noteq> None" by auto
    have "grown D (set (rr # rrs)) z z'" using grown_trans [OF inserted_grown(1) [OF ins] z'(2)] by simp
    moreover have "a_SOA (z_Apex z') \<noteq> None" if "rr_Type rr = TypeSOA"
      using inserted_grown(2) [OF ins that] z'(2) by (simp add: grown_def)
    ultimately show ?thesis using res(1) Inr z'(1,3) by auto
  qed
qed

lemma receive_safe:
  assumes "PrevLabel_ok D"
  shows "zone_ok D z \<Longrightarrow> \<forall>rr \<in> set (env_records envs). rr_typed rr \<Longrightarrow>
    \<exists>z' e. receive D envs z = Some (z', e) \<and> grown D (set (env_records envs)) z z'
      \<and> (e = None \<longrightarrow> None \<notin> set envs \<and> ((\<exists>rr \<in> set (env_records envs). rr_Type rr = TypeSOA) \<longrightarrow> a_SOA (z_Apex z') \<noteq> None))"
proof (induction envs arbitrary: z)
  case Nil
  then show ?case by (simp add: grown_refl)
next
  case (Cons env envs)
  show ?case
  proof (cases env)
    case None
    then show ?thesis using grown_mono [OF grown_refl [OF Cons.prems(1)]] by simp
  next
    case (Some rrs)
    obtain z1 e where z1: "insert_all D rrs z = Some (z1, e)" "grown D (set rrs) z z1"
      "e = None \<longrightarrow> (\<exists>rr \<in> set rrs. rr_Type rr = TypeSOA) \<longrightarrow> a_SOA (z_Apex z1) \<noteq> None"
      using insert_all_safe [OF assms Cons.prems(1), of rrs] Cons.prems(2) Some by auto
    show ?thesis
    proof (cases e)
      case None
      have "zone_ok D z1" using z1(2) by (simp add: grown_def)
      from Cons.IH [OF this] Cons.prems(2) Some obtain z' e' where z': "receive D envs z1 = Some (z', e')"
        "grown D (set (env_records envs)) z1 z'"
        "e' = None \<longrightarrow> None \<notin> set envs \<and> ((\<exists>rr \<in> set (env_records envs). rr_Type rr = TypeSOA) \<longrightarrow> a_SOA (z_Apex z') \<noteq> None)"
        by auto
      have "a_SOA (z_Apex z') \<noteq> None" if "\<exists>rr \<in> set rrs. rr_Type rr = TypeSOA"
        using z1(3) None that z'(2) by (simp add: grown_def)
      then show ?thesis using z' z1(1) None Some grown_trans [OF z1(2) z'(2)] by auto
    next
      case e: (Some x)
      then show ?thesis using z1(1) Some grown_mono [OF z1(2), of "set (env_records (env # envs))"] by simp
    qed
  qed
qed

lemma try_primaries_safe:
  assumes "PrevLabel_ok D" and "net_ok net"
  shows "zone_ok D z \<Longrightarrow> \<exists>z' e. try_primaries D net trs z err = Some (z', e) \<and> grown D (offered net trs) z z'
      \<and> (trs \<noteq> [] \<longrightarrow> e = None \<longrightarrow> a_SOA (z_Apex z') \<noteq> None)"
proof (induction trs arbitrary: z err)
  case Nil
  then show ?case by (simp add: grown_def)
next
  case (Cons tr trs)
  have sub: "offered net trs \<subseteq> offered net (tr # trs)" by (auto simp: offered_def)
  show ?case
  proof (cases "n_axfr net tr")
    case None
    obtain z' e where "try_primaries D net trs z (Some Setup_failed) = Some (z', e)" "grown D (offered net trs) z z'"
      "trs \<noteq> [] \<longrightarrow> e = None \<longrightarrow> a_SOA (z_Apex z') \<noteq> None" using Cons.IH [OF Cons.prems, of "Some Setup_failed"] by blast
    with None show ?thesis using grown_mono [OF _ sub] by (cases trs) auto
  next
    case (Some envs)
    have ok: "\<forall>rr \<in> set (env_records envs). rr_typed rr" "None \<notin> set envs \<longrightarrow> (\<exists>rr \<in> set (env_records envs). rr_Type rr = TypeSOA)"
      using assms(2) Some by (auto simp: net_ok_def sent_ok_def)
    have envs: "offered net (tr # trs) = set (env_records envs) \<union> offered net trs" using Some by (simp add: offered_def)
    obtain z1 e where z1: "receive D envs z = Some (z1, e)" "grown D (set (env_records envs)) z z1"
      "e = None \<longrightarrow> None \<notin> set envs \<and> ((\<exists>rr \<in> set (env_records envs). rr_Type rr = TypeSOA) \<longrightarrow> a_SOA (z_Apex z1) \<noteq> None)"
      using receive_safe [OF assms(1) Cons.prems ok(1)] by blast
    show ?thesis
    proof (cases e)
      case None
      then show ?thesis using z1 Some ok(2) grown_mono [OF z1(2), of "offered net (tr # trs)"] envs by auto
    next
      case e: (Some x)
      have "zone_ok D z1" using z1(2) by (simp add: grown_def)
      from Cons.IH [OF this, of "Some x"] obtain z' e' where "try_primaries D net trs z1 (Some x) = Some (z', e')"
        "grown D (offered net trs) z1 z'" "trs \<noteq> [] \<longrightarrow> e' = None \<longrightarrow> a_SOA (z_Apex z') \<noteq> None" by blast
      with e z1(1) Some envs grown_trans [OF z1(2)] show ?thesis by (cases trs) auto
    qed
  qed
qed


lemma tickers_start_canonical: "tickers_start (canonical_rr D rr) = tickers_start rr"
  by (cases "rr_data rr") (simp_all add: tickers_start_def canonical_rr_def Let_def)

lemma sent_ok_canonical: "sent_ok rr \<Longrightarrow> sent_ok (canonical_rr D rr)"
  by (simp add: sent_ok_def canonical_typed tickers_start_canonical)

text \<open>A transfer replaces the zone by what was sent, or leaves it as it was.\<close>

lemma TransferIn_safe:
  assumes "PrevLabel_ok D" and "net_ok net"
  shows "\<exists>z' e n. TransferIn D net x z = Some (z', e, n) \<and> z_TransferFrom z' = z_TransferFrom z
    \<and> (z' = z \<or> e = None \<and> live_zone D z' \<and> \<not> z_Expired z' \<and> all_records z' \<subseteq> canonical_rr D ` offered net (z_TransferFrom z))"
proof (cases "z_TransferFrom z = []")
  case True
  then show ?thesis by (auto simp: TransferIn_def)
next
  case False
  obtain z1 e where z1: "try_primaries D net (z_TransferFrom z) (CopyWithoutApex D z) None = Some (z1, e)"
    "grown D (offered net (z_TransferFrom z)) (CopyWithoutApex D z) z1" "e = None \<longrightarrow> a_SOA (z_Apex z1) \<noteq> None"
    using try_primaries_safe [OF assms(1,2) CopyWithoutApex_ok(1), of "z_TransferFrom z"] False by blast
  show ?thesis
  proof (cases e)
    case (Some err)
    then show ?thesis using z1(1) False by (auto simp: TransferIn_def)
  next
    case None
    let ?z' = "setData z (z_Apex z1) (z_Tree z1)"
    have rec: "all_records ?z' = all_records z1" "all_records (CopyWithoutApex D z) = {}"
      using CopyWithoutApex_ok(2,3) [of D z] by (simp_all add: all_records_def setData_def zone_records_def)
    obtain soa where soa: "a_SOA (z_Apex z1) = Some soa" using z1(3) None by auto
    then obtain rr where rr: "rr \<in> offered net (z_TransferFrom z)" "rr_Type rr = TypeSOA" "soa = canonical_rr D rr"
      using z1(2) CopyWithoutApex_ok(3) [of D z] by (auto simp: grown_def)
    then have "sent_ok rr" using assms(2) by (auto simp: offered_def net_ok_def split: option.splits)
    then have "sent_ok soa" "rr_Type soa = TypeSOA" using rr sent_ok_canonical by simp_all
    then have "live_zone D ?z'" using z1(2) soa by (simp add: live_zone_def grown_def setData_def zone_ok_def)
    moreover have "all_records ?z' \<subseteq> canonical_rr D ` offered net (z_TransferFrom z)"
      using z1(2) rec by (simp add: grown_def)
    ultimately show ?thesis using z1(1) None False by (simp add: TransferIn_def) (simp add: setData_def)
  qed
qed

lemma soa_in_typed: "\<forall>rr \<in> set rrs. rr_typed rr \<Longrightarrow> soa_in rrs \<noteq> None"
proof (induction rrs)
  case (Cons a rrs)
  then show ?case using soa_serial_typed [of a] by (cases "soa_serial a") auto
qed simp

lemma ask_primaries_safe:
  assumes "net_ok net"
  shows "ask_primaries net trs err \<noteq> None"
proof (induction trs arbitrary: err)
  case (Cons tr trs)
  show ?case
  proof (cases "n_soa net tr")
    case (Some ret)
    then have "soa_in (m_Answer ret) \<noteq> None" using assms by (intro soa_in_typed) (auto simp: net_ok_def)
    then show ?thesis using Some Cons.IH by (auto split: option.splits)
  qed (simp add: Cons.IH)
qed simp

lemma shouldTransfer_safe:
  assumes "net_ok net" and "\<And>soa. a_SOA (z_Apex z) = Some soa \<Longrightarrow> soa_serial soa \<noteq> None"
  shows "shouldTransfer net z \<noteq> None"
  using assms(2) ask_primaries_safe [OF assms(1), of "z_TransferFrom z" False]
  by (auto simp: shouldTransfer_def split: option.splits)

lemma live_zone_serial: "live_zone D z \<Longrightarrow> a_SOA (z_Apex z) = Some soa \<Longrightarrow> soa_serial soa \<noteq> None"
  using soa_serial_typed by (auto simp: live_zone_def sent_ok_def)

definition tick_ok :: "tick \<Rightarrow> bool" where
  "tick_ok t \<longleftrightarrow> (case t of Expire_tick \<Rightarrow> True | Retry_tick net \<Rightarrow> net_ok net | Refresh_tick net \<Rightarrow> net_ok net)"

definition tick_offer :: "string list \<Rightarrow> tick \<Rightarrow> RR set" where
  "tick_offer trs t = (case t of Expire_tick \<Rightarrow> {} | Retry_tick net \<Rightarrow> offered net trs | Refresh_tick net \<Rightarrow> offered net trs)"

lemma update_restart_live:
  "live_zone D z \<Longrightarrow> update_restart u z = Some \<lparr>u_zone = z, u_retryActive = False, u_restarts = u_restarts u + 1\<rparr>"
  by (auto simp: live_zone_def update_restart_def sent_ok_def)

text \<open>What one tick does to the zone: nothing, expiry, or a transfer.\<close>

definition tick_effect :: "dnslib \<Rightarrow> tick \<Rightarrow> Zone \<Rightarrow> Zone \<Rightarrow> bool" where
  "tick_effect D t z z' \<longleftrightarrow> live_zone D z' \<and> z_TransferFrom z' = z_TransferFrom z
     \<and> (all_records z' = all_records z \<or> all_records z' \<subseteq> canonical_rr D ` tick_offer (z_TransferFrom z) t)"

lemma check_safe:
  assumes "PrevLabel_ok D" and "net_ok net" and "live_zone D z" and "tick_offer (z_TransferFrom z) t = offered net (z_TransferFrom z)"
    and "shouldTransfer net z = Some (True, False)"
  shows "\<exists>z' e n. TransferIn D net x z = Some (z', e, n) \<and> (e = None \<longrightarrow> tick_effect D t z z')"
  using TransferIn_safe [OF assms(1,2), of x z] assms(3,4) by (fastforce simp: tick_effect_def)

lemma Update_step_safe:
  assumes "PrevLabel_ok D" and "tick_ok t" and "live_zone D (u_zone u)"
  shows "\<exists>u'. Update_step D x t u = Some u' \<and> tick_effect D t (u_zone u) (u_zone u')"
proof -
  have same: "tick_effect D t (u_zone u) (u_zone u)" using assms(3) by (simp add: tick_effect_def)
  have check: "\<exists>u'. (case shouldTransfer net (u_zone u) of
              None \<Rightarrow> None
            | Some (ok, True) \<Rightarrow> Some u1
            | Some (False, False) \<Rightarrow> update_restart u (u_zone u)
            | Some (True, False) \<Rightarrow>
                (case TransferIn D net x (u_zone u) of
                   None \<Rightarrow> None
                 | Some (z, Some e, n) \<Rightarrow> Some u1
                 | Some (z, None, n) \<Rightarrow> update_restart u z)) = Some u' \<and> tick_effect D t (u_zone u) (u_zone u')"
    if net: "net_ok net" "tick_offer (z_TransferFrom (u_zone u)) t = offered net (z_TransferFrom (u_zone u))" and u1: "u_zone u1 = u_zone u"
    for net u1
  proof -
    obtain ok err where st: "shouldTransfer net (u_zone u) = Some (ok, err)"
      using shouldTransfer_safe [OF net(1), of "u_zone u"] live_zone_serial [OF assms(3)] by auto
    show ?thesis
    proof (cases "ok \<and> \<not> err")
      case True
      then obtain z' e n where t: "TransferIn D net x (u_zone u) = Some (z', e, n)" "e = None \<longrightarrow> tick_effect D t (u_zone u) z'"
        using check_safe [OF assms(1) net(1) assms(3) net(2), of x] st by auto
      then have "e = None \<Longrightarrow> live_zone D z'" by (simp add: tick_effect_def)
      with t True st same u1 show ?thesis by (cases e) (simp_all add: update_restart_live)
    next
      case False
      then show ?thesis using st same u1 assms(3) by (cases ok; cases err) (simp_all add: update_restart_live)
    qed
  qed
  show ?thesis
  proof (cases t)
    case Expire_tick
    then show ?thesis using assms(3)
      by (auto simp: Update_step_def tick_effect_def live_zone_def all_records_def zone_records_def zone_ok_def)
  next
    case (Retry_tick net)
    then show ?thesis using check [of net u] assms(2) same by (simp add: Update_step_def tick_ok_def tick_offer_def)
  next
    case (Refresh_tick net)
    then show ?thesis using check [of net "u\<lparr>u_retryActive := True\<rparr>"] assms(2) by (simp add: Update_step_def tick_ok_def tick_offer_def)
  qed
qed



section \<open>Catching up\<close>

lemma ask_primaries_live:
  assumes "list_all (\<lambda>tr. n_soa net tr = None) dead" and "n_soa net tr = Some ret" and "m_Rcode ret = RcodeSuccess"
    and "soa_in (m_Answer ret) = Some (Some serial)"
  shows "ask_primaries net (dead @ tr # rest) err = Some (Some serial, False)"
  using assms(1)
proof (induction dead arbitrary: err)
  case Nil
  then show ?case using assms(2-4) by simp
qed simp


text \<open>C24: A secondary catches up. When the primary has loaded a zone with a newer serial, and answers the query for its
  SOA record and the request for the zone, then a refresh, or a retry after a failed refresh, leaves the secondary
  with the records of the primary. Expired or not before, the zone is not expired then, and the
  timers are those of the new SOA record. Primaries earlier in the list may be down.\<close>

theorem secondary_catches_up:
  assumes "PrevLabel_ok D" and "list_all rr_typed rrs" and "Parse D (rrs, False) origin file serial = Some (Inr p)"
    and "a_SOA (z_Apex p) = Some soa" and "soa_serial soa = Some new" and "tickers_start soa"
    and "Zone_Transfer p 0 = Some batches"
    and "z_TransferFrom (u_zone u) = dead @ tr # rest"
    and "list_all (\<lambda>tr. n_soa net tr = None \<and> n_axfr net tr = None) dead"
    and "n_soa net tr = Some ret" and "m_Rcode ret = RcodeSuccess" and "m_Answer ret = [soa]"
    and "n_axfr net tr = Some (map Some batches)"
    and "a_SOA (z_Apex (u_zone u)) = Some own_soa" and "soa_serial own_soa = Some own" and "less_serial own new"
    and "t = Refresh_tick net \<or> t = Retry_tick net \<and> u_retryActive u"
  shows "\<exists>u'. Update_step D x t u = Some u' \<and> \<not> z_Expired (u_zone u') \<and> \<not> u_retryActive u' \<and> u_restarts u' = u_restarts u + 1
    \<and> mset (zone_records (u_zone u')) = mset (map (canonical_rr D) (zone_records p))
    \<and> a_SOA (z_Apex (u_zone u')) = Some (canonical_rr D soa)"
proof -
  note p = Parse_records [OF assms(1-3)]
  have soa: "storable soa" "rr_Type soa = TypeSOA" using p(3) assms(4) by auto
  have bs: "concat batches = [soa] @ zone_records p @ [soa]"
    using concat_Zone_Transfer [OF assms(4)] assms(7) by auto
  have stor: "list_all storable (concat batches)" using p(1) soa(1) unfolding bs by simp
  have dead: "list_all (\<lambda>tr. n_soa net tr = None) dead" "list_all (\<lambda>tr. n_axfr net tr = None) dead"
    using assms(9) by (simp_all add: list_all_iff)
  obtain z' where z': "TransferIn D net x (u_zone u) = Some (z', None, x)" "\<not> z_Expired z'"
    "mset (zone_records z') = mset (map (canonical_rr D) (filter (\<lambda>rr. rr_Type rr \<noteq> TypeSOA) (concat batches)))"
    "a_SOA (z_Apex z') = soa_after D (concat batches) None"
    using TransferIn_ok [OF assms(1) stor assms(8) dead(2) assms(13), of x] by auto
  have recs: "filter (\<lambda>rr. rr_Type rr \<noteq> TypeSOA) (concat batches) = zone_records p"
    unfolding bs using p(2) soa(2) by simp
  have new_soa: "soa_after D (concat batches) None = Some (canonical_rr D soa)"
    unfolding bs soa_after_def using soa(2) by simp
  have "ask_primaries net (z_TransferFrom (u_zone u)) False = Some (Some new, False)"
    unfolding assms(8)
    by (rule ask_primaries_live [OF dead(1) assms(10,11)]) (simp add: assms(5,12) soa(2))
  then have st: "shouldTransfer net (u_zone u) = Some (True, False)"
    using assms(14-16) by (simp add: shouldTransfer_def)
  have "update_restart u z' = Some \<lparr>u_zone = z', u_retryActive = False, u_restarts = u_restarts u + 1\<rparr>"
    using z'(4) new_soa assms(6) by (simp add: update_restart_def tickers_start_canonical)
  with assms(17) st z' recs new_soa show ?thesis by (auto simp: Update_step_def)
qed

definition ex_answer :: "RR list \<Rightarrow> Msg" where
  "ex_answer rrs = new_Msg\<lparr>m_Answer := rrs\<rparr>"

definition ex_soa_serial :: "u32 \<Rightarrow> RR" where
  "ex_soa_serial s = ex_rr ''ex.'' TypeSOA (RD_SOA ''ns.ex.'' ''h.ex.'' s 1 1 1 1)"

definition ex_stale :: "u32 \<Rightarrow> Zone" where
  "ex_stale s = ex_secondary\<lparr>z_Apex := new_Apex\<lparr>a_SOA := Some (ex_soa_serial s)\<rparr>, z_Expired := True\<rparr>"

definition ex_live_net :: "network" where
  "ex_live_net =
     \<lparr>n_soa = (\<lambda>tr. if tr = ''10.0.0.2:53'' then Some (ex_answer [ex_soa]) else None),
      n_axfr = (\<lambda>tr. if tr = ''10.0.0.2:53'' then map_option (map Some) (Zone_Transfer (ex_load ex_records) 0) else None)\<rparr>"

theorem secondary_catches_up_witness:
  "\<exists>u'. Update_step plain_lib True (Retry_tick ex_live_net) \<lparr>u_zone = ex_stale 4294967290, u_retryActive = True, u_restarts = 0\<rparr> = Some u'
     \<and> \<not> z_Expired (u_zone u') \<and> a_SOA (z_Apex (u_zone u')) = Some (canonical_rr plain_lib ex_soa)"
proof -
  let ?u = "\<lparr>u_zone = ex_stale 4294967290, u_retryActive = True, u_restarts = 0\<rparr>"
  have "Zone_Transfer (ex_load ex_records) 0 \<noteq> None" by code_simp
  then obtain batches where b: "Zone_Transfer (ex_load ex_records) 0 = Some batches" by blast
  have soa: "a_SOA (z_Apex (ex_load ex_records)) = Some ex_soa" by code_simp
  have new: "soa_serial ex_soa = Some 7" "tickers_start ex_soa" by code_simp+
  have tf: "z_TransferFrom (u_zone ?u) = [''10.0.0.1:53''] @ ''10.0.0.2:53'' # []" by (simp add: ex_stale_def ex_secondary_def)
  have dead: "list_all (\<lambda>tr. n_soa ex_live_net tr = None \<and> n_axfr ex_live_net tr = None) [''10.0.0.1:53'']"
    by (simp add: ex_live_net_def)
  have up: "n_soa ex_live_net ''10.0.0.2:53'' = Some (ex_answer [ex_soa])" "n_axfr ex_live_net ''10.0.0.2:53'' = Some (map Some batches)"
    "m_Rcode (ex_answer [ex_soa]) = RcodeSuccess" "m_Answer (ex_answer [ex_soa]) = [ex_soa]"
    by (simp_all add: ex_live_net_def b ex_answer_def new_Msg_def RcodeSuccess_def)
  have own: "a_SOA (z_Apex (u_zone ?u)) = Some (ex_soa_serial 4294967290)" "soa_serial (ex_soa_serial 4294967290) = Some 4294967290"
    "less_serial 4294967290 7"
    by (simp add: ex_stale_def, code_simp, code_simp)
  show ?thesis
    using secondary_catches_up [OF plain_PrevLabel_ok ex_records_typed ex_parse soa new b tf dead up(1,3,4,2) own, of "Retry_tick ex_live_net" True]
    by auto
qed



section \<open>Where the update loop falls short\<close>

lemma ask_refusing:
  "list_all (\<lambda>tr. \<exists>ret. n_soa net tr = Some ret \<and> m_Rcode ret \<noteq> RcodeSuccess) trs \<Longrightarrow> ask_primaries net trs False = Some (None, False)"
  by (induction trs) auto

lemma check_without_news:
  assumes "shouldTransfer net (u_zone u) = Some (False, False)" and "live_zone D (u_zone u)"
  shows "Update_step D x (Refresh_tick net) u = Some \<lparr>u_zone = u_zone u, u_retryActive = False, u_restarts = u_restarts u + 1\<rparr>"
  using assms by (simp add: Update_step_def update_restart_live)

text \<open>A zone whose primaries all refuse the query for the SOA record never expires, however long that
  lasts: only an exchange that fails altogether counts as a failed check, and the timers start afresh.\<close>

theorem refused_zone_never_expires:
  assumes "live_zone D (u_zone u)" and "\<not> u_retryActive u" and "\<not> z_Expired (u_zone u)"
    and "\<forall>t \<in> set ts. \<forall>net. t = Refresh_tick net \<or> t = Retry_tick net \<longrightarrow>
           list_all (\<lambda>tr. \<exists>ret. n_soa net tr = Some ret \<and> m_Rcode ret \<noteq> RcodeSuccess) (z_TransferFrom (u_zone u))"
  shows "\<exists>u'. Update_run D x ts u = Some u' \<and> u_zone u' = u_zone u \<and> \<not> u_retryActive u'"
  using assms
proof (induction ts arbitrary: u)
  case (Cons t ts)
  have "\<exists>u1. Update_step D x t u = Some u1 \<and> u_zone u1 = u_zone u \<and> \<not> u_retryActive u1"
  proof (cases t)
    case (Refresh_tick net)
    then have "shouldTransfer net (u_zone u) = Some (False, False)"
      using Cons.prems(4) ask_refusing by (simp add: shouldTransfer_def)
    then show ?thesis using check_without_news Cons.prems(1) Refresh_tick by simp
  qed (simp_all add: Update_step_def Cons.prems(2))
  then obtain u1 where u1: "Update_step D x t u = Some u1" "u_zone u1 = u_zone u" "\<not> u_retryActive u1" by blast
  then show ?case using Cons.IH [of u1] Cons.prems by auto
qed simp

text \<open>An expired zone stays expired when its primaries come back with the serial it has: the check
  succeeds and retrying stops, but only a transfer clears the mark.\<close>

theorem expired_zone_stays_expired:
  assumes "live_zone D (u_zone u)" and "z_Expired (u_zone u)" and "shouldTransfer net (u_zone u) = Some (False, False)"
  shows "\<exists>u'. Update_run D x (replicate (Suc n) (Refresh_tick net)) u = Some u' \<and> z_Expired (u_zone u') \<and> \<not> u_retryActive u'"
proof -
  have "\<exists>u'. Update_run D x (replicate n (Refresh_tick net)) v = Some u' \<and> u_zone u' = u_zone v \<and> \<not> u_retryActive u'"
    if "u_zone v = u_zone u" "\<not> u_retryActive v" for v
    using that
  proof (induction n arbitrary: v)
    case (Suc n)
    then show ?case using check_without_news [of net v D x] assms(1,3) by simp
  qed simp
  from this [of "\<lparr>u_zone = u_zone u, u_retryActive = False, u_restarts = u_restarts u + 1\<rparr>"] show ?thesis
    using check_without_news [OF assms(3,1), of x] assms(2) by auto
qed

text \<open>Records of a transfer that failed midway end up in the zone: the next primary adds to the same new zone.
  Here the first primary sends the address of \<^verbatim>\<open>old.ex.\<close> and then fails, the second sends a zone without it.\<close>

definition ex_two_primaries :: network where
  "ex_two_primaries =
     \<lparr>n_soa = (\<lambda>_. None),
      n_axfr = (\<lambda>tr. if tr = ''10.0.0.1:53'' then Some [Some [ex_soa, ex_rr ''old.ex.'' TypeA (RD_A [1, 2, 3, 4])], None]
         else Some [Some [ex_soa, ex_rr ''ex.'' TypeNS (RD_NS ''ns.ex.''), ex_soa]])\<rparr>"

theorem failed_transfer_leaks_records:
  "case TransferIn plain_lib ex_two_primaries False ex_secondary of
     Some (z, None, _) \<Rightarrow> list_ex (\<lambda>rr. rr_Name rr = ''old.ex.'') (zone_records z)
   | _ \<Rightarrow> False"
  by code_simp

text \<open>A primary whose SOA record has a refresh time of zero stops the secondary: the new timer panics.\<close>

definition ex_zero_refresh :: network where
  "ex_zero_refresh =
     (let soa = ex_rr ''ex.'' TypeSOA (RD_SOA ''ns.ex.'' ''h.ex.'' 8 0 1 1 1)
      in \<lparr>n_soa = (\<lambda>_. Some (ex_answer [soa])), n_axfr = (\<lambda>_. Some [Some [soa, soa]])\<rparr>)"

theorem zero_refresh_panics:
  "Update_step plain_lib False (Refresh_tick ex_zero_refresh) \<lparr>u_zone = ex_stale 7, u_retryActive = False, u_restarts = 0\<rparr> = None"
  by code_simp

section \<open>Reloads\<close>

lemma Reload_parsed:
  assumes "z_ReloadByMtime z \<longrightarrow> (\<exists>m. stat = Some m \<and> z_mtime z < m)"
    and "Parse D f (z_origin z) (z_file z) (if z_ReloadByMtime z then 0 else SOASerialIfDefined z) = Some (Inr zone)"
  shows "Reload_tick D stat (Some f) z = Some (setData z (z_Apex zone) (z_Tree zone), True)"
  using assms by (auto simp: Reload_tick_def Let_def)

text \<open>A reload never damages a zone. Whatever is on disk, a tick of the reload timer does not panic and
  keeps a well-formed zone; if the zone was replaced, its records are exactly those of the file, in canonical form,
  and otherwise it is untouched.\<close>

theorem reload_keeps_zone:
  assumes "PrevLabel_ok D" and "zone_ok D z" and "\<forall>rrs fails. content = Some (rrs, fails) \<longrightarrow> list_all rr_typed rrs"
  shows "\<exists>z' new. Reload_tick D stat content z = Some (z', new) \<and> zone_ok D z' \<and> (\<not> new \<longrightarrow> z' = z)
    \<and> (new \<longrightarrow> (\<exists>rrs. content = Some (rrs, False)
         \<and> mset (zone_records z') = mset (map (canonical_rr D) (filter (\<lambda>rr. rr_Type rr \<noteq> TypeSOA) rrs))))"
proof (cases content)
  case None
  then show ?thesis using assms(2) by (auto simp: Reload_tick_def Let_def split: option.splits)
next
  case (Some f)
  obtain rrs fails where f: "f = (rrs, fails)" by (cases f)
  have typed: "list_all rr_typed rrs" using assms(3) Some f by simp
  let ?s = "if z_ReloadByMtime z then 0 else SOASerialIfDefined z"
  obtain res where res: "Parse D (rrs, fails) (z_origin z) (z_file z) ?s = Some res"
    "\<And>zone. res = Inr zone \<Longrightarrow> loaded D (NewZone D (z_origin z) (z_file z)) rrs zone"
    using Parse_ok [OF assms(1) typed] by blast
  show ?thesis
  proof (cases "(z_ReloadByMtime z \<longrightarrow> (\<exists>m. stat = Some m \<and> z_mtime z < m)) \<and> (\<exists>zone. res = Inr zone)")
    case True
    then obtain zone where zone: "res = Inr zone" "loaded D (NewZone D (z_origin z) (z_file z)) rrs zone" using res(2) by blast
    have "\<not> fails" using res(1) zone(1) by (auto simp: Parse_def split: option.splits sum.splits prod.splits if_splits)
    moreover have "zone_ok D (setData z (z_Apex zone) (z_Tree zone))" "zone_records (setData z (z_Apex zone) (z_Tree zone)) = zone_records zone"
      using zone(2) by (simp_all add: loaded_def setData_def zone_ok_def zone_records_def)
    ultimately show ?thesis
      using Reload_parsed [of z stat D f zone] True res(1) zone Some f by (auto simp: loaded_def zone_records_New)
  next
    case False
    then have "Reload_tick D stat content z = Some (z, False)"
      using res(1) Some f by (cases res; cases "z_ReloadByMtime z"; cases stat) (auto simp: Reload_tick_def Let_def)
    with assms(2) show ?thesis by auto
  qed
qed

theorem reload_keeps_zone_witness:
  "\<exists>z' new. Reload_tick plain_lib None (Some (ex_records, False)) (ex_stale 3) = Some (z', new) \<and> zone_ok plain_lib z'"
proof -
  have "zone_ok plain_lib (ex_stale 3)"
    using NewZone_ok [of plain_lib "''ex.''" "''''"] by (simp add: ex_stale_def ex_secondary_def zone_ok_def)
  then show ?thesis
    using reload_keeps_zone [OF plain_PrevLabel_ok _, of "ex_stale 3" "Some (ex_records, False)" None] ex_records_typed by blast
qed

text \<open>A zone watched by modification time is loaded again at every tick, though the file has not
  changed: the time kept with the zone is never set.\<close>

theorem mtime_reload_repeats:
  assumes "z_ReloadByMtime z" and "z_mtime z < m" and "Parse D f (z_origin z) (z_file z) 0 = Some (Inr zone)"
  shows "\<exists>z'. Reload_tick D (Some m) (Some f) z = Some (z', True) \<and> Reload_tick D (Some m) (Some f) z' = Some (z', True)"
  using assms by (simp add: Reload_tick_def Let_def setData_def)

end
