(* ===== verification/Zone_Plugin.thy ===== *)
theory Zone_Plugin
  imports Zone_Secondary
begin

text \<open>
  The \<^verbatim>\<open>file\<close> plugin, \<^verbatim>\<open>plugin/file/file.go\<close> and the method \<^verbatim>\<open>Transfer\<close> of \<^verbatim>\<open>xfr.go\<close>: the handler that answers
  queries from its zones and takes notifies for secondary zones. The \<^verbatim>\<open>secondary\<close> plugin embeds the
  same handler.

  The handler may change a zone, so it gives the new plugin state besides its answer; \<open>None\<close> is a panic. The
  properties: it answers every message, keeps the protocol of plugins but for the notifies that it drops on
  purpose, and serves exactly the records of the file a zone was loaded from.
\<close>

section \<open>Model\<close>

text \<open>A zone in the map may be nil. \<open>fl_Xfer\<close> tells whether the transfer plugin is there to send notifies.\<close>

record File =
  fl_Next :: "handler option"
  fl_Z :: "(string \<times> Zone option) list"
  fl_Names :: "string list"
  fl_Xfer :: bool
  fl_Fall :: F

definition notify_reply :: "dnslib \<Rightarrow> network \<Rightarrow> string \<Rightarrow> Zone \<Rightarrow> File \<Rightarrow> Msg \<Rightarrow> (answer \<times> File) option" where
  "notify_reply D net zone z f r =
     (let m = (SetReply D r)\<lparr>m_Authoritative := True\<rparr> in
      case shouldTransfer net z of
        None \<Rightarrow> None
      | Some (True, _) \<Rightarrow>
          (case TransferIn D net (fl_Xfer f) z of
             None \<Rightarrow> None
           | Some (z', _, _) \<Rightarrow> Some ((RcodeSuccess, False, [m]), f\<lparr>fl_Z := map_put zone (Some z') (fl_Z f)\<rparr>))
      | Some (False, _) \<Rightarrow> Some ((RcodeSuccess, False, [m]), f))"

definition lookup_reply :: "dnslib \<Rightarrow> Msg \<Rightarrow> lookup_answer \<Rightarrow> answer" where
  "lookup_reply D r a =
     (case a of
        (answer, ns, extra, result) \<Rightarrow>
          let m = (SetReply D r)\<lparr>m_Authoritative := True, m_Answer := answer, m_Ns := ns, m_Extra := extra\<rparr> in
          case result of
            Success \<Rightarrow> (RcodeSuccess, False, [m])
          | NoData \<Rightarrow> (RcodeSuccess, False, [m])
          | NameError \<Rightarrow> (RcodeSuccess, False, [m\<lparr>m_Rcode := RcodeNameError\<rparr>])
          | Delegation \<Rightarrow> (RcodeSuccess, False, [m\<lparr>m_Authoritative := False\<rparr>])
          | ServerFailure \<Rightarrow>
              if length answer = 0 then (RcodeServerFailure, False, [])
              else (RcodeSuccess, False, [m\<lparr>m_Rcode := RcodeServerFailure\<rparr>]))"

text \<open>The rest of \<^verbatim>\<open>ServeDNS\<close>, once the zone is found.\<close>

definition serve_zone ::
  "dnslib \<Rightarrow> server option \<Rightarrow> nat \<Rightarrow> network \<Rightarrow> string \<Rightarrow> string \<Rightarrow> Zone \<Rightarrow> File \<Rightarrow> Msg \<Rightarrow> (answer \<times> File) option" where
  "serve_zone D srv loop net remote zone z f r =
     (let qname = req_Name D r in
      if req_QType r = TypeAXFR \<or> req_QType r = TypeIXFR then Some ((RcodeRefused, False, []), f)
      else if m_Opcode r = OpcodeNotify then
        (if isNotify z remote r then notify_reply D net zone z f r
         else Some ((RcodeSuccess, False, []), f))
      else if z_Expired z then Some ((RcodeServerFailure, False, []), f)
      else
        (case Lookup D z srv loop r qname of
           None \<Rightarrow> None
         | Some (answer, ns, extra, result) \<Rightarrow>
             if length answer = 0 \<and> (result = NameError \<or> result = Success) \<and> Through D (fl_Fall f) qname
             then map_option (\<lambda>a. (a, f)) (NextOrFailure (fl_Next f) r)
             else Some (lookup_reply D r (answer, ns, extra, result), f)))"

definition File_ServeDNS ::
  "dnslib \<Rightarrow> server option \<Rightarrow> nat \<Rightarrow> network \<Rightarrow> string \<Rightarrow> File \<Rightarrow> Msg \<Rightarrow> (answer \<times> File) option" where
  "File_ServeDNS D srv loop net remote f r =
     (let zone = Zones_Matches D (fl_Names f) (req_Name D r) in
      if zone = '''' then
        (if fl_Next f = None then Some ((RcodeRefused, False, []), f) else map_option (\<lambda>a. (a, f)) (NextOrFailure (fl_Next f) r))
      else
        (case map_of (fl_Z f) zone of
           None \<Rightarrow> Some ((RcodeServerFailure, False, []), f)
         | Some None \<Rightarrow> Some ((RcodeServerFailure, False, []), f)
         | Some (Some z) \<Rightarrow> serve_zone D srv loop net remote zone z f r))"

text \<open>What a \<^verbatim>\<open>Transferer\<close> returns: that it is not authoritative, another error, or a channel of batches.\<close>

datatype transferred = Not_authoritative | Transfer_error | Batches "RR list list"

definition File_Transfer :: "File \<Rightarrow> string \<Rightarrow> u32 \<Rightarrow> transferred" where
  "File_Transfer f zone serial =
     (case map_of (fl_Z f) zone of
        Some (Some z) \<Rightarrow> (case Zone_Transfer z serial of Some bs \<Rightarrow> Batches bs | None \<Rightarrow> Transfer_error)
      | _ \<Rightarrow> Not_authoritative)"

section \<open>The protocol\<close>

text \<open>All zones are well-formed, and a SOA record holds the data of one.\<close>

definition file_ok :: "dnslib \<Rightarrow> File \<Rightarrow> bool" where
  "file_ok D f \<longleftrightarrow> map_ok (fl_Z f)
     \<and> (\<forall>zone z. map_of (fl_Z f) zone = Some (Some z) \<longrightarrow> zone_ok D z \<and> (\<forall>soa. a_SOA (z_Apex z) = Some soa \<longrightarrow> soa_serial soa \<noteq> None))"

lemma lookup_reply_protocol:
  assumes "SetReply_ok D"
  shows "obeys_protocol r (Some (lookup_reply D r a))"
  by (cases a) (auto simp: lookup_reply_def Let_def intro!: obeys_written obeys_left reply_to_SetReply [OF assms] split: Result.split)

lemma notify_reply_safe:
  assumes "PrevLabel_ok D" and "SetReply_ok D" and "net_ok net" and "file_ok D f" and "map_of (fl_Z f) zone = Some (Some z)"
  shows "\<exists>a f'. notify_reply D net zone z f r = Some (a, f') \<and> file_ok D f' \<and> obeys_protocol r (Some a)"
proof -
  have serial: "\<And>soa. a_SOA (z_Apex z) = Some soa \<Longrightarrow> soa_serial soa \<noteq> None" using assms(4,5) by (auto simp: file_ok_def)
  obtain ok err where st: "shouldTransfer net z = Some (ok, err)" using shouldTransfer_safe [OF assms(3), of z] serial by auto
  obtain z' e n where t: "TransferIn D net (fl_Xfer f) z = Some (z', e, n)" "z' = z \<or> live_zone D z'"
    using TransferIn_safe [OF assms(1,3), of "fl_Xfer f" z] by blast
  have "zone_ok D z' \<and> (\<forall>soa. a_SOA (z_Apex z') = Some soa \<longrightarrow> soa_serial soa \<noteq> None)"
    using t(2) assms(4,5) live_zone_serial by (auto simp: file_ok_def live_zone_def)
  then have f': "file_ok D (f\<lparr>fl_Z := map_put zone (Some z') (fl_Z f)\<rparr>)"
    using assms(4) by (simp add: file_ok_def gm.get_put gm.ok_put)
  have "obeys_protocol r (Some (RcodeSuccess, False, [(SetReply D r)\<lparr>m_Authoritative := True\<rparr>]))"
    by (intro obeys_written reply_to_SetReply [OF assms(2)]) simp_all
  with st t(1) assms(4) f' show ?thesis by (cases ok) (simp_all only: notify_reply_def Let_def option.case prod.case bool.case, blast+)
qed

lemma serve_zone_safe:
  assumes "PrevLabel_ok D" and "SetReply_ok D" and "net_ok net" and "file_ok D f" and "m_Question r \<noteq> []"
    and "map_of (fl_Z f) zone = Some (Some z)" and "obeys_protocol r (NextOrFailure (fl_Next f) r)"
  shows "\<exists>a f'. serve_zone D srv loop net remote zone z f r = Some (a, f') \<and> file_ok D f'
    \<and> (obeys_protocol r (Some a) \<or> m_Opcode r = OpcodeNotify \<and> a = (RcodeSuccess, False, []))"
proof -
  have "zone_ok D z" using assms(4,6) by (simp add: file_ok_def)
  then obtain answer ns extra result where a: "Lookup D z srv loop r (req_Name D r) = Some (answer, ns, extra, result)"
    using Lookup_total [OF assms(1) _ assms(5)] by (metis prod_cases4)
  have fail: "obeys_protocol r (Some (RcodeServerFailure, False, []))" "obeys_protocol r (Some (RcodeRefused, False, []))"
    by (simp_all add: obeys_left)
  obtain n f' where n: "notify_reply D net zone z f r = Some (n, f')" "file_ok D f'" "obeys_protocol r (Some n)"
    using notify_reply_safe [OF assms(1-4,6), of r] by blast
  obtain nx where nx: "NextOrFailure (fl_Next f) r = Some nx" using assms(7) by (auto simp: obeys_protocol_def)
  have "serve_zone D srv loop net remote zone z f r = Some ((RcodeSuccess, False, []), f) \<and> m_Opcode r = OpcodeNotify
    \<or> serve_zone D srv loop net remote zone z f r \<in> {Some ((RcodeRefused, False, []), f), Some ((RcodeServerFailure, False, []), f),
        Some (nx, f), Some (lookup_reply D r (answer, ns, extra, result), f), Some (n, f')}"
    unfolding serve_zone_def Let_def a n(1) nx by simp
  then show ?thesis using n(2,3) assms(4,7) nx fail lookup_reply_protocol [OF assms(2), of r "(answer, ns, extra, result)"]
    by (elim disjE insertE emptyE) simp_all
qed

lemma File_protocol:
  assumes "PrevLabel_ok D" and "SetReply_ok D" and "net_ok net" and "file_ok D f" and "m_Question r \<noteq> []"
    and "\<And>h. fl_Next f = Some h \<Longrightarrow> obeys_protocol r (h r)"
  shows "\<exists>a f'. File_ServeDNS D srv loop net remote f r = Some (a, f') \<and> file_ok D f'
    \<and> (obeys_protocol r (Some a) \<or> m_Opcode r = OpcodeNotify \<and> a = (RcodeSuccess, False, []))"
proof -
  let ?zone = "Zones_Matches D (fl_Names f) (req_Name D r)"
  have nxt: "obeys_protocol r (NextOrFailure (fl_Next f) r)" using assms(6) by (rule NextOrFailure_protocol)
  then obtain nx where nx: "NextOrFailure (fl_Next f) r = Some nx" by (auto simp: obeys_protocol_def)
  have fail: "obeys_protocol r (Some (RcodeServerFailure, False, []))" "obeys_protocol r (Some (RcodeRefused, False, []))"
    by (simp_all add: obeys_left)
  have "File_ServeDNS D srv loop net remote f r \<in>
      {Some ((RcodeRefused, False, []), f), Some (nx, f), Some ((RcodeServerFailure, False, []), f)}
      \<or> (\<exists>z. map_of (fl_Z f) ?zone = Some (Some z) \<and> File_ServeDNS D srv loop net remote f r = serve_zone D srv loop net remote ?zone z f r)"
    unfolding File_ServeDNS_def Let_def nx by (simp split: option.split)
  then show ?thesis
  proof (elim disjE exE conjE)
    fix z assume z: "map_of (fl_Z f) ?zone = Some (Some z)"
      and run: "File_ServeDNS D srv loop net remote f r = serve_zone D srv loop net remote ?zone z f r"
    show ?thesis unfolding run by (rule serve_zone_safe [OF assms(1-5) z nxt])
  qed (use nxt [unfolded nx] fail assms(4) in blast)
qed

interpretation file_link: plugin_link
  "\<lambda>(D, srv, loop, net, remote, f) nxt r. map_option fst (File_ServeDNS D srv loop net remote (f\<lparr>fl_Next := nxt\<rparr>) r)"
  "\<lambda>(D, srv, loop, net, remote, f). PrevLabel_ok D \<and> SetReply_ok D \<and> net_ok net \<and> file_ok D f"
proof (unfold_locales, clarsimp)
  fix D srv loop net remote f r nxt
  assume ok: "PrevLabel_ok D" "SetReply_ok D" "net_ok net" "file_ok D f" and q: "is_query r"
    and nxt: "\<And>h r'. nxt = Some h \<Longrightarrow> is_query r' \<Longrightarrow> obeys_protocol r' (h r')"
  have "file_ok D (f\<lparr>fl_Next := nxt\<rparr>)" using ok(4) by (simp add: file_ok_def)
  then obtain a f' where "File_ServeDNS D srv loop net remote (f\<lparr>fl_Next := nxt\<rparr>) r = Some (a, f')" "obeys_protocol r (Some a)"
    using File_protocol [OF ok(1-3), of "f\<lparr>fl_Next := nxt\<rparr>" r srv loop remote] q nxt by (auto simp: is_query_def)
  then show "obeys_protocol r (map_option fst (File_ServeDNS D srv loop net remote (f\<lparr>fl_Next := nxt\<rparr>) r))" by simp
qed

text \<open>The file plugin answers every message. With well-formed zones it does not panic, its zones stay
  well-formed, and it writes a response exactly when its return code says so, provided that
  the plugins behind it do. The only exception is a notify from a host that is not a primary of the zone: it is
  dropped, with a return code that keeps the server from answering.\<close>

theorem file_plugin_keeps_protocol:
  assumes "PrevLabel_ok D" and "SetReply_ok D" and "net_ok net" and "file_ok D f" and "m_Question r \<noteq> []"
    and "\<And>h. fl_Next f = Some h \<Longrightarrow> obeys_protocol r (h r)"
  shows "\<exists>a f'. File_ServeDNS D srv loop net remote f r = Some (a, f') \<and> file_ok D f'
    \<and> (obeys_protocol r (Some a) \<or> m_Opcode r = OpcodeNotify \<and> a = (RcodeSuccess, False, []))"
  using assms by (rule File_protocol)

section \<open>From the file to the answer\<close>

lemma filter_by_key:
  assumes "distinct (map fst m)" and "\<forall>(t, xs) \<in> set m. \<forall>x \<in> set xs. key x = t"
  shows "filter (\<lambda>x. key x = k) (concat (map snd m)) = (case map_of m k of Some xs \<Rightarrow> xs | None \<Rightarrow> [])"
  using assms
proof (induction m)
  case (Cons p m)
  obtain t xs where p: "p = (t, xs)" by (cases p)
  have xs: "filter (\<lambda>x. key x = k) xs = (if t = k then xs else [])" using Cons.prems(2) p by (auto intro: filter_True filter_False)
  have "map_of m k = None" if "t = k" using Cons.prems(1) p that by (auto simp: map_of_eq_None_iff)
  then show ?case using Cons p xs by auto
qed simp

lemma Elem_Type_filter:
  assumes "elem_wf D e"
  shows "Elem_Type e ty = filter (\<lambda>rr. rr_Type rr = ty) (Elem_All e)"
    and "\<forall>rr \<in> set (Elem_All e). name_key D (rr_Name rr) = elem_key D e"
proof -
  show "Elem_Type e ty = filter (\<lambda>rr. rr_Type rr = ty) (Elem_All e)"
    unfolding Elem_Type_def Elem_All_def
    by (rule filter_by_key [symmetric]) (use assms in \<open>auto simp: elem_wf_def map_ok_def list_all_iff\<close>)
  show "\<forall>rr \<in> set (Elem_All e). name_key D (rr_Name rr) = elem_key D e"
    using assms by (fastforce simp: elem_wf_def elem_key_def Elem_All_def list_all_iff)
qed

lemma filter_covers:
  assumes "elem_wf D e"
  shows "filter (covers (name_key D) name ty) (Elem_All e) = (if elem_key D e = name_key D name then Elem_Type e ty else [])"
  using Elem_Type_filter [OF assms] by (auto simp: covers_def intro: filter_cong)

lemma tree_get_records:
  assumes "PrevLabel_ok D" and "tree_ok D t"
  shows "tree_get D t name ty = filter (covers (name_key D) name ty) (tree_records t)"
proof -
  have "filter (covers (name_key D) name ty) (concat (map Elem_All es)) =
      (case find (\<lambda>e. elem_key D e = name_key D name) es of Some e \<Rightarrow> Elem_Type e ty | None \<Rightarrow> [])"
    if "list_all (elem_ok D) es" "sorted_wrt (<) (map (elem_key D) es)" for es
    using that
  proof (induction es)
    case (Cons e es)
    have "find (\<lambda>e. elem_key D e = name_key D name) es = None" if "elem_key D e = name_key D name"
      using Cons.prems(2) that by (auto simp: find_None_iff)
    then show ?case using Cons filter_covers [of D e name ty] by (auto simp: elem_ok_def)
  qed simp
  from this [of "inorder (t_Root t)"] show ?thesis
    using assms(2) unfolding tree_ok_def tree_get_def Search_elem_at [OF assms] elem_at_def tree_records_def Tree_All_inorder by simp
qed

text \<open>What stands at the apex besides the SOA record: NS records and signatures.\<close>

definition apex_typed :: "Zone \<Rightarrow> bool" where
  "apex_typed z \<longleftrightarrow> (\<forall>rr \<in> set (a_SIGSOA (z_Apex z) @ a_NS (z_Apex z) @ a_SIGNS (z_Apex z)). rr_Type rr \<in> {TypeNS, TypeRRSIG})"

lemma Zone_Insert_apex:
  assumes "PrevLabel_ok D" and "zone_ok D z" and "rr_typed r" and "apex_typed z" and "Zone_Insert D z r = Some (Inr z')"
  shows "apex_typed z'"
proof -
  obtain t where t: "tree_insert D z (canonical_rr D r) = Some (Inr (z\<lparr>z_Tree := t\<rparr>))"
    using tree_insert_ok [OF assms(1,2) canonical_typed [OF assms(3)]] by blast
  show ?thesis
    using assms(4,5) unfolding Zone_Insert_cases [OF assms(3)] Let_def t
    by (auto simp: apex_typed_def split: if_splits)
qed

lemma parse_apex:
  assumes "PrevLabel_ok D"
  shows "parse_loop D serial rrs seen z = Some (Inr (seen', z')) \<Longrightarrow> zone_ok D z \<Longrightarrow> list_all rr_typed rrs \<Longrightarrow> apex_typed z \<Longrightarrow> apex_typed z'"
proof (induction rrs arbitrary: seen z)
  case (Cons rr rrs)
  obtain z1 seen1 where step: "Zone_Insert D z rr = Some (Inr z1)" "parse_loop D serial rrs seen1 z1 = Some (Inr (seen', z'))"
    using Cons.prems(1) by (auto simp: Let_def split: if_splits option.splits sum.splits)
  have typed: "rr_typed rr" using Cons.prems(3) by simp
  have "zone_ok D z1" using Zone_Insert_ok [OF assms Cons.prems(2) typed] step(1) by (auto simp: inserted_def)
  moreover have "apex_typed z1" by (rule Zone_Insert_apex [OF assms Cons.prems(2) typed Cons.prems(4) step(1)])
  ultimately show ?case using Cons.IH [OF step(2)] Cons.prems(3) by simp
qed simp

lemma loaded_tree_get:
  assumes "PrevLabel_ok D" and "list_all rr_typed rrs" and "Parse D (rrs, False) origin file serial = Some (Inr z)"
    and "ty \<notin> {TypeSOA, TypeNS, TypeRRSIG}"
  shows "mset (tree_get D (z_Tree z) name ty) = filter_mset (covers (name_key D) name ty) (mset (map (canonical_rr D) rrs))"
proof -
  obtain seen where run: "parse_loop D serial rrs False (NewZone D origin file) = Some (Inr (seen, z))"
    using Parse_run [OF assms(3)] by blast
  have z: "zone_ok D z" using Parse_ok [OF assms(1,2), of False origin "file" serial] unfolding assms(3) by (simp add: loaded_def)
  let ?c = "covers (name_key D) name ty"
  have "apex_typed (NewZone D origin file)" by (simp add: apex_typed_def NewZone_def new_Apex_def)
  then have "apex_typed z" using parse_apex [OF assms(1) run NewZone_ok assms(2)] by blast
  then have apex: "filter ?c (a_SIGSOA (z_Apex z) @ a_NS (z_Apex z) @ a_SIGNS (z_Apex z)) = []"
    using assms(4) by (auto simp: apex_typed_def covers_def filter_empty_conv)
  have "tree_get D (z_Tree z) name ty = filter ?c (tree_records (z_Tree z))"
    using z by (intro tree_get_records [OF assms(1)]) (simp add: zone_ok_def)
  also have "\<dots> = filter ?c (zone_records z)" using apex by (simp add: zone_records_def)
  finally have "mset (tree_get D (z_Tree z) name ty) = filter_mset ?c (mset (zone_records z))" by simp
  also have "\<dots> = filter_mset ?c (mset (map (canonical_rr D) (filter (\<lambda>rr. rr_Type rr \<noteq> TypeSOA) rrs)))"
    using Parse_records(4) [OF assms(1-3)] by simp
  also have "\<dots> = filter_mset ?c (mset (map (canonical_rr D) rrs))"
    using assms(4) by (induction rrs) (auto simp: covers_def)
  finally show ?thesis .
qed


text \<open>C11: The records of the file are what is served. When a zone has been loaded from a file, and a query without DNSSEC asks
  for an existing name with no delegation, DNAME or CNAME in the way, the plugin writes one authoritative
  reply to the request; its answers are exactly the records of the file with that name and type, in
  canonical form. Without such records the answer is empty and the code is that of success.\<close>

theorem file_serves_loaded_records:
  assumes "PrevLabel_ok D" and "SetReply_ok D" and "list_all rr_typed rrs"
    and "Parse D (rrs, False) origin file serial = Some (Inr z)"
    and "Zones_Matches D (fl_Names f) (req_Name D r) = zone" and "zone \<noteq> ''''" and "map_of (fl_Z f) zone = Some (Some z)"
    and "m_Opcode r \<noteq> OpcodeNotify" and "\<not> req_Do D r" and "loop \<le> 8" and "\<not> z_Expired z"
    and "req_QType r \<notin> {TypeSOA, TypeNS, TypeRRSIG, TypeAXFR, TypeIXFR}"
    and "in_zone D z (req_Name D r)" and "Tree_Search D (z_Tree z) (req_Name D r) = Some e"
    and "list_all (passes D z r (req_Name D r)) (lookup_parts D z (req_Name D r))"
    and "Elem_Type e TypeCNAME = [] \<or> req_QType r = TypeCNAME"
  shows "\<exists>m. File_ServeDNS D srv loop net remote f r = Some ((RcodeSuccess, False, [m]), f)
    \<and> m_Response m \<and> m_Authoritative m \<and> m_Id m = m_Id r \<and> m_Rcode m = RcodeSuccess
    \<and> mset (m_Answer m) = filter_mset (covers (name_key D) (req_Name D r) (req_QType r)) (mset (map (canonical_rr D) rrs))"
proof -
  let ?got = "tree_get D (z_Tree z) (req_Name D r) (req_QType r)"
  have soa: "a_SOA (z_Apex z) \<noteq> None" using Parse_records(3) [OF assms(1,3,4)] by auto
  have apex: "req_Name D r = z_origin z \<longrightarrow> req_QType r \<notin> {TypeSOA, TypeNS}" using assms(12) by simp
  have el: "typeFromElem e (req_QType r) False = ?got" using assms(14) by (simp add: typeFromElem_def tree_get_def)
  obtain ns extra result where l: "Lookup D z srv loop r (req_Name D r) = Some (?got, ns, extra, result)"
    "result = Success \<and> ?got \<noteq> [] \<or> result = NoData"
    using Lookup_existing [OF assms(1) soa assms(10,13) apex assms(14-16), of srv] assms(9) el by (cases "?got = []") auto
  have "File_ServeDNS D srv loop net remote f r = Some (lookup_reply D r (?got, ns, extra, result), f)"
    using assms(5-8,11,12) l by (auto simp: File_ServeDNS_def serve_zone_def Let_def)
  moreover have "mset ?got = filter_mset (covers (name_key D) (req_Name D r) (req_QType r)) (mset (map (canonical_rr D) rrs))"
    using loaded_tree_get [OF assms(1,3,4), of "req_QType r"] assms(12) by simp
  ultimately show ?thesis using l(2) assms(2) by (auto simp: lookup_reply_def Let_def SetReply_ok_def)
qed

definition ex_file :: "Zone \<Rightarrow> File" where
  "ex_file z = \<lparr>fl_Next = None, fl_Z = [(''ex.'', Some z)], fl_Names = [''ex.''], fl_Xfer = False, fl_Fall = \<lparr>f_Zones = []\<rparr>\<rparr>"

theorem file_serves_loaded_records_witness:
  "\<exists>m. File_ServeDNS plain_lib None 0 (ex_net '''' []) ''10.0.0.9:53'' (ex_file (ex_load ex_records)) (ex_query ''www.EX.'' TypeA)
      = Some ((RcodeSuccess, False, [m]), ex_file (ex_load ex_records))
    \<and> mset (m_Answer m) = {#ex_rr ''www.ex.'' TypeA (RD_A [1, 2, 3, 4])#}"
proof -
  let ?z = "ex_load ex_records" and ?r = "ex_query ''www.EX.'' TypeA" and ?e = "newElem (ex_rr ''www.ex.'' TypeA (RD_A [1, 2, 3, 4]))"
  have hyps: "Zones_Matches plain_lib (fl_Names (ex_file ?z)) (req_Name plain_lib ?r) = ''ex.''" "''ex.'' \<noteq> ''''"
    "m_Opcode ?r \<noteq> OpcodeNotify" "\<not> req_Do plain_lib ?r" "(0 :: nat) \<le> 8" "\<not> z_Expired ?z"
    "req_QType ?r \<notin> {TypeSOA, TypeNS, TypeRRSIG, TypeAXFR, TypeIXFR}" "in_zone plain_lib ?z (req_Name plain_lib ?r)"
    "list_all (passes plain_lib ?z ?r (req_Name plain_lib ?r)) (lookup_parts plain_lib ?z (req_Name plain_lib ?r))"
    "Elem_Type ?e TypeCNAME = [] \<or> req_QType ?r = TypeCNAME"
    by code_simp+
  have e: "Tree_Search plain_lib (z_Tree ?z) (req_Name plain_lib ?r) = Some ?e" by code_simp
  have at: "map_of (fl_Z (ex_file ?z)) ''ex.'' = Some (Some ?z)" by (simp add: ex_file_def)
  have "filter (covers (name_key plain_lib) (req_Name plain_lib ?r) (req_QType ?r)) (map (canonical_rr plain_lib) ex_records)
      = [ex_rr ''www.ex.'' TypeA (RD_A [1, 2, 3, 4])]" by code_simp
  then have recs: "filter_mset (covers (name_key plain_lib) (req_Name plain_lib ?r) (req_QType ?r)) (mset (map (canonical_rr plain_lib) ex_records))
      = {#ex_rr ''www.ex.'' TypeA (RD_A [1, 2, 3, 4])#}" by (metis mset_filter mset_single_iff)
  from file_serves_loaded_records [OF plain_PrevLabel_ok plain_SetReply_ok ex_records_typed ex_parse hyps(1,2) at hyps(3-8) e hyps(9,10),
      of None "ex_net '''' []" "''10.0.0.9:53''"]
  show ?thesis unfolding recs by blast
qed

lemma ex_file_ok: "file_ok plain_lib (ex_file (ex_load ex_records))"
proof -
  have "a_SOA (z_Apex (ex_load ex_records)) = Some ex_soa" "soa_serial ex_soa = Some 7" by code_simp+
  then show ?thesis using ex_zone_ok [OF ex_records_typed] by (simp add: file_ok_def ex_file_def map_ok_def)
qed

theorem file_plugin_keeps_protocol_witness:
  "\<exists>a f'. File_ServeDNS plain_lib None 0 \<lparr>n_soa = (\<lambda>_. None), n_axfr = (\<lambda>_. None)\<rparr> ''10.0.0.9:53'' (ex_file (ex_load ex_records))
      (ex_query ''sub.ex.'' TypeMX) = Some (a, f') \<and> obeys_protocol (ex_query ''sub.ex.'' TypeMX) (Some a)"
proof -
  have net: "net_ok \<lparr>n_soa = (\<lambda>_. None), n_axfr = (\<lambda>_. None)\<rparr>" by (simp add: net_ok_def)
  have q: "m_Question (ex_query ''sub.ex.'' TypeMX) \<noteq> []" "m_Opcode (ex_query ''sub.ex.'' TypeMX) \<noteq> OpcodeNotify" by code_simp+
  from file_plugin_keeps_protocol [OF plain_PrevLabel_ok plain_SetReply_ok net ex_file_ok q(1), of None 0 "''10.0.0.9:53''"] q(2)
  show ?thesis by (auto simp: ex_file_def)
qed

end
