(* ===== verification/Transfer_Plugin.thy ===== *)
theory Transfer_Plugin
  imports Zone_Plugin DNS_Request
begin

text \<open>
  The \<^verbatim>\<open>transfer\<close> plugin, \<^verbatim>\<open>plugin/transfer/transfer.go\<close> and \<^verbatim>\<open>notify.go\<close>: zone transfers to secondaries, and the
  notifies that announce a new version of a zone.

  The sources of zones are functions of a zone name and a serial, \<open>transferred\<close> of \<open>Zone_Plugin\<close>. The library's
  \<^verbatim>\<open>Transfer.Out\<close> runs beside the handler and writes one message for each envelope that it
  receives. \<open>fails\<close> is the number of the envelope whose write fails, if any; the handler learns of
  that at the next envelope it wants to send, or at the end. TSIG is not modelled.

  The properties: data leaves only over TCP and to hosts that the configuration names; the records that a
  source gives all arrive, in order, in messages of bounded size; every host is notified.
\<close>

section \<open>Model\<close>

record xfr =
  x_Zones :: "string list"
  x_to :: "string list"

record Transfer =
  t_Transferers :: "(string \<Rightarrow> u32 \<Rightarrow> transferred) list"
  t_xfrs :: "xfr list"
  t_Next :: "handler option"

fun allowed :: "string list \<Rightarrow> string \<Rightarrow> bool" where
  "allowed [] remote = False"
| "allowed (h # hs) remote =
     (if h = ''*'' then True
      else case SplitHostPort h of
          None \<Rightarrow> False
        | Some (to, _) \<Rightarrow> if to = req_IP remote then True else allowed hs remote)"

fun longest_from :: "dnslib \<Rightarrow> string \<Rightarrow> xfr list \<Rightarrow> string \<Rightarrow> xfr option \<Rightarrow> xfr option" where
  "longest_from D name [] zone x = x"
| "longest_from D name (xf # xfs) zone x =
     (let z = Zones_Matches D (x_Zones xf) name in
      if z \<noteq> '''' \<and> (length z > length zone \<or> (length z = length zone \<and> zone < z))
      then longest_from D name xfs z (Some xf)
      else longest_from D name xfs zone x)"

definition longestMatch :: "dnslib \<Rightarrow> xfr list \<Rightarrow> string \<Rightarrow> xfr option" where
  "longestMatch D xfrs name = longest_from D name xfrs '''' None"

text \<open>The first source that is authoritative; \<open>Inl\<close> is the error of one.\<close>

fun first_transfer :: "(string \<Rightarrow> u32 \<Rightarrow> transferred) list \<Rightarrow> string \<Rightarrow> u32 \<Rightarrow> unit + RR list list option" where
  "first_transfer [] name serial = Inr None"
| "first_transfer (p # ps) name serial =
     (case p name serial of
        Not_authoritative \<Rightarrow> first_transfer ps name serial
      | Transfer_error \<Rightarrow> Inl ()
      | Batches bs \<Rightarrow> Inr (Some bs))"

text \<open>
  The state of the sending loop: the batch being filled and its size, and the envelopes handed over. Handing over
  an envelope fails when the write of an earlier one has failed.
\<close>

record sending =
  sn_rrs :: "RR list"
  sn_size :: int
  sn_sent :: "RR list list"

definition out_failed :: "nat option \<Rightarrow> RR list list \<Rightarrow> bool" where
  "out_failed fails sent = (case fails of None \<Rightarrow> False | Some k \<Rightarrow> k < length sent)"

definition written :: "nat option \<Rightarrow> RR list list \<Rightarrow> RR list list" where
  "written fails sent = (case fails of None \<Rightarrow> sent | Some k \<Rightarrow> take k sent)"

fun add_records :: "dnslib \<Rightarrow> nat option \<Rightarrow> RR list \<Rightarrow> sending \<Rightarrow> sending + sending" where
  "add_records D fails [] st = Inr st"
| "add_records D fails (rr # rrs) st =
     (let rrLen = RR_Len D rr in
      if sn_rrs st \<noteq> [] \<and> sn_size st + rrLen > 63000 then
        (if out_failed fails (sn_sent st) then Inl st
         else add_records D fails rrs \<lparr>sn_rrs = [rr], sn_size = rrLen, sn_sent = sn_sent st @ [sn_rrs st]\<rparr>)
      else add_records D fails rrs (st\<lparr>sn_rrs := sn_rrs st @ [rr], sn_size := sn_size st + rrLen\<rparr>))"

text \<open>The loop over the channel, with the first SOA record that opens a batch; \<open>None\<close> is the panic on an empty batch.\<close>

fun pump :: "dnslib \<Rightarrow> nat option \<Rightarrow> RR list list \<Rightarrow> RR option \<Rightarrow> sending \<Rightarrow> (sending + RR option \<times> sending) option" where
  "pump D fails [] soa st = Some (Inr (soa, st))"
| "pump D fails (records # bs) soa st =
     (case records of
        [] \<Rightarrow> None
      | rr # _ \<Rightarrow>
          (let soa' = (if soa = None \<and> soa_serial rr \<noteq> None then Some rr else soa) in
           case add_records D fails records st of
             Inl st' \<Rightarrow> Some (Inl st')
           | Inr st' \<Rightarrow> pump D fails bs soa' st'))"

definition out_msgs :: "dnslib \<Rightarrow> Msg \<Rightarrow> nat option \<Rightarrow> RR list list \<Rightarrow> Msg list" where
  "out_msgs D r fails sent = map (Envelope_Msg D r) (written fails sent)"

text \<open>The end: the last batch is handed over, and the handler waits for the writer.\<close>

definition finish :: "dnslib \<Rightarrow> nat option \<Rightarrow> Msg \<Rightarrow> sending \<Rightarrow> answer" where
  "finish D fails r st =
     (let sent = (if sn_rrs st \<noteq> [] \<and> \<not> out_failed fails (sn_sent st) then sn_sent st @ [sn_rrs st] else sn_sent st)
      in if out_failed fails sent then (RcodeServerFailure, True, out_msgs D r fails sent)
         else (RcodeSuccess, False, out_msgs D r fails sent))"

definition send_zone :: "dnslib \<Rightarrow> nat option \<Rightarrow> Msg \<Rightarrow> RR list list \<Rightarrow> answer option" where
  "send_zone D fails r bs =
     (case pump D fails bs None \<lparr>sn_rrs = [], sn_size = 0, sn_sent = []\<rparr> of
        None \<Rightarrow> None
      | Some (Inl st) \<Rightarrow> Some (RcodeServerFailure, True, out_msgs D r fails (sn_sent st))
      | Some (Inr (soa, st)) \<Rightarrow>
          (case soa of
             Some s \<Rightarrow>
               if length (sn_rrs st) = 1 then
                 (if out_failed fails (sn_sent st) then Some (RcodeServerFailure, True, out_msgs D r fails (sn_sent st))
                  else Some (RcodeSuccess, False, out_msgs D r fails (sn_sent st) @ [(SetReply D r)\<lparr>m_Answer := [s]\<rparr>]))
               else Some (finish D fails r st)
           | None \<Rightarrow> Some (finish D fails r st)))"

text \<open>The serial that the client has, zero for a full transfer; \<open>None\<close> for a malformed request.\<close>

definition client_serial :: "Msg \<Rightarrow> u32 option" where
  "client_serial r =
     (if req_QType r = TypeIXFR then (case m_Ns r of [rr] \<Rightarrow> soa_serial rr | _ \<Rightarrow> None) else Some 0)"

definition Transfer_ServeDNS :: "dnslib \<Rightarrow> client \<Rightarrow> nat option \<Rightarrow> Transfer \<Rightarrow> Msg \<Rightarrow> answer option" where
  "Transfer_ServeDNS D c fails t r =
     (if req_QType r \<noteq> TypeAXFR \<and> req_QType r \<noteq> TypeIXFR then NextOrFailure (t_Next t) r
      else if req_Proto c \<noteq> ''tcp'' then Some (RcodeRefused, False, [])
      else
        (case longestMatch D (t_xfrs t) (req_Name D r) of
           None \<Rightarrow> NextOrFailure (t_Next t) r
         | Some x \<Rightarrow>
             if \<not> allowed (x_to x) (cl_text c) then Some (RcodeSuccess, False, [SetRcode D r RcodeRefused])
             else
               (case client_serial r of
                  None \<Rightarrow> Some (RcodeServerFailure, False, [])
                | Some serial \<Rightarrow>
                    (case first_transfer (t_Transferers t) (req_Name D r) serial of
                       Inl _ \<Rightarrow> Some (RcodeServerFailure, True, [])
                     | Inr None \<Rightarrow> NextOrFailure (t_Next t) r
                     | Inr (Some bs) \<Rightarrow> send_zone D fails r bs))))"

section \<open>Notifies\<close>

text \<open>
  \<open>exch\<close> gives the reply to each attempt at a host. \<open>sendNotify\<close> yields the number of attempts and the error,
  \<open>Inl\<close> when the last exchange failed, \<open>Inr\<close> with the code when the host did not accept.
\<close>

definition notify_try :: "(nat \<Rightarrow> Msg option) \<Rightarrow> nat \<Rightarrow> nat \<Rightarrow> nat \<times> bool \<times> bool" where
  "notify_try exch i code =
     (case exch i of None \<Rightarrow> (code, True, False) | Some ret \<Rightarrow> (m_Rcode ret, False, m_Rcode ret = RcodeSuccess))"

fun notify_loop :: "(nat \<Rightarrow> Msg option) \<Rightarrow> nat \<Rightarrow> nat \<Rightarrow> nat \<Rightarrow> bool \<Rightarrow> nat \<times> (unit + nat) option" where
  "notify_loop exch 0 i code err = (i, Some (if err then Inl () else Inr code))"
| "notify_loop exch (Suc n) i code err =
     (case notify_try exch i code of
        (code', err', accepted) \<Rightarrow> if accepted then (i + 1, None) else notify_loop exch n (i + 1) code' err')"

definition sendNotify :: "(nat \<Rightarrow> Msg option) \<Rightarrow> nat \<times> (unit + nat) option" where
  "sendNotify exch = notify_loop exch 3 0 RcodeServerFailure False"

text \<open>The hosts that were notified with the attempts for each, and the last error.\<close>

fun notify_hosts :: "(string \<Rightarrow> nat \<Rightarrow> Msg option) \<Rightarrow> string list \<Rightarrow> (string \<times> (unit + nat)) option \<Rightarrow>
    (string \<times> nat) list \<times> (string \<times> (unit + nat)) option" where
  "notify_hosts exch [] err1 = ([], err1)"
| "notify_hosts exch (t # ts) err1 =
     (if t = ''*'' then notify_hosts exch ts err1
      else
        (case sendNotify (exch t) of
           (n, err) \<Rightarrow>
             (case notify_hosts exch ts (case err of Some e \<Rightarrow> Some (t, e) | None \<Rightarrow> err1) of
                (sent, err1') \<Rightarrow> ((t, n) # sent, err1'))))"

definition Notify :: "dnslib \<Rightarrow> (string \<Rightarrow> nat \<Rightarrow> Msg option) \<Rightarrow> Transfer option \<Rightarrow> string \<Rightarrow>
    (string \<times> nat) list \<times> (string \<times> (unit + nat)) option" where
  "Notify D exch t zone =
     (case t of
        None \<Rightarrow> ([], None)
      | Some t \<Rightarrow>
          (case longestMatch D (t_xfrs t) zone of
             None \<Rightarrow> ([], None)
           | Some x \<Rightarrow> notify_hosts exch (x_to x) None))"

section \<open>Sending everything\<close>

definition rrs_len :: "dnslib \<Rightarrow> RR list \<Rightarrow> int" where
  "rrs_len D rrs = (\<Sum>rr\<leftarrow>rrs. RR_Len D rr)"

definition fits :: "dnslib \<Rightarrow> RR list \<Rightarrow> bool" where
  "fits D rrs \<longleftrightarrow> length rrs \<le> 1 \<or> rrs_len D rrs \<le> 63000"

definition sending_ok :: "dnslib \<Rightarrow> sending \<Rightarrow> bool" where
  "sending_ok D st \<longleftrightarrow> sn_size st = rrs_len D (sn_rrs st) \<and> fits D (sn_rrs st) \<and> (\<forall>b \<in> set (sn_sent st). b \<noteq> [] \<and> fits D b)"

definition all_sent :: "sending \<Rightarrow> RR list" where
  "all_sent st = concat (sn_sent st) @ sn_rrs st"

lemma add_records_ok:
  "sending_ok D st \<Longrightarrow> \<exists>st'. add_records D None rrs st = Inr st' \<and> sending_ok D st' \<and> all_sent st' = all_sent st @ rrs
    \<and> (rrs \<noteq> [] \<or> sn_rrs st \<noteq> [] \<longrightarrow> sn_rrs st' \<noteq> [])"
proof (induction rrs arbitrary: st)
  case (Cons rr rrs)
  let ?st1 = "if sn_rrs st \<noteq> [] \<and> sn_size st + RR_Len D rr > 63000
    then \<lparr>sn_rrs = [rr], sn_size = RR_Len D rr, sn_sent = sn_sent st @ [sn_rrs st]\<rparr>
    else st\<lparr>sn_rrs := sn_rrs st @ [rr], sn_size := sn_size st + RR_Len D rr\<rparr>"
  have step: "add_records D None (rr # rrs) st = add_records D None rrs ?st1" by (simp add: Let_def out_failed_def)
  have "sending_ok D ?st1" "all_sent ?st1 = all_sent st @ [rr]" "sn_rrs ?st1 \<noteq> []"
    using Cons.prems by (auto simp: sending_ok_def all_sent_def rrs_len_def fits_def)
  with Cons.IH [of ?st1] show ?case unfolding step by auto
qed simp

lemma pump_ok:
  "sending_ok D st \<Longrightarrow> [] \<notin> set bs \<Longrightarrow> \<exists>st'. pump D None bs soa st = Some (Inr
      (if soa = None then find (\<lambda>rr. soa_serial rr \<noteq> None) (map hd bs) else soa, st'))
    \<and> sending_ok D st' \<and> all_sent st' = all_sent st @ concat bs \<and> (bs \<noteq> [] \<or> sn_rrs st \<noteq> [] \<longrightarrow> sn_rrs st' \<noteq> [])"
proof (induction bs arbitrary: soa st)
  case (Cons b bs)
  obtain rr rest where b: "b = rr # rest" using Cons.prems(2) by (cases b) auto
  obtain st1 where st1: "add_records D None b st = Inr st1" "sending_ok D st1" "all_sent st1 = all_sent st @ b" "sn_rrs st1 \<noteq> []"
    using add_records_ok [OF Cons.prems(1), of b] b by auto
  let ?soa = "if soa = None \<and> soa_serial rr \<noteq> None then Some rr else soa"
  obtain st' where "pump D None bs ?soa st1 = Some (Inr (if ?soa = None then find (\<lambda>rr. soa_serial rr \<noteq> None) (map hd bs) else ?soa, st'))"
    "sending_ok D st'" "all_sent st' = all_sent st1 @ concat bs" "sn_rrs st' \<noteq> []"
    using Cons.IH [OF st1(2), of ?soa] Cons.prems(2) st1(4) by auto
  with b st1 show ?case by (auto simp: Let_def)
qed simp

lemma send_zone_all:
  assumes "Envelope_ok D" and "SetReply_ok D" and "[] \<notin> set bs" and "soa_serial soa \<noteq> None"
    and "hd (concat bs) = soa" and "last (concat bs) = soa" and "bs \<noteq> []"
  shows "\<exists>ws. send_zone D None r bs = Some (RcodeSuccess, False, ws) \<and> concat (map m_Answer ws) = concat bs
    \<and> (\<forall>m \<in> set ws. m_Answer m \<noteq> [] \<and> fits D (m_Answer m))"
proof -
  have first: "find (\<lambda>rr. soa_serial rr \<noteq> None) (map hd bs) = Some soa"
    using assms(3-5,7) by (cases bs) auto
  have "sending_ok D \<lparr>sn_rrs = [], sn_size = 0, sn_sent = []\<rparr>" by (simp add: sending_ok_def rrs_len_def fits_def)
  from pump_ok [OF this assms(3), of None] obtain st where st:
    "pump D None bs None \<lparr>sn_rrs = [], sn_size = 0, sn_sent = []\<rparr> = Some (Inr (Some soa, st))"
    "sending_ok D st" "all_sent st = concat bs" "sn_rrs st \<noteq> []"
    using first assms(7) by (auto simp: all_sent_def)
  have env: "map m_Answer (map (Envelope_Msg D r) xs) = xs" for xs using assms(1) by (induction xs) (simp_all add: Envelope_ok_def)
  show ?thesis
  proof (cases "length (sn_rrs st) = 1")
    case True
    then have one: "sn_rrs st = [soa]" using st(3) assms(6) by (cases "sn_rrs st") (auto simp: all_sent_def dest: sym)
    let ?ws = "map (Envelope_Msg D r) (sn_sent st) @ [(SetReply D r)\<lparr>m_Answer := [soa]\<rparr>]"
    have "send_zone D None r bs = Some (RcodeSuccess, False, ?ws)"
      using st(1) one by (simp add: send_zone_def out_failed_def out_msgs_def written_def)
    moreover have "concat (map m_Answer ?ws) = concat bs" using st(3) one env [of "sn_sent st"] by (simp add: all_sent_def)
    moreover have "\<forall>m \<in> set ?ws. m_Answer m \<noteq> [] \<and> fits D (m_Answer m)"
      using st(2) assms(1) by (auto simp: sending_ok_def Envelope_ok_def fits_def)
    ultimately show ?thesis by blast
  next
    case False
    let ?ws = "map (Envelope_Msg D r) (sn_sent st @ [sn_rrs st])"
    have "send_zone D None r bs = Some (RcodeSuccess, False, ?ws)"
      using st(1,4) False by (simp add: send_zone_def finish_def out_failed_def out_msgs_def written_def)
    moreover have "concat (map m_Answer ?ws) = concat bs" unfolding env using st(3) by (simp add: all_sent_def)
    moreover have "\<forall>m \<in> set ?ws. m_Answer m \<noteq> [] \<and> fits D (m_Answer m)"
      using st(2,4) assms(1) by (auto simp: sending_ok_def Envelope_ok_def)
    ultimately show ?thesis by blast
  qed
qed


text \<open>C23: A transfer sends all records, in messages of bounded size. When a source gives batches that are not empty and whose
  records begin and end with the SOA record, and no write fails, the messages that the plugin writes carry exactly these records, in
  order; and each message holds records of at most 63000 bytes, or a single record.\<close>

theorem transfer_sends_all:
  assumes "Envelope_ok D" and "SetReply_ok D" and "[] \<notin> set bs" and "soa_serial soa \<noteq> None"
    and "hd (concat bs) = soa" and "last (concat bs) = soa" and "bs \<noteq> []"
  shows "\<exists>ws. send_zone D None r bs = Some (RcodeSuccess, False, ws) \<and> concat (map m_Answer ws) = concat bs
    \<and> (\<forall>m \<in> set ws. m_Answer m \<noteq> [] \<and> fits D (m_Answer m))"
  using assms by (rule send_zone_all)

definition ex_axfr :: Msg where
  "ex_axfr = ex_query ''ex.'' TypeAXFR"

theorem transfer_sends_all_witness:
  "\<exists>ws. send_zone plain_lib None ex_axfr [[ex_soa, ex_rr ''ex.'' TypeNS (RD_NS ''ns.ex.'')], [ex_soa]] = Some (RcodeSuccess, False, ws)
     \<and> concat (map m_Answer ws) = [ex_soa, ex_rr ''ex.'' TypeNS (RD_NS ''ns.ex.''), ex_soa]"
proof -
  have "soa_serial ex_soa \<noteq> None" by code_simp
  from transfer_sends_all [OF plain_Envelope_ok plain_SetReply_ok _ this,
      of "[[ex_soa, ex_rr ''ex.'' TypeNS (RD_NS ''ns.ex.'')], [ex_soa]]" ex_axfr]
  show ?thesis by auto
qed

section \<open>Who may transfer\<close>

lemma allowed_hosts:
  "allowed hs remote \<Longrightarrow> ''*'' \<in> set hs \<or> (\<exists>h \<in> set hs. \<exists>port. SplitHostPort h = Some (req_IP remote, port))"
  by (induction hs) (auto split: if_splits option.splits prod.splits)

lemma longest_from_in:
  "longest_from D name xfs zone x = Some y \<Longrightarrow> x = Some y \<or> y \<in> set xfs \<and> Zones_Matches D (x_Zones y) name \<noteq> ''''"
proof (induction xfs arbitrary: zone x)
  case (Cons xf xfs)
  show ?case
    using Cons.prems Cons.IH [of "Zones_Matches D (x_Zones xf) name" "Some xf"] Cons.IH [of zone x]
    by (auto simp: Let_def split: if_splits)
qed simp

text \<open>C22: Zone data leaves only to hosts that the configuration names. If the plugin answers a request for a transfer with any
  record, and the plugins behind it do not, then the request came over TCP, a \<open>transfer\<close> block covers the zone, and
  its list of hosts has the address of the client or a star.\<close>

theorem transfer_access_control:
  assumes "SetRcode_ok D" and "req_QType r = TypeAXFR \<or> req_QType r = TypeIXFR"
    and "Transfer_ServeDNS D c fails t r = Some (rc, err, ws)" and "m \<in> set ws" and "m_Answer m \<noteq> []"
    and "\<forall>rc err ws. NextOrFailure (t_Next t) r = Some (rc, err, ws) \<longrightarrow> (\<forall>m \<in> set ws. m_Answer m = [])"
  shows "req_Proto c = ''tcp'' \<and> (\<exists>x \<in> set (t_xfrs t). Zones_Matches D (x_Zones x) (req_Name D r) \<noteq> ''''
    \<and> (''*'' \<in> set (x_to x) \<or> (\<exists>h \<in> set (x_to x). \<exists>port. SplitHostPort h = Some (req_IP (cl_text c), port))))"
proof -
  have nxt: "Transfer_ServeDNS D c fails t r \<noteq> NextOrFailure (t_Next t) r"
    using assms(3-6) by fastforce
  have none: "Transfer_ServeDNS D c fails t r \<noteq> Some (x, y, [])" for x y using assms(3,4) by auto
  have ref: "Transfer_ServeDNS D c fails t r \<noteq> Some (RcodeSuccess, False, [SetRcode D r RcodeRefused])"
    using assms(1,3-5) by (auto simp: SetRcode_ok_def)
  have "Transfer_ServeDNS D c fails t r = Some (RcodeRefused, False, [])" if "req_Proto c \<noteq> ''tcp''"
    using that assms(2) unfolding Transfer_ServeDNS_def by auto
  then have tcp: "req_Proto c = ''tcp''" using none by blast
  have "Transfer_ServeDNS D c fails t r = NextOrFailure (t_Next t) r" if "longestMatch D (t_xfrs t) (req_Name D r) = None"
    using that assms(2) tcp unfolding Transfer_ServeDNS_def by auto
  then obtain x where x: "longestMatch D (t_xfrs t) (req_Name D r) = Some x" using nxt by blast
  have "Transfer_ServeDNS D c fails t r = Some (RcodeSuccess, False, [SetRcode D r RcodeRefused])" if "\<not> allowed (x_to x) (cl_text c)"
    using that assms(2) tcp x unfolding Transfer_ServeDNS_def by auto
  then have "allowed (x_to x) (cl_text c)" using ref by blast
  note hosts = allowed_hosts [OF this]
  have "x \<in> set (t_xfrs t)" "Zones_Matches D (x_Zones x) (req_Name D r) \<noteq> ''''"
    using x longest_from_in [of D "req_Name D r" "t_xfrs t" "''''" None x] by (auto simp: longestMatch_def)
  with tcp hosts show ?thesis by blast
qed

definition ex_transfer :: "RR list list \<Rightarrow> Transfer" where
  "ex_transfer bs =
     \<lparr>t_Transferers = [\<lambda>zone serial. if zone = ''ex.'' then Batches bs else Not_authoritative],
      t_xfrs = [\<lparr>x_Zones = [''ex.''], x_to = [''10.0.0.9:53'', ''*'']\<rparr>], t_Next = None\<rparr>"

definition ex_tcp :: client where
  "ex_tcp = \<lparr>cl_addr = TCPAddr [10, 0, 0, 9], cl_text = ''10.0.0.9:4711''\<rparr>"

theorem transfer_access_control_witness:
  "req_Proto ex_tcp = ''tcp'' \<and> (\<exists>x \<in> set (t_xfrs (ex_transfer [[ex_soa, ex_soa]])).
     ''*'' \<in> set (x_to x) \<or> (\<exists>h \<in> set (x_to x). \<exists>port. SplitHostPort h = Some (req_IP (cl_text ex_tcp), port)))"
proof -
  let ?m = "Envelope_Msg plain_lib ex_axfr [ex_soa, ex_soa]"
  have run: "Transfer_ServeDNS plain_lib ex_tcp None (ex_transfer [[ex_soa, ex_soa]]) ex_axfr = Some (RcodeSuccess, False, [?m])"
    "m_Answer ?m \<noteq> []" "req_QType ex_axfr = TypeAXFR \<or> req_QType ex_axfr = TypeIXFR"
    by code_simp+
  have "\<forall>rc err ws. NextOrFailure (t_Next (ex_transfer [[ex_soa, ex_soa]])) ex_axfr = Some (rc, err, ws) \<longrightarrow> (\<forall>m \<in> set ws. m_Answer m = [])"
    by (simp add: ex_transfer_def NextOrFailure_def)
  from transfer_access_control [OF plain_SetRcode_ok run(3,1) _ run(2) this] show ?thesis by auto
qed

section \<open>Who is notified\<close>

lemma notify_loop_spec:
  "(\<exists>n' err'. notify_loop exch n i code err = (n', err') \<and> i \<le> n' \<and> n' \<le> i + n \<and> (n > 0 \<longrightarrow> i < n')
     \<and> (err' = None \<longleftrightarrow> (\<exists>j. i \<le> j \<and> j < i + n \<and> (\<exists>ret. exch j = Some ret \<and> m_Rcode ret = RcodeSuccess))))"
proof (induction n arbitrary: i code err)
  case (Suc n)
  obtain code' err' acc where att: "notify_try exch i code = (code', err', acc)" by (cases "notify_try exch i code")
  have acc: "acc \<longleftrightarrow> (\<exists>ret. exch i = Some ret \<and> m_Rcode ret = RcodeSuccess)" using att by (auto simp: notify_try_def split: option.splits)
  have split: "(\<exists>j. i \<le> j \<and> j < i + Suc n \<and> P j) \<longleftrightarrow> P i \<or> (\<exists>j. i + 1 \<le> j \<and> j < i + 1 + n \<and> P j)" for P
  proof
    assume "\<exists>j. i \<le> j \<and> j < i + Suc n \<and> P j"
    then obtain j where "i \<le> j" "j < i + Suc n" "P j" by blast
    then show "P i \<or> (\<exists>j. i + 1 \<le> j \<and> j < i + 1 + n \<and> P j)" by (cases "j = i") (auto intro!: exI [of _ j])
  next
    assume "P i \<or> (\<exists>j. i + 1 \<le> j \<and> j < i + 1 + n \<and> P j)"
    then show "\<exists>j. i \<le> j \<and> j < i + Suc n \<and> P j"
    proof
      assume "P i" then show ?thesis by (intro exI [of _ i]) simp
    next
      assume "\<exists>j. i + 1 \<le> j \<and> j < i + 1 + n \<and> P j"
      then obtain j where "i + 1 \<le> j" "j < i + 1 + n" "P j" by blast
      then show ?thesis by (intro exI [of _ j]) simp
    qed
  qed
  show ?case
  proof (cases acc)
    case True
    then show ?thesis using att acc by auto
  next
    case False
    then show ?thesis using att acc Suc.IH [of "i + 1" code' err'] unfolding split by auto
  qed
qed simp


definition accepts :: "(nat \<Rightarrow> Msg option) \<Rightarrow> bool" where
  "accepts exch \<longleftrightarrow> (\<exists>i < 3. \<exists>ret. exch i = Some ret \<and> m_Rcode ret = RcodeSuccess)"

lemma sendNotify_spec:
  "1 \<le> fst (sendNotify exch)" "fst (sendNotify exch) \<le> 3" "snd (sendNotify exch) = None \<longleftrightarrow> accepts exch"
  using notify_loop_spec [of exch 3 0 RcodeServerFailure False] by (auto simp: sendNotify_def accepts_def)

lemma notify_hosts_spec:
  "map fst (fst (notify_hosts exch hosts err1)) = filter (\<lambda>h. h \<noteq> ''*'') hosts
   \<and> (\<forall>(h, n) \<in> set (fst (notify_hosts exch hosts err1)). 1 \<le> n \<and> n \<le> 3)
   \<and> (snd (notify_hosts exch hosts err1) = None \<longleftrightarrow> err1 = None \<and> (\<forall>h \<in> set hosts. h \<noteq> ''*'' \<longrightarrow> accepts (exch h)))"
proof (induction hosts arbitrary: err1)
  case (Cons h hosts)
  show ?case
  proof (cases "h = ''*''")
    case True
    then show ?thesis using Cons.IH [of err1] by simp
  next
    case False
    let ?n = "fst (sendNotify (exch h))" and ?e = "snd (sendNotify (exch h))"
    let ?err = "case ?e of Some e \<Rightarrow> Some (h, e) | None \<Rightarrow> err1"
    let ?rest = "notify_hosts exch hosts ?err"
    have run: "fst (notify_hosts exch (h # hosts) err1) = (h, ?n) # fst ?rest" "snd (notify_hosts exch (h # hosts) err1) = snd ?rest"
      using False by (simp_all split: prod.split)
    have "?err = None \<longleftrightarrow> err1 = None \<and> accepts (exch h)" using sendNotify_spec(3) [of "exch h"] by (cases ?e) auto
    then show ?thesis unfolding run using Cons.IH [of ?err] sendNotify_spec(1,2) [of "exch h"] False by auto
  qed
qed simp

text \<open>Every secondary is notified. A change of a zone that a \<open>transfer\<close> block covers is announced to all hosts of its list but the
  star, in order, with one to three messages to each; and the call reports an error exactly when some
  host accepted none of the three.\<close>

theorem notify_reaches_all_hosts:
  assumes "longestMatch D (t_xfrs t) zone = Some x"
  shows "map fst (fst (Notify D exch (Some t) zone)) = filter (\<lambda>h. h \<noteq> ''*'') (x_to x)
    \<and> (\<forall>(h, n) \<in> set (fst (Notify D exch (Some t) zone)). 1 \<le> n \<and> n \<le> 3)
    \<and> (snd (Notify D exch (Some t) zone) = None \<longleftrightarrow> (\<forall>h \<in> set (x_to x). h \<noteq> ''*'' \<longrightarrow> accepts (exch h)))"
  using notify_hosts_spec [of exch "x_to x" None] assms by (simp add: Notify_def)

theorem notify_reaches_all_hosts_witness:
  "map fst (fst (Notify plain_lib (\<lambda>_ _. Some new_Msg) (Some (ex_transfer [])) ''ex.'')) = [''10.0.0.9:53'']"
proof -
  have "longestMatch plain_lib (t_xfrs (ex_transfer [])) ''ex.'' = Some \<lparr>x_Zones = [''ex.''], x_to = [''10.0.0.9:53'', ''*'']\<rparr>" by code_simp
  from notify_reaches_all_hosts [OF this, of "\<lambda>_ _. Some new_Msg"] show ?thesis by simp
qed

section \<open>Sources of transfers\<close>

text \<open>
  What the plugin relies on: a source gives batches that are not empty and whose records begin and end with the SOA record.
\<close>

locale zone_source =
  fixes source :: "'s \<Rightarrow> string \<Rightarrow> u32 \<Rightarrow> transferred" and ok :: "'s \<Rightarrow> bool"
  assumes batches: "ok s \<Longrightarrow> source s zone serial = Batches bs \<Longrightarrow> bs \<noteq> [] \<and> [] \<notin> set bs"
    and soa: "ok s \<Longrightarrow> source s zone serial = Batches bs \<Longrightarrow>
      soa_serial (hd (concat bs)) \<noteq> None \<and> last (concat bs) = hd (concat bs)"
begin

lemma all_records_sent:
  assumes "Envelope_ok D" and "SetReply_ok D" and "ok s" and "source s zone serial = Batches bs"
  shows "\<exists>ws. send_zone D None r bs = Some (RcodeSuccess, False, ws) \<and> concat (map m_Answer ws) = concat bs"
  using send_zone_all [OF assms(1,2) _ _ refl] batches [OF assms(3,4)] soa [OF assms(3,4)] by blast

end

lemma Zone_Transfer_batches:
  assumes "zone_ok D z" and "\<And>soa. a_SOA (z_Apex z) = Some soa \<Longrightarrow> soa_serial soa \<noteq> None" and "Zone_Transfer z serial = Some bs"
  shows "bs \<noteq> []" "[] \<notin> set bs" "soa_serial (hd (concat bs)) \<noteq> None" "last (concat bs) = hd (concat bs)"
proof -
  obtain soa where soa: "a_SOA (z_Apex z) = Some soa" using assms(3) by (cases "a_SOA (z_Apex z)") (auto simp: Zone_Transfer_def)
  let ?full = "[[soa] @ a_SIGSOA (z_Apex z) @ a_NS (z_Apex z) @ a_SIGNS (z_Apex z)] @ map Elem_All (Tree_All (z_Tree z)) @ [[soa]]"
  have bs: "bs = [[soa]] \<or> bs = ?full"
    using assms(3) soa by (auto simp: Zone_Transfer_def Apex_records_def Tree_Walk_def walk_batches Tree_All_inorder split: if_splits)
  have "Elem_All e \<noteq> []" if "e \<in> set (Tree_All (z_Tree z))" for e
  proof -
    have "elem_ok D e" using that assms(1) by (auto simp: zone_ok_def tree_ok_def list_all_iff Tree_All_inorder)
    then show ?thesis by (cases "e_m e") (auto simp: elem_ok_def elem_wf_def Elem_All_def)
  qed
  then have "[] \<notin> set (map Elem_All (Tree_All (z_Tree z)))" by (metis (no_types) imageE set_map)
  then show "bs \<noteq> []" "[] \<notin> set bs" using bs by auto
  show "soa_serial (hd (concat bs)) \<noteq> None" "last (concat bs) = hd (concat bs)" using bs assms(2) [OF soa] by auto
qed

interpretation file_source: zone_source File_Transfer "file_ok D" for D
proof
  fix f zone serial bs assume ok: "file_ok D f" and "File_Transfer f zone serial = Batches bs"
  then obtain z where z: "map_of (fl_Z f) zone = Some (Some z)" "Zone_Transfer z serial = Some bs"
    by (auto simp: File_Transfer_def split: option.splits)
  then have "zone_ok D z" "\<And>soa. a_SOA (z_Apex z) = Some soa \<Longrightarrow> soa_serial soa \<noteq> None" using ok by (auto simp: file_ok_def)
  from Zone_Transfer_batches [OF this z(2)]
  show "bs \<noteq> [] \<and> [] \<notin> set bs" "soa_serial (hd (concat bs)) \<noteq> None \<and> last (concat bs) = hd (concat bs)" by blast+
qed

end
