(* ===== verification/Plugin_Chain.thy ===== *)
theory Plugin_Chain
  imports DNS_Server DNS_Cache Hanzo_DNS Transfer_Plugin "HOL-Library.Multiset"
begin

text \<open>
  The smaller plugins and chains of plugins: \<^verbatim>\<open>any\<close>, \<^verbatim>\<open>chaos\<close>, \<^verbatim>\<open>local\<close>, \<^verbatim>\<open>header\<close>, \<^verbatim>\<open>bufsize\<close>, \<^verbatim>\<open>loadbalance\<close>, \<^verbatim>\<open>acl\<close>,
  \<^verbatim>\<open>whoami\<close> and \<^verbatim>\<open>minimal\<close>.

  Each plugin is a function of the next handler. Random numbers, the host name and the tree of
  addresses of an access list are arguments. \<^verbatim>\<open>header\<close> and \<^verbatim>\<open>bufsize\<close> change the request in place; the model hands the
  changed request to the next plugin, and does not show the change to the caller when the chain returns.

  Every plugin but \<^verbatim>\<open>minimal\<close> is an instance of the locale \<open>plugin_link\<close>; so any chain of them, with the plugins \<^verbatim>\<open>file\<close> and
  \<^verbatim>\<open>hanzodns\<close>, gives one reply to every query. \<open>minimal\<close> breaks the protocol when the plugin behind it leaves the reply
  to the server.
\<close>

section \<open>any\<close>

definition HINFO_any :: "string \<Rightarrow> RR" where
  "HINFO_any name =
     \<lparr>rr_Name = name, rr_Type = TypeHINFO, rr_Class = ClassINET, rr_Ttl = 8482, rr_data = RD_HINFO ''ANY obsoleted'' ''See RFC 8482''\<rparr>"

definition Any_ServeDNS :: "dnslib \<Rightarrow> handler option \<Rightarrow> handler" where
  "Any_ServeDNS D nxt r =
     (case m_Question r of
        [] \<Rightarrow> None
      | q # _ \<Rightarrow>
          if q_Type q \<noteq> TypeANY then NextOrFailure nxt r
          else Some (RcodeSuccess, False, [(SetReply D r)\<lparr>m_Answer := [HINFO_any (q_Name q)]\<rparr>]))"

section \<open>chaos\<close>

definition ClassCHAOS :: u16 where "ClassCHAOS = 3"

record Chaos =
  ch_Version :: string
  ch_Authors :: "string list"

definition chaos_trim :: "string \<Rightarrow> string" where
  "chaos_trim s = (if length s < 256 then s else take 255 s)"

text \<open>\<open>perm\<close> is the random permutation of the authors, \<open>host\<close> the host name if the system knows it.\<close>

definition Chaos_ServeDNS :: "dnslib \<Rightarrow> nat list \<Rightarrow> string option \<Rightarrow> Chaos \<Rightarrow> handler option \<Rightarrow> handler" where
  "Chaos_ServeDNS D perm host c nxt r =
     (if req_QClass r \<noteq> ClassCHAOS \<or> req_QType r \<noteq> TypeTXT then NextOrFailure nxt r
      else
        let m = SetReply D r;
            txt = (\<lambda>s. \<lparr>rr_Name = req_QName D r, rr_Type = TypeTXT, rr_Class = ClassCHAOS, rr_Ttl = 0, rr_data = RD_TXT [s]\<rparr>) in
        if req_Name D r = ''authors.bind.'' then
          (if list_all (\<lambda>i. i < length (ch_Authors c)) perm
           then Some (RcodeSuccess, False, [m\<lparr>m_Answer := m_Answer m @ map (\<lambda>i. txt (ch_Authors c ! i)) perm\<rparr>])
           else None)
        else if req_Name D r \<in> {''version.bind.'', ''version.server.''} then
          Some (RcodeSuccess, False, [m\<lparr>m_Answer := [txt (ch_Version c)]\<rparr>])
        else if req_Name D r \<in> {''hostname.bind.'', ''id.server.''} then
          Some (RcodeSuccess, False, [m\<lparr>m_Answer := [txt (chaos_trim (case host of Some h \<Rightarrow> h | None \<Rightarrow> ''localhost''))]\<rparr>])
        else NextOrFailure nxt r)"

section \<open>local\<close>

definition local_zones :: "string list" where
  "local_zones = [''localhost.'', ''0.in-addr.arpa.'', ''127.in-addr.arpa.'', ''255.in-addr.arpa.'']"

definition local_rr :: "string \<Rightarrow> u16 \<Rightarrow> rdata \<Rightarrow> RR" where
  "local_rr name ty d = \<lparr>rr_Name = name, rr_Type = ty, rr_Class = ClassINET, rr_Ttl = 604800, rr_data = d\<rparr>"

definition soaFromOrigin :: "string \<Rightarrow> RR list" where
  "soaFromOrigin origin = [local_rr origin TypeSOA (RD_SOA ''localhost.'' ''root.localhost.'' 1 0 0 0 604800)]"

definition nsFromOrigin :: "string \<Rightarrow> RR list" where
  "nsFromOrigin origin = [local_rr origin TypeNS (RD_NS ''localhost.'')]"

definition localhost_A :: "string \<Rightarrow> RR" where
  "localhost_A name = local_rr name TypeA (RD_A [127, 0, 0, 1])"

definition localhost_AAAA :: "string \<Rightarrow> RR" where
  "localhost_AAAA name = local_rr name TypeAAAA (RD_AAAA (replicate 15 0 @ [1]))"

definition doLocalhost :: "dnslib \<Rightarrow> Msg \<Rightarrow> Msg" where
  "doLocalhost D r =
     (let m = SetReply D r; qname = req_QName D r in
      if req_QType r = TypeA then m\<lparr>m_Answer := [localhost_A qname]\<rparr>
      else if req_QType r = TypeAAAA then m\<lparr>m_Answer := [localhost_AAAA qname]\<rparr>
      else m\<lparr>m_Ns := soaFromOrigin qname\<rparr>)"

text \<open>The two switches of \<^verbatim>\<open>ServeDNS\<close>: what they put into the answer and the authority section.\<close>

definition local_answer :: "string \<Rightarrow> string \<Rightarrow> string \<Rightarrow> u16 \<Rightarrow> RR list \<times> RR list" where
  "local_answer q qname zone qtype =
     (if q \<in> set local_zones then
        (if qtype = TypeA then (if q \<noteq> ''localhost.'' then ([], soaFromOrigin qname) else ([localhost_A qname], []))
         else if qtype = TypeAAAA then (if q \<noteq> ''localhost.'' then ([], soaFromOrigin qname) else ([localhost_AAAA qname], []))
         else if qtype = TypeSOA then (soaFromOrigin qname, [])
         else if qtype = TypeNS then (nsFromOrigin qname, [])
         else ([], soaFromOrigin qname))
      else if q = ''1.0.0.127.in-addr.arpa.'' then
        (if qtype = TypePTR then ([local_rr qname TypePTR (RD_PTR ''localhost.'')], []) else ([], soaFromOrigin zone))
      else ([], []))"

text \<open>\<open>None\<close> is the slice that starts before the name, which the test for the zone excludes.\<close>

definition Local_ServeDNS :: "dnslib \<Rightarrow> handler option \<Rightarrow> handler" where
  "Local_ServeDNS D nxt r =
     (let qname = req_QName D r; q = req_Name D r in
      if length q > length ''localhost.'' \<and> HasPrefix q ''localhost.'' then Some (RcodeSuccess, False, [doLocalhost D r])
      else
        let zone = Zones_Matches D local_zones qname in
        if zone = '''' then NextOrFailure nxt r
        else if length qname < length zone then None
        else
          let zone = drop (length qname - length zone) qname; (answer, ns) = local_answer q qname zone (req_QType r);
              m = (SetReply D r)\<lparr>m_Answer := answer, m_Ns := ns\<rparr>
          in Some (RcodeSuccess, False,
               [if answer = [] \<and> ns = [] then m\<lparr>m_Ns := soaFromOrigin zone, m_Rcode := RcodeNameError\<rparr> else m]))"

section \<open>header\<close>

record header_rule =
  hr_Flag :: string
  hr_State :: bool

definition newRules :: "string \<Rightarrow> string list \<Rightarrow> string + header_rule list" where
  "newRules key args =
     (if key = '''' then Inl ''no flag action provided''
      else if length args < 1 then Inl ''invalid length for flags, at least one should be provided''
      else if ToLower key \<notin> {''set'', ''clear''} then
        Inl (''unknown flag action='' @ ToLower key @ '', should be set or clear'')
      else
        case find (\<lambda>a. ToLower a \<notin> {''aa'', ''ra'', ''rd''}) args of
          Some a \<Rightarrow> Inl (''unknown/unsupported flag='' @ ToLower a)
        | None \<Rightarrow> Inr (map (\<lambda>a. \<lparr>hr_Flag = ToLower a, hr_State = (ToLower key = ''set'')\<rparr>) args))"

fun applyRules :: "header_rule list \<Rightarrow> Msg \<Rightarrow> Msg" where
  "applyRules [] res = res"
| "applyRules (rule # rules) res =
     applyRules rules
       (if hr_Flag rule = ''aa'' then res\<lparr>m_Authoritative := hr_State rule\<rparr>
        else if hr_Flag rule = ''ra'' then res\<lparr>m_RecursionAvailable := hr_State rule\<rparr>
        else if hr_Flag rule = ''rd'' then res\<lparr>m_RecursionDesired := hr_State rule\<rparr>
        else res)"

definition Header_ServeDNS :: "header_rule list \<Rightarrow> header_rule list \<Rightarrow> handler option \<Rightarrow> handler" where
  "Header_ServeDNS queryRules responseRules nxt r =
     map_option (\<lambda>(rcode, err, ws). (rcode, err, map (applyRules responseRules) ws)) (NextOrFailure nxt (applyRules queryRules r))"

section \<open>bufsize\<close>

definition Bufsize_ServeDNS :: "dnslib \<Rightarrow> int \<Rightarrow> handler option \<Rightarrow> handler" where
  "Bufsize_ServeDNS D bsize nxt r =
     NextOrFailure nxt
       (case IsEdns0 D r of
          Some opt \<Rightarrow>
            if uint (opt_UDPSize D opt) > bsize
            then r\<lparr>m_Extra := replace_rr opt (opt_SetUDPSize D opt (of_int bsize)) (m_Extra r)\<rparr> else r
        | None \<Rightarrow> r)"

section \<open>loadbalance\<close>

text \<open>
  \<open>ids k\<close> is the \<open>k\<close>-th number that \<^verbatim>\<open>dns.Id\<close> gives; the functions return how many were used.
\<close>

definition swap :: "'a list \<Rightarrow> nat \<Rightarrow> nat \<Rightarrow> 'a list" where
  "swap xs i j = xs[i := xs ! j, j := xs ! i]"

fun shuffle_from :: "(nat \<Rightarrow> nat) \<Rightarrow> nat \<Rightarrow> nat \<Rightarrow> nat \<Rightarrow> 'a list \<Rightarrow> 'a list \<times> nat" where
  "shuffle_from ids k j 0 records = (records, k)"
| "shuffle_from ids k j (Suc n) records =
     (let p = j + ids k mod (length records - j)
      in shuffle_from ids (k + 1) (j + 1) n (if j = p then records else swap records j p))"

definition roundRobinShuffle :: "(nat \<Rightarrow> nat) \<Rightarrow> nat \<Rightarrow> 'a list \<Rightarrow> 'a list \<times> nat" where
  "roundRobinShuffle ids k records =
     (if length records \<le> 1 then (records, k)
      else if length records = 2 then (if ids k mod 2 = 0 then swap records 0 1 else records, k + 1)
      else shuffle_from ids k 0 (length records) records)"

definition roundRobin :: "(nat \<Rightarrow> nat) \<Rightarrow> nat \<Rightarrow> RR list \<Rightarrow> RR list \<times> nat" where
  "roundRobin ids k rrs =
     (let cname = filter (\<lambda>r. rr_Type r = TypeCNAME) rrs;
          address = filter (\<lambda>r. rr_Type r \<in> {TypeA, TypeAAAA}) rrs;
          mx = filter (\<lambda>r. rr_Type r = TypeMX) rrs;
          rest = filter (\<lambda>r. rr_Type r \<notin> {TypeCNAME, TypeA, TypeAAAA, TypeMX}) rrs;
          (address, k) = roundRobinShuffle ids k address;
          (mx, k) = roundRobinShuffle ids k mx
      in (cname @ rest @ address @ mx, k))"

definition randomShuffle :: "(nat \<Rightarrow> nat) \<Rightarrow> nat \<Rightarrow> Msg \<Rightarrow> Msg \<times> nat" where
  "randomShuffle ids k res =
     (let (answer, k) = roundRobin ids k (m_Answer res); (ns, k) = roundRobin ids k (m_Ns res);
          (extra, k) = roundRobin ids k (m_Extra res)
      in (res\<lparr>m_Answer := answer, m_Ns := ns, m_Extra := extra\<rparr>, k))"

text \<open>\<open>None\<close> is the panic for a message without a question.\<close>

definition LoadBalance_WriteMsg :: "(nat \<Rightarrow> nat) \<Rightarrow> nat \<Rightarrow> Msg \<Rightarrow> (Msg \<times> nat) option" where
  "LoadBalance_WriteMsg ids k res =
     (if m_Rcode res \<noteq> RcodeSuccess then Some (res, k)
      else case m_Question res of
          [] \<Rightarrow> None
        | q # _ \<Rightarrow> if q_Type q = TypeAXFR \<or> q_Type q = TypeIXFR then Some (res, k) else Some (randomShuffle ids k res))"

fun balance_all :: "(nat \<Rightarrow> nat) \<Rightarrow> nat \<Rightarrow> Msg list \<Rightarrow> Msg list option" where
  "balance_all ids k [] = Some []"
| "balance_all ids k (m # ms) =
     (case LoadBalance_WriteMsg ids k m of
        None \<Rightarrow> None
      | Some (m', k') \<Rightarrow> map_option (\<lambda>ms'. m' # ms') (balance_all ids k' ms))"

definition LoadBalance_ServeDNS :: "(nat \<Rightarrow> nat) \<Rightarrow> handler option \<Rightarrow> handler" where
  "LoadBalance_ServeDNS ids nxt r =
     (case NextOrFailure nxt r of
        None \<Rightarrow> None
      | Some (rcode, err, ws) \<Rightarrow> map_option (\<lambda>ws'. (rcode, err, ws')) (balance_all ids 0 ws))"

section \<open>acl\<close>

datatype action = actionNone | actionAllow | actionBlock | actionFilter | actionDrop

text \<open>\<open>p_filter\<close> is the look-up in the tree of addresses.\<close>

record policy =
  p_action :: action
  p_qtypes :: "u16 list"
  p_filter :: "nat list \<Rightarrow> bool"

record acl_rule =
  ar_zones :: "string list"
  ar_policies :: "policy list"

definition TypeNone :: u16 where "TypeNone = 0"

fun first_policy :: "u16 \<Rightarrow> nat list \<Rightarrow> policy list \<Rightarrow> action" where
  "first_policy qtype ip [] = actionNone"
| "first_policy qtype ip (p # ps) =
     (if TypeNone \<notin> set (p_qtypes p) \<and> qtype \<notin> set (p_qtypes p) then first_policy qtype ip ps
      else if \<not> p_filter p ip then first_policy qtype ip ps
      else p_action p)"

definition matchWithPolicies :: "policy list \<Rightarrow> client \<Rightarrow> Msg \<Rightarrow> action" where
  "matchWithPolicies policies c r =
     (case ParseIP (takeWhile (\<lambda>ch. ch \<noteq> CHR ''%'') (req_IP (cl_text c))) of
        None \<Rightarrow> actionBlock
      | Some ip \<Rightarrow> first_policy (req_QType r) ip policies)"

text \<open>The loop over the rules: the action that ends it, \<open>actionNone\<close> when none does.\<close>

fun acl_decide :: "dnslib \<Rightarrow> client \<Rightarrow> Msg \<Rightarrow> acl_rule list \<Rightarrow> action" where
  "acl_decide D c r [] = actionNone"
| "acl_decide D c r (rule # rules) =
     (if Zones_Matches D (ar_zones rule) (req_Name D r) = '''' then acl_decide D c r rules
      else let a = matchWithPolicies (ar_policies rule) c r in if a = actionNone then acl_decide D c r rules else a)"

definition EDNS0EDE :: u16 where "EDNS0EDE = 15"

text \<open>A reply with an extended error in its OPT record; \<open>None\<close> if it has no such record to write to.\<close>

definition acl_reply :: "dnslib \<Rightarrow> Msg \<Rightarrow> nat \<Rightarrow> nat \<Rightarrow> Msg option" where
  "acl_reply D r rcode info =
     (let m = SetEdns0 D (SetRcode D r rcode) 4096 True in
      map_option (\<lambda>opt.
          m\<lparr>m_Extra := replace_rr opt
              (case rr_data opt of RD_OPT opts \<Rightarrow> opt\<lparr>rr_data := RD_OPT (opts @ [EDNS0_Other EDNS0EDE [char_of (0 :: nat), char_of info]])\<rparr> | _ \<Rightarrow> opt)
              (m_Extra m)\<rparr>)
        (IsEdns0 D m))"

definition ACL_ServeDNS :: "dnslib \<Rightarrow> client \<Rightarrow> acl_rule list \<Rightarrow> handler option \<Rightarrow> handler" where
  "ACL_ServeDNS D c rules nxt r =
     (case acl_decide D c r rules of
        actionDrop \<Rightarrow> Some (RcodeSuccess, False, [])
      | actionBlock \<Rightarrow> map_option (\<lambda>m. (RcodeSuccess, False, [m])) (acl_reply D r RcodeRefused 15)
      | actionFilter \<Rightarrow> map_option (\<lambda>m. (RcodeSuccess, False, [m])) (acl_reply D r RcodeSuccess 17)
      | _ \<Rightarrow> NextOrFailure nxt r)"

section \<open>whoami\<close>

text \<open>The number \<^verbatim>\<open>ParseUint\<close> returns beside an ignored error: the largest for digits out of range, otherwise 0.\<close>

definition port_number :: "string \<Rightarrow> u16" where
  "port_number s =
     (case ParseUint s 16 of Some n \<Rightarrow> of_int n | None \<Rightarrow> if s \<noteq> '''' \<and> list_all is_digit s then 65535 else 0)"

definition Whoami_ServeDNS :: "dnslib \<Rightarrow> client \<Rightarrow> handler" where
  "Whoami_ServeDNS D c r =
     (let a = SetReply D r; qname = req_QName D r; ip = ParseIP (req_IP (cl_text c));
          hdr = (\<lambda>n t d. \<lparr>rr_Name = n, rr_Type = t, rr_Class = req_QClass r, rr_Ttl = 0, rr_data = d\<rparr>);
          rr = (if req_Family c = 1 then hdr qname TypeA (RD_A (case ip of Some ip \<Rightarrow> To4 ip | None \<Rightarrow> []))
                else hdr qname TypeAAAA (RD_AAAA (case ip of Some ip \<Rightarrow> ip | None \<Rightarrow> [])));
          srv = hdr (if qname = ''.'' then ''_'' @ req_Proto c @ qname else ''_'' @ req_Proto c @ ''.'' @ qname) TypeSRV
                  (RD_SRV 0 0 (port_number (req_Port c)) ''.'')
      in Some (RcodeSuccess, False, [a\<lparr>m_Authoritative := True, m_Extra := [rr, srv]\<rparr>]))"

section \<open>minimal\<close>

text \<open>The writer that \<^verbatim>\<open>minimal\<close> hands on keeps the last message; writing nil panics.\<close>

definition Minimal_ServeDNS :: "dnslib \<Rightarrow> time \<Rightarrow> handler option \<Rightarrow> handler" where
  "Minimal_ServeDNS D now nxt r =
     (case NextOrFailure nxt r of
        None \<Rightarrow> None
      | Some (rcode, err, ws) \<Rightarrow>
          if err then Some (rcode, True, [])
          else
            let msg = (if ws = [] then None else Some (last ws)); ty = Typify D msg now; cl = Classify ty in
            if cl = C_Denial \<or> cl = C_Error \<or> ty = R_Delegation then map_option (\<lambda>m. (RcodeSuccess, False, [m])) msg
            else if ty \<noteq> R_NoError then map_option (\<lambda>m. (RcodeSuccess, True, [m])) msg
            else map_option (\<lambda>m. (RcodeSuccess, False, [m\<lparr>m_Ns := [], m_Extra := []\<rparr>])) msg)"

section \<open>Every plugin keeps the protocol\<close>

lemma Any_protocol:
  assumes "SetReply_ok D" and "is_query r" and "obeys_protocol r (NextOrFailure nxt r)"
  shows "obeys_protocol r (Any_ServeDNS D nxt r)"
  using assms(2) assms(3)
  by (auto simp: Any_ServeDNS_def is_query_def obeys_written reply_to_SetReply [OF assms(1)] split: list.split)

lemma Chaos_protocol:
  assumes "SetReply_ok D" and "list_all (\<lambda>i. i < length (ch_Authors c)) perm" and "obeys_protocol r (NextOrFailure nxt r)"
  shows "obeys_protocol r (Chaos_ServeDNS D perm host c nxt r)"
  using assms(2) assms(3)
  by (simp add: Chaos_ServeDNS_def Let_def obeys_written reply_to_SetReply [OF assms(1)])

lemma local_zone_length:
  assumes "SubDomain_ok D" and "HasSuffix qname ''.''" and "z \<in> set local_zones" and "IsSubDomain D z qname"
  shows "length z \<le> length qname"
proof -
  have "\<exists>labels. labels \<noteq> [] \<and> list_all plain_label labels \<and> z = Join labels ''.'' @ ''.''"
  proof (rule exI [of _ "plain_labels z"])
    show "plain_labels z \<noteq> [] \<and> list_all plain_label (plain_labels z) \<and> z = Join (plain_labels z) ''.'' @ ''.''"
      using assms(3) by (auto simp: local_zones_def plain_label_def)
  qed
  then show ?thesis using assms unfolding SubDomain_ok_def by blast
qed

lemma query_fqdn: "SubDomain_ok D \<Longrightarrow> is_query r \<Longrightarrow> HasSuffix (req_QName D r) ''.''"
  by (auto simp: SubDomain_ok_def is_query_def req_QName_def split: list.split)

lemma Local_protocol:
  assumes "SetReply_ok D" and "SubDomain_ok D" and "is_query r" and "obeys_protocol r (NextOrFailure nxt r)"
  shows "obeys_protocol r (Local_ServeDNS D nxt r)"
proof -
  let ?zone = "Zones_Matches D local_zones (req_QName D r)"
  have "\<not> length (req_QName D r) < length ?zone" if "?zone \<noteq> ''''"
    using local_zone_length [OF assms(2) query_fqdn [OF assms(2,3)]] Zones_Matches_spec(1) [OF that] by fastforce
  moreover have "reply_to r (doLocalhost D r)"
    by (rule reply_to_SetReply [OF assms(1)]) (simp_all add: doLocalhost_def Let_def)
  ultimately show ?thesis
    using assms(4)
    by (auto simp: Local_ServeDNS_def Let_def split_beta intro!: obeys_written reply_to_SetReply [OF assms(1)])
qed

lemma applyRules_keeps [simp]:
  "m_Id (applyRules rules m) = m_Id m" "m_Response (applyRules rules m) = m_Response m"
  "m_Question (applyRules rules m) = m_Question m" "m_Opcode (applyRules rules m) = m_Opcode m"
  by (induction rules m rule: applyRules.induct) simp_all

lemma obeys_same_question:
  "obeys_protocol r' res \<Longrightarrow> m_Id r' = m_Id r \<Longrightarrow> m_Question r' = m_Question r \<Longrightarrow> obeys_protocol r res"
  by (simp add: obeys_protocol_def reply_to_def)

lemma obeys_map:
  assumes "obeys_protocol r res" and "\<And>m. reply_to r m \<Longrightarrow> reply_to r (f m)"
  shows "obeys_protocol r (map_option (\<lambda>(rcode, err, ws). (rcode, err, map f ws)) res)"
  using assms by (auto simp: obeys_protocol_def)

lemma Header_protocol:
  assumes "is_query r" and "\<And>h r'. nxt = Some h \<Longrightarrow> is_query r' \<Longrightarrow> obeys_protocol r' (h r')"
  shows "obeys_protocol r (Header_ServeDNS qs rs nxt r)"
proof -
  have "is_query (applyRules qs r)" using assms(1) by (simp add: is_query_def)
  then have "obeys_protocol (applyRules qs r) (NextOrFailure nxt (applyRules qs r))"
    by (intro NextOrFailure_protocol assms(2))
  then have "obeys_protocol r (NextOrFailure nxt (applyRules qs r))" by (rule obeys_same_question) simp_all
  then show ?thesis unfolding Header_ServeDNS_def by (rule obeys_map) (simp add: reply_to_def)
qed

lemma Bufsize_protocol:
  assumes "is_query r" and "\<And>h r'. nxt = Some h \<Longrightarrow> is_query r' \<Longrightarrow> obeys_protocol r' (h r')"
  shows "obeys_protocol r (Bufsize_ServeDNS D bsize nxt r)"
proof -
  have "obeys_protocol r (NextOrFailure nxt (r\<lparr>m_Extra := e\<rparr>))" for e
  proof (rule obeys_same_question)
    show "obeys_protocol (r\<lparr>m_Extra := e\<rparr>) (NextOrFailure nxt (r\<lparr>m_Extra := e\<rparr>))"
      using assms by (intro NextOrFailure_protocol assms(2)) (simp_all add: is_query_def)
  qed simp_all
  moreover have "obeys_protocol r (NextOrFailure nxt r)" using assms by (intro NextOrFailure_protocol assms(2))
  ultimately show ?thesis by (simp add: Bufsize_ServeDNS_def split: option.split)
qed

lemma balance_reply:
  assumes "reply_to r m" and "m_Question r \<noteq> []"
  shows "\<exists>m' k'. LoadBalance_WriteMsg ids k m = Some (m', k') \<and> reply_to r m'"
proof -
  obtain q qs where "m_Question m = q # qs" using assms by (cases "m_Question m") (auto simp: reply_to_def)
  moreover have "reply_to r (fst (randomShuffle ids k m))"
    using assms(1) by (simp add: randomShuffle_def reply_to_def split_beta Let_def)
  ultimately show ?thesis
    using assms(1) by (cases "randomShuffle ids k m") (simp add: LoadBalance_WriteMsg_def)
qed

lemma LoadBalance_protocol:
  assumes "is_query r" and "obeys_protocol r (NextOrFailure nxt r)"
  shows "obeys_protocol r (LoadBalance_ServeDNS ids nxt r)"
proof -
  obtain rcode err ws where nx: "NextOrFailure nxt r = Some (rcode, err, ws)" "length ws = (if ClientWrite rcode then 1 else 0)"
      "\<forall>m \<in> set ws. reply_to r m"
    using assms(2) by (auto simp: obeys_protocol_def)
  show ?thesis
  proof (cases "ClientWrite rcode")
    case True
    then obtain m where ws: "ws = [m]" using nx(2) by (auto simp: length_Suc_conv)
    then obtain m' k' where "LoadBalance_WriteMsg ids 0 m = Some (m', k')" "reply_to r m'"
      using balance_reply nx(3) assms(1) by (fastforce simp: is_query_def)
    with nx(1) ws True show ?thesis by (simp add: LoadBalance_ServeDNS_def obeys_written)
  next
    case False
    then show ?thesis using nx by (simp add: LoadBalance_ServeDNS_def obeys_left)
  qed
qed

lemma acl_reply_ok:
  assumes "SetRcode_ok D" and "SetEdns0_ok D"
  shows "\<exists>m. acl_reply D r rcode info = Some m \<and> reply_to r m \<and> m_Rcode m = rcode \<and> m_Answer m = []"
proof -
  let ?m = "SetEdns0 D (SetRcode D r rcode) 4096 True"
  obtain opt where "IsEdns0 D ?m = Some opt" using assms(2) unfolding SetEdns0_ok_def by blast
  moreover have "m_Response ?m" "m_Id ?m = m_Id r" "m_Question ?m = take 1 (m_Question r)" "m_Answer ?m = []" "m_Rcode ?m = rcode"
    using assms by (simp_all add: SetRcode_ok_def SetEdns0_ok_def)
  ultimately show ?thesis by (simp add: acl_reply_def Let_def reply_to_def)
qed

text \<open>The lists that never drop a query.\<close>

definition acl_answers :: "acl_rule list \<Rightarrow> bool" where
  "acl_answers rules = list_all (\<lambda>rule. list_all (\<lambda>p. p_action p \<noteq> actionDrop) (ar_policies rule)) rules"

lemma first_policy_answers: "list_all (\<lambda>p. p_action p \<noteq> actionDrop) ps \<Longrightarrow> first_policy qtype ip ps \<noteq> actionDrop"
  by (induction ps) auto

lemma acl_decide_answers: "acl_answers rules \<Longrightarrow> acl_decide D c r rules \<noteq> actionDrop"
proof (induction rules)
  case (Cons rule rules)
  have "matchWithPolicies (ar_policies rule) c r \<noteq> actionDrop"
    using Cons.prems by (simp add: acl_answers_def matchWithPolicies_def first_policy_answers split: option.split)
  with Cons show ?case by (simp add: acl_answers_def Let_def)
qed simp

lemma ACL_protocol:
  assumes "SetRcode_ok D" and "SetEdns0_ok D" and "acl_answers rules" and "obeys_protocol r (NextOrFailure nxt r)"
  shows "obeys_protocol r (ACL_ServeDNS D c rules nxt r)"
proof -
  have "obeys_protocol r (map_option (\<lambda>m. (RcodeSuccess, False, [m])) (acl_reply D r rcode info))" for rcode info
    using acl_reply_ok [OF assms(1,2), of r rcode info] obeys_written [OF ClientWrite_codes(1)] by fastforce
  then show ?thesis
    using acl_decide_answers [OF assms(3), of D c r] assms(4)
    by (simp add: ACL_ServeDNS_def split: action.split)
qed

lemma Whoami_protocol: "SetReply_ok D \<Longrightarrow> obeys_protocol r (Whoami_ServeDNS D c r)"
  unfolding Whoami_ServeDNS_def Let_def by (intro obeys_written reply_to_SetReply) simp_all
section \<open>Chains of plugins\<close>

datatype plugin =
    P_any
  | P_chaos "nat list" "string option" Chaos
  | P_local
  | P_header "header_rule list" "header_rule list"
  | P_bufsize int
  | P_loadbalance "nat \<Rightarrow> nat"
  | P_acl client "acl_rule list"
  | P_whoami client
  | P_hanzodns F Store
  | P_file "server option" nat network string File
  | P_cache env DCache

fun plugin_handler :: "dnslib \<Rightarrow> plugin \<Rightarrow> handler option \<Rightarrow> handler" where
  "plugin_handler D P_any nxt = Any_ServeDNS D nxt"
| "plugin_handler D (P_chaos perm host c) nxt = Chaos_ServeDNS D perm host c nxt"
| "plugin_handler D P_local nxt = Local_ServeDNS D nxt"
| "plugin_handler D (P_header qs rs) nxt = Header_ServeDNS qs rs nxt"
| "plugin_handler D (P_bufsize n) nxt = Bufsize_ServeDNS D n nxt"
| "plugin_handler D (P_loadbalance ids) nxt = LoadBalance_ServeDNS ids nxt"
| "plugin_handler D (P_acl c rules) nxt = ACL_ServeDNS D c rules nxt"
| "plugin_handler D (P_whoami c) nxt = Whoami_ServeDNS D c"
| "plugin_handler D (P_hanzodns fall s) nxt = HanzoDNS_ServeDNS D \<lparr>hz_Next = nxt, hz_Fall = fall, hz_Store = s\<rparr>"
| "plugin_handler D (P_file srv loop net remote f) nxt =
     (\<lambda>r. map_option fst (File_ServeDNS D srv loop net remote (f\<lparr>fl_Next := nxt\<rparr>) r))"
| "plugin_handler D (P_cache e c) nxt = (\<lambda>r. map_option fst (Cache_ServeDNS D e nxt r c))"

text \<open>The configurations that the code itself relies on: a real permutation, well-formed zones, no rule that drops queries.\<close>

fun plugin_ok :: "dnslib \<Rightarrow> plugin \<Rightarrow> bool" where
  "plugin_ok D (P_chaos perm host c) = list_all (\<lambda>i. i < length (ch_Authors c)) perm"
| "plugin_ok D (P_acl c rules) = acl_answers rules"
| "plugin_ok D (P_file srv loop net remote f) = (net_ok net \<and> file_ok D f)"
| "plugin_ok D (P_cache e c) = (DCache_ok c \<and> 0 \<le> c_verifyStaleTimeout c)"
| "plugin_ok D _ = True"

definition lib_ok :: "dnslib \<Rightarrow> bool" where
  "lib_ok D \<longleftrightarrow> NextLabel_ok D \<and> PrevLabel_ok D \<and> SubDomain_ok D \<and> SetReply_ok D \<and> SetRcode_ok D \<and> SetEdns0_ok D \<and> Truncate_ok D"

lemma plain_lib_ok: "lib_ok plain_lib"
  by (simp add: lib_ok_def plain_NextLabel_ok plain_PrevLabel_ok plain_SubDomain_ok plain_SetReply_ok plain_SetRcode_ok
      plain_SetEdns0_ok plain_Truncate_ok)

lemma plugin_protocol:
  assumes "lib_ok D" and "plugin_ok D p" and "is_query r"
    and nxt: "\<And>h r'. nxt = Some h \<Longrightarrow> is_query r' \<Longrightarrow> obeys_protocol r' (h r')"
  shows "obeys_protocol r (plugin_handler D p nxt r)"
proof -
  have nx: "obeys_protocol r (NextOrFailure nxt r)" using nxt assms(3) by (intro NextOrFailure_protocol)
  have lib: "PrevLabel_ok D" "SubDomain_ok D" "SetReply_ok D" "SetRcode_ok D" "SetEdns0_ok D" using assms(1) by (simp_all add: lib_ok_def)
  show ?thesis
  proof (cases p)
    case (P_hanzodns fall s)
    then show ?thesis using hanzo_link.link [where c = "(D, fall, s)" and r = r and nxt = nxt] lib(3) assms(3) nxt by auto
  next
    case (P_file srv loop net remote f)
    then show ?thesis using file_link.link [where c = "(D, srv, loop, net, remote, f)" and r = r and nxt = nxt] assms(2,3) lib nxt by auto
  next
    case (P_cache e c)
    then show ?thesis using cache_link.link [where c = "(D, e, c)" and r = r and nxt = nxt] assms(2,3) lib nxt by auto
  qed (use assms(2,3) nx lib nxt in \<open>simp_all add: Any_protocol Chaos_protocol Local_protocol Header_protocol Bufsize_protocol
      LoadBalance_protocol ACL_protocol Whoami_protocol\<close>)
qed

interpretation chain_link: plugin_link "\<lambda>(D, p). plugin_handler D p" "\<lambda>(D, p). lib_ok D \<and> plugin_ok D p"
  by unfold_locales (auto intro: plugin_protocol)

lemma plugin_chain_obeys:
  assumes "lib_ok D" and "list_all (plugin_ok D) ps" and "compile_plugins (map (plugin_handler D) ps) = Some h" and "is_query r"
  shows "obeys_protocol r (h r)"
  using chain_link.chain_obeys [of "map (Pair D) ps" h r] assms by (simp add: list_all_iff comp_def)

section \<open>What the plugins do\<close>

lemma swap_mset: "i < length xs \<Longrightarrow> j < length xs \<Longrightarrow> mset (swap xs i j) = mset xs"
  by (simp add: swap_def mset_swap)

lemma length_swap [simp]: "length (swap xs i j) = length xs"
  by (simp add: swap_def)

lemma shuffle_from_mset: "j + n \<le> length xs \<Longrightarrow> mset (fst (shuffle_from ids k j n xs)) = mset xs"
proof (induction ids k j n xs rule: shuffle_from.induct)
  case (2 ids k j n xs)
  let ?p = "j + ids k mod (length xs - j)"
  have "?p < length xs" using 2(2) mod_less_divisor [of "length xs - j" "ids k"] by linarith
  then show ?case using 2 by (simp add: Let_def swap_mset)
qed simp

lemma roundRobinShuffle_mset: "mset (fst (roundRobinShuffle ids k xs)) = mset xs"
  by (simp add: roundRobinShuffle_def swap_mset shuffle_from_mset)

lemma mset_partition:
  "mset rrs = mset (filter (\<lambda>r. rr_Type r = TypeCNAME) rrs) + mset (filter (\<lambda>r. rr_Type r \<notin> {TypeCNAME, TypeA, TypeAAAA, TypeMX}) rrs)
     + mset (filter (\<lambda>r. rr_Type r \<in> {TypeA, TypeAAAA}) rrs) + mset (filter (\<lambda>r. rr_Type r = TypeMX) rrs)"
  by (induction rrs) (auto simp: rr_types)

text \<open>C35: Load balancing only reorders. Whatever the random numbers are, the records that go out are those of the
  reply, each as often. The aliases come first and keep their order, so that a chain of aliases stays in
  sequence; other records follow in their order; then a permutation of the addresses and one of the mail servers.\<close>

theorem loadbalance_permutes:
  "mset (fst (roundRobin ids k rrs)) = mset rrs
   \<and> (\<exists>address mx.
        fst (roundRobin ids k rrs) = filter (\<lambda>r. rr_Type r = TypeCNAME) rrs
          @ filter (\<lambda>r. rr_Type r \<notin> {TypeCNAME, TypeA, TypeAAAA, TypeMX}) rrs @ address @ mx
        \<and> mset address = mset (filter (\<lambda>r. rr_Type r \<in> {TypeA, TypeAAAA}) rrs)
        \<and> mset mx = mset (filter (\<lambda>r. rr_Type r = TypeMX) rrs))"
proof -
  let ?address = "roundRobinShuffle ids k (filter (\<lambda>r. rr_Type r \<in> {TypeA, TypeAAAA}) rrs)"
  let ?mx = "roundRobinShuffle ids (snd ?address) (filter (\<lambda>r. rr_Type r = TypeMX) rrs)"
  have eq: "fst (roundRobin ids k rrs) = filter (\<lambda>r. rr_Type r = TypeCNAME) rrs
      @ filter (\<lambda>r. rr_Type r \<notin> {TypeCNAME, TypeA, TypeAAAA, TypeMX}) rrs @ fst ?address @ fst ?mx"
    unfolding roundRobin_def Let_def split_beta by (simp only: fst_conv snd_conv)
  have "mset (fst (roundRobin ids k rrs)) = mset rrs"
    unfolding eq mset_append roundRobinShuffle_mset by (subst (5) mset_partition) (simp only: add.assoc)
  with eq show ?thesis using roundRobinShuffle_mset by metis
qed

text \<open>A plugin behind \<^verbatim>\<open>minimal\<close> that leaves the reply to the server makes it write a nil message.\<close>

theorem minimal_panics_on_refusal:
  "nxt r = Some (rcode, False, []) \<Longrightarrow> Minimal_ServeDNS D now (Some nxt) r = None"
  by (simp add: Minimal_ServeDNS_def NextOrFailure_def Typify_def Classify_def)

definition applies :: "u16 \<Rightarrow> nat list \<Rightarrow> policy \<Rightarrow> bool" where
  "applies qtype ip p \<longleftrightarrow> (TypeNone \<in> set (p_qtypes p) \<or> qtype \<in> set (p_qtypes p)) \<and> p_filter p ip"

lemma first_policy_find: "first_policy qtype ip ps = (case find (applies qtype ip) ps of Some p \<Rightarrow> p_action p | None \<Rightarrow> actionNone)"
  by (induction ps) (auto simp: applies_def)

lemma acl_decide_first:
  "acl_decide D c r (pre @ rule # rules) = matchWithPolicies (ar_policies rule) c r"
  if "list_all (\<lambda>ru. Zones_Matches D (ar_zones ru) (req_Name D r) = '''' \<or> matchWithPolicies (ar_policies ru) c r = actionNone) pre"
    and "Zones_Matches D (ar_zones rule) (req_Name D r) \<noteq> ''''" and "matchWithPolicies (ar_policies rule) c r \<noteq> actionNone"
  using that by (induction pre) (auto simp: Let_def)

text \<open>C21: A blocked client gets nothing. If the first rule that has an action for the query finds, among its
  policies, first one that blocks it, or if the address of the client cannot be read, then the query is refused with an
  empty answer, and the plugins behind are not asked: the reply is the same whatever they are.\<close>

theorem acl_blocks:
  assumes "SetRcode_ok D" and "SetEdns0_ok D"
    and "list_all (\<lambda>ru. Zones_Matches D (ar_zones ru) (req_Name D r) = '''' \<or> matchWithPolicies (ar_policies ru) c r = actionNone) pre"
    and "Zones_Matches D (ar_zones rule) (req_Name D r) \<noteq> ''''"
    and "case ParseIP (takeWhile (\<lambda>ch. ch \<noteq> CHR ''%'') (req_IP (cl_text c))) of
           None \<Rightarrow> True | Some ip \<Rightarrow> map_option p_action (find (applies (req_QType r) ip) (ar_policies rule)) = Some actionBlock"
  shows "\<exists>m. (\<forall>nxt. ACL_ServeDNS D c (pre @ rule # rules) nxt r = Some (RcodeSuccess, False, [m]))
    \<and> reply_to r m \<and> m_Rcode m = RcodeRefused \<and> m_Answer m = []"
proof -
  have "matchWithPolicies (ar_policies rule) c r = actionBlock"
    using assms(5) by (auto simp: matchWithPolicies_def first_policy_find split: option.splits)
  then have "acl_decide D c r (pre @ rule # rules) = actionBlock" using acl_decide_first [OF assms(3,4)] by simp
  moreover obtain m where "acl_reply D r RcodeRefused 15 = Some m" "reply_to r m" "m_Rcode m = RcodeRefused" "m_Answer m = []"
    using acl_reply_ok [OF assms(1,2)] by blast
  ultimately show ?thesis by (simp add: ACL_ServeDNS_def)
qed

definition ex_client :: client where
  "ex_client = \<lparr>cl_addr = UDPAddr [10, 0, 0, 9], cl_text = ''10.0.0.9:53''\<rparr>"

definition ex_allow :: acl_rule where
  "ex_allow = \<lparr>ar_zones = [''org.''], ar_policies = [\<lparr>p_action = actionAllow, p_qtypes = [TypeTXT], p_filter = (\<lambda>_. True)\<rparr>]\<rparr>"

definition ex_block :: acl_rule where
  "ex_block = \<lparr>ar_zones = [''example.org.''],
     ar_policies = [\<lparr>p_action = actionBlock, p_qtypes = [TypeNone], p_filter = (\<lambda>ip. To4 ip = [10, 0, 0, 9])\<rparr>]\<rparr>"

definition ex_www :: Msg where
  "ex_www = new_Msg\<lparr>m_Id := 42, m_Question := [\<lparr>q_Name = ''www.example.org.'', q_Type = TypeA, q_Class = 1\<rparr>]\<rparr>"

lemma ex_acl:
  "list_all (\<lambda>ru. Zones_Matches plain_lib (ar_zones ru) (req_Name plain_lib ex_www) = ''''
      \<or> matchWithPolicies (ar_policies ru) ex_client ex_www = actionNone) [ex_allow]"
  "Zones_Matches plain_lib (ar_zones ex_block) (req_Name plain_lib ex_www) \<noteq> ''''"
  "case ParseIP (takeWhile (\<lambda>ch. ch \<noteq> CHR ''%'') (req_IP (cl_text ex_client))) of
     None \<Rightarrow> True | Some ip \<Rightarrow> map_option p_action (find (applies (req_QType ex_www) ip) (ar_policies ex_block)) = Some actionBlock"
  by code_simp+

theorem acl_blocks_witness:
  "\<exists>m. (\<forall>nxt. ACL_ServeDNS plain_lib ex_client ([ex_allow] @ ex_block # []) nxt ex_www = Some (RcodeSuccess, False, [m]))
    \<and> reply_to ex_www m \<and> m_Rcode m = RcodeRefused \<and> m_Answer m = []"
  by (rule acl_blocks [OF plain_SetRcode_ok plain_SetEdns0_ok ex_acl])

end
