(* ===== verification/Rewrite_Plugin.thy ===== *)
theory Rewrite_Plugin
  imports Zone_File DNS_Request Go_Net Go_JSON
begin

text \<open>
  The plugin \<^verbatim>\<open>rewrite\<close>: \<^verbatim>\<open>plugin/rewrite\<close>. Rules change the request before the next plugin sees it, and leave response rules
  that are applied to the records of its reply.

  A compiled regular expression is represented by what its methods return, and compilation is an argument; so are the client, the
  server and what the metadata hold, which the record \<open>ctxt\<close> bundles. The records of a reply are changed through pointers, while a
  rule may replace the list that holds them, so a reply under change has its records in a store and its sections are lists of
  addresses. A panic is \<open>None\<close>.
\<close>

section \<open>Strings\<close>

definition upper_char :: "char \<Rightarrow> char" where
  "upper_char c = (let n = (of_char c :: nat) in if 97 \<le> n \<and> n \<le> 122 then char_of (n - 32) else c)"

definition ToUpper :: "string \<Rightarrow> string" where
  "ToUpper s = map upper_char s"

definition CutPrefix :: "string \<Rightarrow> string \<Rightarrow> string option" where
  "CutPrefix s p = (if HasPrefix s p then Some (drop (length p) s) else None)"

definition CutSuffix :: "string \<Rightarrow> string \<Rightarrow> string option" where
  "CutSuffix s t = (if HasSuffix s t then Some (take (length s - length t) s) else None)"

function replace_nonempty :: "string \<Rightarrow> string \<Rightarrow> string \<Rightarrow> string" where
  "replace_nonempty s old new =
     (if s = '''' \<or> old = '''' then s
      else if HasPrefix s old then new @ replace_nonempty (drop (length old) s) old new
      else hd s # replace_nonempty (tl s) old new)"
  by pat_completeness auto
termination
  by (relation "measure (\<lambda>(s, _, _). length s)") auto

declare replace_nonempty.simps [simp del]

definition ReplaceAll :: "string \<Rightarrow> string \<Rightarrow> string \<Rightarrow> string" where
  "ReplaceAll s old new = (if old = '''' then new @ concat (map (\<lambda>c. c # new) s) else replace_nonempty s old new)"

text \<open>\<^verbatim>\<open>hex.DecodeString\<close>; \<open>None\<close> is its error.\<close>

fun hex_DecodeString :: "string \<Rightarrow> string option" where
  "hex_DecodeString [] = Some []"
| "hex_DecodeString [_] = None"
| "hex_DecodeString (a # b # s) =
     (case (hex_val a, hex_val b, hex_DecodeString s) of
        (Some x, Some y, Some t) \<Rightarrow> Some (char_of (16 * x + y) # t)
      | _ \<Rightarrow> None)"

text \<open>
  \<^verbatim>\<open>strconv.ParseUint(s, 0, bits)\<close>: the prefix gives the base, and underscores may separate digits.
\<close>

definition any_digit :: "char \<Rightarrow> nat option" where
  "any_digit c =
     (let n = (of_char c :: nat) in
      if 48 \<le> n \<and> n \<le> 57 then Some (n - 48)
      else if 97 \<le> n \<and> n \<le> 122 then Some (n - 87)
      else if 65 \<le> n \<and> n \<le> 90 then Some (n - 55)
      else None)"

fun base_val :: "nat \<Rightarrow> nat \<Rightarrow> string \<Rightarrow> nat option" where
  "base_val b acc [] = Some acc"
| "base_val b acc (c # s) =
     (if c = CHR ''_'' then base_val b acc s
      else case any_digit c of Some d \<Rightarrow> if d < b then base_val b (b * acc + d) s else None | None \<Rightarrow> None)"

fun underscores_from :: "bool \<Rightarrow> char \<Rightarrow> string \<Rightarrow> bool" where
  "underscores_from hex saw [] = (saw \<noteq> CHR ''_'')"
| "underscores_from hex saw (c # s) =
     (if is_digit c \<or> hex \<and> is_hex c then underscores_from hex CHR ''0'' s
      else if c = CHR ''_'' then saw = CHR ''0'' \<and> underscores_from hex CHR ''_'' s
      else saw \<noteq> CHR ''_'' \<and> underscores_from hex CHR ''!'' s)"

definition base_prefix :: "string \<Rightarrow> (nat \<times> string) option" where
  "base_prefix s =
     (case s of
        z # x # rest \<Rightarrow>
          if z \<noteq> CHR ''0'' then None
          else if lower_char x = CHR ''b'' then Some (2, rest)
          else if lower_char x = CHR ''o'' then Some (8, rest)
          else if lower_char x = CHR ''x'' then Some (16, rest)
          else None
      | _ \<Rightarrow> None)"

definition underscoreOK :: "string \<Rightarrow> bool" where
  "underscoreOK s =
     (case base_prefix s of
        Some (b, rest) \<Rightarrow> underscores_from (b = 16) CHR ''0'' rest
      | None \<Rightarrow> underscores_from False CHR ''^'' s)"

definition ParseUint0 :: "string \<Rightarrow> nat \<Rightarrow> nat option" where
  "ParseUint0 s bits =
     (if s = '''' then None
      else
        let (b, digits) = (if hd s \<noteq> CHR ''0'' then (10, s)
              else case base_prefix s of Some (b, rest) \<Rightarrow> if rest \<noteq> '''' then (b, rest) else (8, tl s) | None \<Rightarrow> (8, tl s))
        in case base_val b 0 digits of
             None \<Rightarrow> None
           | Some n \<Rightarrow> if n < 2 ^ bits \<and> (CHR ''_'' \<in> set s \<longrightarrow> underscoreOK s) then Some n else None)"

section \<open>String rewriters\<close>

record regexp =
  re_FindStringSubmatch :: "string \<Rightarrow> string list"
  re_NumSubexp :: nat

datatype stringRewriter =
    regexStringRewriter regexp string
  | remapStringRewriter string string
  | suffixStringRewriter string string

fun subst_groups :: "nat \<Rightarrow> string list \<Rightarrow> string \<Rightarrow> string" where
  "subst_groups i [] s = s"
| "subst_groups i (g # gs) s = subst_groups (i + 1) gs (ReplaceAll s (''{'' @ Itoa (int i) @ ''}'') g)"

fun rewriteString :: "stringRewriter \<Rightarrow> string \<Rightarrow> string" where
  "rewriteString (regexStringRewriter pattern replacement) src =
     (let groups = re_FindStringSubmatch pattern src in if groups = [] then src else subst_groups 0 groups replacement)"
| "rewriteString (remapStringRewriter orig replacement) src =
     (if src = orig then replacement
      else if HasSuffix src (CHR ''.'' # orig) then take (length src - length orig) src @ replacement
      else src)"
| "rewriteString (suffixStringRewriter suffix replacement) src =
     (case CutSuffix src suffix of Some before \<Rightarrow> before @ replacement | None \<Rightarrow> src)"

section \<open>Response rules\<close>

definition ExactMatch :: string where "ExactMatch = ''exact''"
definition PrefixMatch :: string where "PrefixMatch = ''prefix''"
definition SuffixMatch :: string where "SuffixMatch = ''suffix''"
definition SubstringMatch :: string where "SubstringMatch = ''substring''"
definition RegexMatch :: string where "RegexMatch = ''regex''"
definition AnswerMatch :: string where "AnswerMatch = ''answer''"
definition AutoMatch :: string where "AutoMatch = ''auto''"
definition NameMatch :: string where "NameMatch = ''name''"
definition ValueMatch :: string where "ValueMatch = ''value''"

record cnameTargetRule =
  cn_rewriteType :: string
  cn_paramFromTarget :: string
  cn_paramToTarget :: string
  cn_nextAction :: string
  cn_pattern :: "regexp option"

datatype ResponseRule =
    nameRewriterResponseRule stringRewriter
  | valueRewriterResponseRule stringRewriter
  | ttlResponseRule u32 u32
  | rcodeResponseRule nat nat
  | cnameTargetRuleWithReqState cnameTargetRule
  | edns0SetResponseRule u16
  | edns0ReplaceResponseRule u16 edns0

text \<open>A record whose type and data disagree fails the type assertion.\<close>

definition getRecordValueForRewrite :: "RR \<Rightarrow> string option" where
  "getRecordValueForRewrite rr =
     (if rr_Type rr = TypeSRV then (case rr_data rr of RD_SRV _ _ _ target \<Rightarrow> Some target | _ \<Rightarrow> None)
      else if rr_Type rr = TypeMX then (case rr_data rr of RD_MX _ mx \<Rightarrow> Some mx | _ \<Rightarrow> None)
      else if rr_Type rr = TypeCNAME then (case rr_data rr of RD_CNAME target \<Rightarrow> Some target | _ \<Rightarrow> None)
      else if rr_Type rr = TypeNS then (case rr_data rr of RD_NS ns \<Rightarrow> Some ns | _ \<Rightarrow> None)
      else if rr_Type rr = TypeDNAME then (case rr_data rr of RD_DNAME target \<Rightarrow> Some target | _ \<Rightarrow> None)
      else if rr_Type rr = TypeNAPTR then (case rr_data rr of RD_NAPTR _ replacement \<Rightarrow> Some replacement | _ \<Rightarrow> None)
      else if rr_Type rr = TypeSOA then (case rr_data rr of RD_SOA ns _ _ _ _ _ _ \<Rightarrow> Some ns | _ \<Rightarrow> None)
      else if rr_Type rr = TypePTR then (case rr_data rr of RD_PTR ptr \<Rightarrow> Some ptr | _ \<Rightarrow> None)
      else Some '''')"

text \<open>It is called for records whose value was read, so the data fit the type.\<close>

definition setRewrittenRecordValue :: "string \<Rightarrow> RR \<Rightarrow> RR" where
  "setRewrittenRecordValue v rr =
     (case rr_data rr of
        RD_SRV a b c _ \<Rightarrow> rr\<lparr>rr_data := RD_SRV a b c v\<rparr>
      | RD_MX a _ \<Rightarrow> rr\<lparr>rr_data := RD_MX a v\<rparr>
      | RD_CNAME _ \<Rightarrow> rr\<lparr>rr_data := RD_CNAME v\<rparr>
      | RD_NS _ \<Rightarrow> rr\<lparr>rr_data := RD_NS v\<rparr>
      | RD_DNAME _ \<Rightarrow> rr\<lparr>rr_data := RD_DNAME v\<rparr>
      | RD_NAPTR a _ \<Rightarrow> rr\<lparr>rr_data := RD_NAPTR a v\<rparr>
      | RD_SOA _ b c d e f g \<Rightarrow> rr\<lparr>rr_data := RD_SOA v b c d e f g\<rparr>
      | RD_PTR _ \<Rightarrow> rr\<lparr>rr_data := RD_PTR v\<rparr>
      | _ \<Rightarrow> rr)"

text \<open>What the code takes from the context of a request.\<close>

record ctxt =
  x_client :: client
  x_local :: string
  x_metadata :: "string \<Rightarrow> string option"
  x_server :: "server option"
  x_loop :: nat
  x_options :: "u16 list"

text \<open>A reply under change.\<close>

record reply =
  rp_msg :: Msg
  rp_heap :: "RR list"
  rp_Answer :: "nat list"
  rp_Ns :: "nat list"
  rp_Extra :: "nat list"

definition Copy :: "Msg \<Rightarrow> reply" where
  "Copy m =
     (let n = length (m_Ns m); a = n + length (m_Answer m) in
      \<lparr>rp_msg = m, rp_heap = m_Ns m @ m_Answer m @ m_Extra m, rp_Answer = [n ..< a], rp_Ns = [0 ..< n], rp_Extra = [a ..< a + length (m_Extra m)]\<rparr>)"

definition reply_Msg :: "reply \<Rightarrow> Msg" where
  "reply_Msg p =
     (rp_msg p)\<lparr>m_Answer := map ((!) (rp_heap p)) (rp_Answer p), m_Ns := map ((!) (rp_heap p)) (rp_Ns p),
       m_Extra := map ((!) (rp_heap p)) (rp_Extra p)\<rparr>"

definition at_rr :: "nat \<Rightarrow> (RR \<Rightarrow> RR) \<Rightarrow> reply \<Rightarrow> reply" where
  "at_rr i f p = p\<lparr>rp_heap := (rp_heap p)[i := f (rp_heap p ! i)]\<rparr>"

definition opt_Options :: "RR \<Rightarrow> edns0 list" where
  "opt_Options opt = (case rr_data opt of RD_OPT os \<Rightarrow> os | _ \<Rightarrow> [])"

text \<open>Changing the options of the OPT record of a reply; there is a panic without one.\<close>

definition at_options :: "dnslib \<Rightarrow> (edns0 list \<Rightarrow> edns0 list) \<Rightarrow> reply \<Rightarrow> reply option" where
  "at_options D f p =
     (case IsEdns0 D (reply_Msg p) of
        None \<Rightarrow> None
      | Some opt \<Rightarrow>
          (case find (\<lambda>i. rp_heap p ! i = opt) (rp_Extra p) of
             Some i \<Rightarrow> Some (at_rr i (\<lambda>rr. rr\<lparr>rr_data := RD_OPT (f (opt_Options rr))\<rparr>) p)
           | None \<Rightarrow> Some p))"

fun remove_option :: "u16 \<Rightarrow> edns0 list \<Rightarrow> edns0 list" where
  "remove_option code [] = []"
| "remove_option code (opt # opts) = (if edns0_Option opt = code then opts else opt # remove_option code opts)"

fun put_option :: "u16 \<Rightarrow> edns0 \<Rightarrow> edns0 list \<Rightarrow> edns0 list" where
  "put_option code src [] = []"
| "put_option code src (opt # opts) = (if edns0_Option opt = code then src # opts else opt # put_option code src opts)"

definition getFromAndToTarget :: "cnameTargetRule \<Rightarrow> string \<Rightarrow> (string \<times> string) option" where
  "getFromAndToTarget r inputCName =
     (if cn_rewriteType r = ExactMatch then Some (cn_paramFromTarget r, cn_paramToTarget r)
      else if cn_rewriteType r = PrefixMatch then
        Some (case CutPrefix inputCName (cn_paramFromTarget r) of Some after \<Rightarrow> (inputCName, cn_paramToTarget r @ after) | None \<Rightarrow> ('''', ''''))
      else if cn_rewriteType r = SuffixMatch then
        Some (case CutSuffix inputCName (cn_paramFromTarget r) of Some before \<Rightarrow> (inputCName, before @ cn_paramToTarget r) | None \<Rightarrow> ('''', ''''))
      else if cn_rewriteType r = SubstringMatch then
        Some (if Contains inputCName (cn_paramFromTarget r) then (inputCName, ReplaceAll inputCName (cn_paramFromTarget r) (cn_paramToTarget r))
              else ('''', ''''))
      else if cn_rewriteType r = RegexMatch then
        (case cn_pattern r of
           None \<Rightarrow> None
         | Some pattern \<Rightarrow>
             let groups = re_FindStringSubmatch pattern inputCName in
             Some (if groups = [] then ('''', '''') else (inputCName, subst_groups 0 groups (cn_paramToTarget r))))
      else Some ('''', ''''))"

definition alias_target :: "RR \<Rightarrow> string option" where
  "alias_target rr = (case rr_data rr of RD_CNAME target \<Rightarrow> Some target | _ \<Rightarrow> None)"

text \<open>The aliases up to the rewritten one, which gets its new target.\<close>

fun keep_aliases :: "string \<Rightarrow> string \<Rightarrow> nat list \<Rightarrow> RR list \<Rightarrow> nat list \<times> RR list" where
  "keep_aliases fromTarget toTarget [] heap = ([], heap)"
| "keep_aliases fromTarget toTarget (i # is) heap =
     (case alias_target (heap ! i) of
        Some target \<Rightarrow>
          if target = fromTarget then ([i], heap[i := (heap ! i)\<lparr>rr_data := RD_CNAME toTarget\<rparr>])
          else (case keep_aliases fromTarget toTarget is heap of (js, heap') \<Rightarrow> (i # js, heap'))
      | None \<Rightarrow> keep_aliases fromTarget toTarget is heap)"

definition rewrite_cname :: "dnslib \<Rightarrow> ctxt \<Rightarrow> Msg \<Rightarrow> cnameTargetRule \<Rightarrow> reply \<Rightarrow> nat \<Rightarrow> reply option" where
  "rewrite_cname D x req rule p i =
     (let rr = rp_heap p ! i in
      if rr_Type rr \<noteq> TypeCNAME then Some p
      else
        case alias_target rr of
          Some target \<Rightarrow>
            (case getFromAndToTarget rule target of
               None \<Rightarrow> None
             | Some (fromTarget, toTarget) \<Rightarrow>
                 if target \<noteq> fromTarget then Some p
                 else
                   case Upstream_Lookup D (x_server x) (x_loop x) req toTarget (req_QType req) of
                     None \<Rightarrow> None
                   | Some (Inr (Some upRes)) \<Rightarrow>
                       let (kept, heap) = keep_aliases fromTarget toTarget (rp_Answer p) (rp_heap p) in
                       Some (p\<lparr>rp_heap := heap @ m_Answer upRes, rp_Answer := kept @ [length heap ..< length heap + length (m_Answer upRes)],
                         rp_msg := (rp_msg p)\<lparr>m_Truncated := m_Truncated upRes\<rparr>\<rparr>)
                   | Some _ \<Rightarrow> Some p)
        | None \<Rightarrow> Some p)"

definition ttl_RewriteResponse :: "u32 \<Rightarrow> u32 \<Rightarrow> RR \<Rightarrow> RR" where
  "ttl_RewriteResponse minTTL maxTTL rr =
     (if rr_Ttl rr < minTTL then rr\<lparr>rr_Ttl := minTTL\<rparr> else if rr_Ttl rr > maxTTL then rr\<lparr>rr_Ttl := maxTTL\<rparr> else rr)"

definition rcode_RewriteResponse :: "nat \<Rightarrow> nat \<Rightarrow> Msg \<Rightarrow> Msg" where
  "rcode_RewriteResponse old new res = (if old = m_Rcode res then res\<lparr>m_Rcode := new\<rparr> else res)"

fun RewriteResponse :: "dnslib \<Rightarrow> ctxt \<Rightarrow> Msg \<Rightarrow> ResponseRule \<Rightarrow> nat \<Rightarrow> reply \<Rightarrow> reply option" where
  "RewriteResponse D x req (nameRewriterResponseRule w) i p = Some (at_rr i (\<lambda>rr. rr\<lparr>rr_Name := rewriteString w (rr_Name rr)\<rparr>) p)"
| "RewriteResponse D x req (valueRewriterResponseRule w) i p =
     (case getRecordValueForRewrite (rp_heap p ! i) of
        None \<Rightarrow> None
      | Some v \<Rightarrow>
          if v \<noteq> '''' then
            let n = rewriteString w v in Some (if n \<noteq> v then at_rr i (setRewrittenRecordValue n) p else p)
          else Some p)"
| "RewriteResponse D x req (ttlResponseRule minTTL maxTTL) i p =
     Some (at_rr i (ttl_RewriteResponse minTTL maxTTL) p)"
| "RewriteResponse D x req (rcodeResponseRule old new) i p =
     Some (p\<lparr>rp_msg := rcode_RewriteResponse old new (rp_msg p)\<rparr>)"
| "RewriteResponse D x req (cnameTargetRuleWithReqState rule) i p = rewrite_cname D x req rule p i"
| "RewriteResponse D x req (edns0SetResponseRule code) i p = at_options D (remove_option code) p"
| "RewriteResponse D x req (edns0ReplaceResponseRule code src) i p = at_options D (put_option code src) p"

text \<open>The rules are applied in reverse order.\<close>

fun rewriteResourceRecord :: "dnslib \<Rightarrow> ctxt \<Rightarrow> Msg \<Rightarrow> ResponseRule list \<Rightarrow> nat \<Rightarrow> reply \<Rightarrow> reply option" where
  "rewriteResourceRecord D x req [] i p = Some p"
| "rewriteResourceRecord D x req (rule # rules) i p =
     Option.bind (rewriteResourceRecord D x req rules i p) (RewriteResponse D x req rule i)"

fun rewrite_records :: "dnslib \<Rightarrow> ctxt \<Rightarrow> Msg \<Rightarrow> ResponseRule list \<Rightarrow> nat list \<Rightarrow> reply \<Rightarrow> reply option" where
  "rewrite_records D x req rules [] p = Some p"
| "rewrite_records D x req rules (i # is) p =
     Option.bind (rewriteResourceRecord D x req rules i p) (rewrite_records D x req rules is)"

record revertPolicy =
  pol_noRevert :: bool
  pol_noRestore :: bool

definition DoRevert :: "revertPolicy \<Rightarrow> bool" where "DoRevert p = (\<not> pol_noRevert p)"
definition DoQuestionRestore :: "revertPolicy \<Rightarrow> bool" where "DoQuestionRestore p = (\<not> pol_noRestore p)"
definition NoRevertPolicy :: revertPolicy where "NoRevertPolicy = \<lparr>pol_noRevert = True, pol_noRestore = False\<rparr>"
definition NoRestorePolicy :: revertPolicy where "NoRestorePolicy = \<lparr>pol_noRevert = False, pol_noRestore = True\<rparr>"

definition NewRevertPolicy :: "bool \<Rightarrow> bool \<Rightarrow> revertPolicy" where
  "NewRevertPolicy noRevert noRestore = \<lparr>pol_noRevert = noRevert, pol_noRestore = noRestore\<rparr>"

record ResponseReverter =
  rv_originalQuestion :: Question
  rv_ResponseRules :: "ResponseRule list"
  rv_revertPolicy :: revertPolicy

text \<open>A message without a question panics.\<close>

definition NewResponseReverter :: "Msg \<Rightarrow> revertPolicy \<Rightarrow> ResponseReverter option" where
  "NewResponseReverter r policy =
     (case m_Question r of
        [] \<Rightarrow> None
      | q # _ \<Rightarrow> Some \<lparr>rv_originalQuestion = q, rv_ResponseRules = [], rv_revertPolicy = policy\<rparr>)"

definition restore_question :: "ResponseReverter \<Rightarrow> Msg \<Rightarrow> Msg option" where
  "restore_question rv res =
     (if DoQuestionRestore (rv_revertPolicy rv) then
        (case m_Question res of [] \<Rightarrow> None | _ # qs \<Rightarrow> Some (res\<lparr>m_Question := rv_originalQuestion rv # qs\<rparr>))
      else Some res)"

definition Reverter_WriteMsg :: "dnslib \<Rightarrow> ctxt \<Rightarrow> Msg \<Rightarrow> ResponseReverter \<Rightarrow> Msg \<Rightarrow> Msg option" where
  "Reverter_WriteMsg D x req rv res1 =
     (case restore_question rv res1 of
        None \<Rightarrow> None
      | Some res \<Rightarrow>
          if rv_ResponseRules rv = [] then Some res
          else
            let go = rewrite_records D x req (rv_ResponseRules rv); p = Copy res in
            map_option reply_Msg
              (Option.bind (go (rp_Ns p) p) (\<lambda>p. Option.bind (go (rp_Answer p) p) (\<lambda>p. go (rp_Extra p) p))))"

section \<open>Rules\<close>

datatype rw_result = RewriteIgnored | RewriteDone

definition Rule_Stop :: string where "Rule_Stop = ''stop''"
definition Rule_Continue :: string where "Rule_Continue = ''continue''"

definition Edns0_Replace :: string where "Edns0_Replace = ''replace''"
definition Edns0_Set :: string where "Edns0_Set = ''set''"
definition Edns0_Append :: string where "Edns0_Append = ''append''"
definition Edns0_Unset :: string where "Edns0_Unset = ''unset''"

record nameRuleBase =
  nb_nextAction :: string
  nb_auto :: bool
  nb_replacement :: string
  nb_static :: "ResponseRule list"

record ttlRuleBase =
  tb_nextAction :: string
  tb_response :: "u32 \<times> u32"

record rcodeRuleBase =
  cb_nextAction :: string
  cb_response :: "nat \<times> nat"

record local_rule =
  el_mode :: string
  el_action :: string
  el_code :: u16
  el_data :: string
  el_revert :: bool

record variable_rule =
  ev_mode :: string
  ev_action :: string
  ev_code :: u16
  ev_variable :: string
  ev_revert :: bool

record subnet_rule =
  es_mode :: string
  es_v4BitMaskLen :: nat
  es_v6BitMaskLen :: nat
  es_action :: string
  es_revert :: bool

datatype Rule =
    exactNameRule nameRuleBase string
  | prefixNameRule nameRuleBase string
  | suffixNameRule nameRuleBase string
  | substringNameRule nameRuleBase string
  | regexNameRule nameRuleBase regexp
  | classRule u16 u16 string
  | typeRule u16 u16 string
  | exactTTLRule ttlRuleBase string
  | prefixTTLRule ttlRuleBase string
  | suffixTTLRule ttlRuleBase string
  | substringTTLRule ttlRuleBase string
  | regexTTLRule ttlRuleBase regexp
  | exactRCodeRule rcodeRuleBase string
  | prefixRCodeRule rcodeRuleBase string
  | suffixRCodeRule rcodeRuleBase string
  | substringRCodeRule rcodeRuleBase string
  | regexRCodeRule rcodeRuleBase regexp
  | cnameRule cnameTargetRule
  | edns0NsidRule string string bool
  | edns0LocalRule local_rule
  | edns0VariableRule variable_rule
  | edns0SubnetRule subnet_rule

fun rule_Mode :: "Rule \<Rightarrow> string" where
  "rule_Mode (exactNameRule b _) = nb_nextAction b"
| "rule_Mode (prefixNameRule b _) = nb_nextAction b"
| "rule_Mode (suffixNameRule b _) = nb_nextAction b"
| "rule_Mode (substringNameRule b _) = nb_nextAction b"
| "rule_Mode (regexNameRule b _) = nb_nextAction b"
| "rule_Mode (classRule _ _ a) = a"
| "rule_Mode (typeRule _ _ a) = a"
| "rule_Mode (exactTTLRule b _) = tb_nextAction b"
| "rule_Mode (prefixTTLRule b _) = tb_nextAction b"
| "rule_Mode (suffixTTLRule b _) = tb_nextAction b"
| "rule_Mode (substringTTLRule b _) = tb_nextAction b"
| "rule_Mode (regexTTLRule b _) = tb_nextAction b"
| "rule_Mode (exactRCodeRule b _) = cb_nextAction b"
| "rule_Mode (prefixRCodeRule b _) = cb_nextAction b"
| "rule_Mode (suffixRCodeRule b _) = cb_nextAction b"
| "rule_Mode (substringRCodeRule b _) = cb_nextAction b"
| "rule_Mode (regexRCodeRule b _) = cb_nextAction b"
| "rule_Mode (cnameRule r) = cn_nextAction r"
| "rule_Mode (edns0NsidRule m _ _) = m"
| "rule_Mode (edns0LocalRule r) = el_mode r"
| "rule_Mode (edns0VariableRule r) = ev_mode r"
| "rule_Mode (edns0SubnetRule r) = es_mode r"

text \<open>What a rule makes of the request, the response rules it leaves, and whether it did anything.\<close>

type_synonym rewritten = "Msg \<times> ResponseRule list \<times> rw_result"

definition at_question :: "(Question \<Rightarrow> Question) \<Rightarrow> Msg \<Rightarrow> Msg option" where
  "at_question f r = (case m_Question r of [] \<Rightarrow> None | q # qs \<Rightarrow> Some (r\<lparr>m_Question := f q # qs\<rparr>))"

definition first_name :: "Msg \<Rightarrow> string" where
  "first_name r = (case m_Question r of [] \<Rightarrow> '''' | q # _ \<Rightarrow> q_Name q)"

text \<open>The name that the request had when the rule looked at it is kept by the accessor.\<close>

definition responseRuleFor :: "nameRuleBase \<Rightarrow> string \<Rightarrow> Msg \<Rightarrow> ResponseRule list" where
  "responseRuleFor b name r =
     (if \<not> nb_auto b then nb_static b
      else let rewriter = remapStringRewriter (first_name r) name
           in [nameRewriterResponseRule rewriter, valueRewriterResponseRule rewriter] @ nb_static b)"

definition rename :: "dnslib \<Rightarrow> nameRuleBase \<Rightarrow> string \<Rightarrow> Msg \<Rightarrow> rewritten option" where
  "rename D b name r =
     map_option (\<lambda>r'. (r', responseRuleFor b (req_Name D r) r', RewriteDone)) (at_question (\<lambda>q. q\<lparr>q_Name := name\<rparr>) r)"

definition ignored :: "Msg \<Rightarrow> rewritten option" where
  "ignored r = Some (r, [], RewriteIgnored)"

definition ttl_responseRule :: "ttlRuleBase \<Rightarrow> bool \<Rightarrow> Msg \<Rightarrow> rewritten option" where
  "ttl_responseRule b match r =
     (if match then Some (r, [ttlResponseRule (fst (tb_response b)) (snd (tb_response b))], RewriteDone) else ignored r)"

definition rcode_responseRule :: "rcodeRuleBase \<Rightarrow> bool \<Rightarrow> Msg \<Rightarrow> rewritten option" where
  "rcode_responseRule b match r =
     (if match then Some (r, [rcodeResponseRule (fst (cb_response b)) (snd (cb_response b))], RewriteDone) else ignored r)"

text \<open>
  The OPT record of the request, made if it is missing, and the request with other options in it. A nil record panics.
\<close>

definition setupEdns0Opt :: "dnslib \<Rightarrow> Msg \<Rightarrow> (Msg \<times> RR) option" where
  "setupEdns0Opt D r =
     (case IsEdns0 D r of
        Some opt \<Rightarrow> Some (r, opt)
      | None \<Rightarrow> let r = SetEdns0 D r 4096 False in map_option (Pair r) (IsEdns0 D r))"

definition with_options :: "RR \<Rightarrow> edns0 list \<Rightarrow> Msg \<Rightarrow> Msg" where
  "with_options opt opts r = r\<lparr>m_Extra := replace_rr opt (opt\<lparr>rr_data := RD_OPT opts\<rparr>) (m_Extra r)\<rparr>"

definition unsetEdns0Option :: "u16 \<Rightarrow> edns0 list \<Rightarrow> edns0 list" where
  "unsetEdns0Option code opts = filter (\<lambda>opt. edns0_Option opt \<noteq> code) opts"

text \<open>The first option that a test accepts, and the list with it changed.\<close>

fun change_first :: "(edns0 \<Rightarrow> bool) \<Rightarrow> (edns0 \<Rightarrow> edns0) \<Rightarrow> edns0 list \<Rightarrow> (edns0 \<times> edns0 list) option" where
  "change_first P f [] = None"
| "change_first P f (opt # opts) =
     (if P opt then Some (opt, f opt # opts) else map_option (\<lambda>(old, opts'). (old, opt # opts')) (change_first P f opts))"

definition is_nsid :: "edns0 \<Rightarrow> bool" where
  "is_nsid opt = (case opt of EDNS0_NSID _ \<Rightarrow> True | _ \<Rightarrow> False)"

definition is_local :: "u16 \<Rightarrow> edns0 \<Rightarrow> bool" where
  "is_local code opt = (case opt of EDNS0_LOCAL c _ \<Rightarrow> c = code | _ \<Rightarrow> False)"

definition is_subnet :: "edns0 \<Rightarrow> bool" where
  "is_subnet opt = (case opt of EDNS0_SUBNET _ _ _ _ \<Rightarrow> True | _ \<Rightarrow> False)"

definition nsid_Rewrite :: "dnslib \<Rightarrow> string \<Rightarrow> bool \<Rightarrow> Msg \<Rightarrow> rewritten option" where
  "nsid_Rewrite D action revert r =
     (case setupEdns0Opt D r of
        None \<Rightarrow> None
      | Some (r, opt) \<Rightarrow>
          let opts = opt_Options opt;
              found = (if action = Edns0_Replace \<or> action = Edns0_Set then change_first is_nsid (\<lambda>_. EDNS0_NSID '''') opts else None) in
          if action = Edns0_Unset then Some (with_options opt (unsetEdns0Option EDNS0NSID opts) r, [], RewriteDone)
          else
            case found of
              Some (old, opts') \<Rightarrow> Some (with_options opt opts' r, if revert then [edns0ReplaceResponseRule EDNS0NSID old] else [], RewriteDone)
            | None \<Rightarrow>
                if action = Edns0_Append \<or> action = Edns0_Set then
                  Some (with_options opt (opts @ [EDNS0_NSID '''']) r, if revert then [edns0SetResponseRule EDNS0NSID] else [], RewriteDone)
                else ignored r)"

definition local_Rewrite :: "dnslib \<Rightarrow> local_rule \<Rightarrow> Msg \<Rightarrow> rewritten option" where
  "local_Rewrite D rule r =
     (case setupEdns0Opt D r of
        None \<Rightarrow> None
      | Some (r, opt) \<Rightarrow>
          let opts = opt_Options opt; action = el_action rule; new = EDNS0_LOCAL (el_code rule) (el_data rule);
              found = (if action = Edns0_Replace \<or> action = Edns0_Set then change_first (is_local (el_code rule)) (\<lambda>_. new) opts else None) in
          if action = Edns0_Unset then Some (with_options opt (unsetEdns0Option (el_code rule) opts) r, [], RewriteDone)
          else
            case found of
              Some (old, opts') \<Rightarrow>
                Some (with_options opt opts' r, if el_revert rule then [edns0ReplaceResponseRule (el_code rule) old] else [], RewriteDone)
            | None \<Rightarrow>
                if action = Edns0_Append \<or> action = Edns0_Set then
                  Some (with_options opt (opts @ [new]) r, if el_revert rule then [edns0SetResponseRule (el_code rule)] else [], RewriteDone)
                else ignored r)"

definition ipToWire :: "nat \<Rightarrow> string \<Rightarrow> string option" where
  "ipToWire family ipAddr =
     (let ip = (case ParseIP ipAddr of Some a \<Rightarrow> a | None \<Rightarrow> []); wire = (if family = 1 then To4 ip else if family = 2 then To16 ip else [])
      in if wire = [] then None else Some (map char_of wire))"

definition uint16ToWire :: "u16 \<Rightarrow> string" where
  "uint16ToWire d = [char_of (unat (drop_bit 8 d)), char_of (unat (take_bit 8 d))]"

definition portToWire :: "string \<Rightarrow> string option" where
  "portToWire portStr = map_option (\<lambda>n. uint16ToWire (of_int n)) (ParseUint portStr 16)"

text \<open>\<open>None\<close> stands for an error and for nil: the rule ignores the request in both cases.\<close>

definition ruleData :: "dnslib \<Rightarrow> ctxt \<Rightarrow> string \<Rightarrow> Msg \<Rightarrow> string option" where
  "ruleData D x variable r =
     (let c = x_client x in
      if variable = ''{qname}'' then Some (req_QName D r)
      else if variable = ''{qtype}'' then Some (uint16ToWire (req_QType r))
      else if variable = ''{client_ip}'' then ipToWire (req_Family c) (req_IP (cl_text c))
      else if variable = ''{server_ip}'' then ipToWire (req_Family c) (req_LocalIP (x_local x))
      else if variable = ''{client_port}'' then portToWire (req_Port c)
      else if variable = ''{server_port}'' then portToWire (req_LocalPort (x_local x))
      else if variable = ''{protocol}'' then Some (req_Proto c)
      else
        case x_metadata x (butlast (tl variable)) of
          Some v \<Rightarrow> if v \<noteq> '''' then Some v else None
        | None \<Rightarrow> None)"

definition variable_Rewrite :: "dnslib \<Rightarrow> ctxt \<Rightarrow> variable_rule \<Rightarrow> Msg \<Rightarrow> rewritten option" where
  "variable_Rewrite D x rule r =
     (case ruleData D x (ev_variable rule) r of
        None \<Rightarrow> ignored r
      | Some d \<Rightarrow>
          (case setupEdns0Opt D r of
             None \<Rightarrow> None
           | Some (r, opt) \<Rightarrow>
               let opts = opt_Options opt; action = ev_action rule; new = EDNS0_LOCAL (ev_code rule) d in
               case change_first (is_local (ev_code rule)) (\<lambda>_. new) opts of
                 Some (old, opts') \<Rightarrow>
                   if action = Edns0_Replace \<or> action = Edns0_Set then
                     Some (with_options opt opts' r, if ev_revert rule then [edns0ReplaceResponseRule (ev_code rule) old] else [], RewriteDone)
                   else ignored r
               | None \<Rightarrow>
                   if action = Edns0_Append \<or> action = Edns0_Set then
                     Some (with_options opt (opts @ [new]) r, if ev_revert rule then [edns0SetResponseRule (ev_code rule)] else [], RewriteDone)
                   else ignored r))"

text \<open>The family is 1 or 2 (\<^verbatim>\<open>req_Family\<close>), so there is no error.\<close>

definition fillEcsData :: "subnet_rule \<Rightarrow> client \<Rightarrow> edns0" where
  "fillEcsData rule c =
     (let ip = (case ParseIP (req_IP (cl_text c)) of Some a \<Rightarrow> a | None \<Rightarrow> []) in
      if req_Family c = 1 then
        EDNS0_SUBNET 1 (of_nat (es_v4BitMaskLen rule)) 0 (To4 (IP_Mask ip (CIDRMask (es_v4BitMaskLen rule) 32)))
      else
        EDNS0_SUBNET 2 (of_nat (es_v6BitMaskLen rule)) 0 (To16 (IP_Mask ip (CIDRMask (es_v6BitMaskLen rule) 128))))"

definition subnet_Rewrite :: "dnslib \<Rightarrow> ctxt \<Rightarrow> subnet_rule \<Rightarrow> Msg \<Rightarrow> rewritten option" where
  "subnet_Rewrite D x rule r =
     (case setupEdns0Opt D r of
        None \<Rightarrow> None
      | Some (r, opt) \<Rightarrow>
          let opts = opt_Options opt; action = es_action rule; new = fillEcsData rule (x_client x) in
          if action = Edns0_Unset then Some (with_options opt (unsetEdns0Option EDNS0SUBNET opts) r, [], RewriteDone)
          else
            case change_first is_subnet (\<lambda>_. new) opts of
              Some (old, opts') \<Rightarrow>
                if action = Edns0_Replace \<or> action = Edns0_Set then
                  Some (with_options opt opts' r, if es_revert rule then [edns0ReplaceResponseRule EDNS0SUBNET old] else [], RewriteDone)
                else ignored r
            | None \<Rightarrow>
                if action = Edns0_Append \<or> action = Edns0_Set then
                  Some (with_options opt (opts @ [new]) r, if es_revert rule then [edns0SetResponseRule EDNS0SUBNET] else [], RewriteDone)
                else ignored r)"

definition class_Rewrite :: "u16 \<Rightarrow> u16 \<Rightarrow> Msg \<Rightarrow> rewritten option" where
  [simp]: "class_Rewrite fromClass toClass r =
     (if fromClass > 0 \<and> toClass > 0 then
        (case m_Question r of
           [] \<Rightarrow> None
         | q # qs \<Rightarrow> if q_Class q = fromClass then Some (r\<lparr>m_Question := q\<lparr>q_Class := toClass\<rparr> # qs\<rparr>, [], RewriteDone) else ignored r)
      else ignored r)"

definition type_Rewrite :: "u16 \<Rightarrow> u16 \<Rightarrow> Msg \<Rightarrow> rewritten option" where
  [simp]: "type_Rewrite fromType toType r =
     (if fromType > 0 \<and> toType > 0 \<and> req_QType r = fromType then
        map_option (\<lambda>r'. (r', [], RewriteDone)) (at_question (\<lambda>q. q\<lparr>q_Type := toType\<rparr>) r)
      else ignored r)"

definition exactTTL_Rewrite :: "dnslib \<Rightarrow> ttlRuleBase \<Rightarrow> string \<Rightarrow> Msg \<Rightarrow> rewritten option" where
  [simp]: "exactTTL_Rewrite D b from_name r = ttl_responseRule b (from_name = req_Name D r) r"

definition prefixTTL_Rewrite :: "dnslib \<Rightarrow> ttlRuleBase \<Rightarrow> string \<Rightarrow> Msg \<Rightarrow> rewritten option" where
  [simp]: "prefixTTL_Rewrite D b pre r = ttl_responseRule b (HasPrefix (req_Name D r) pre) r"

definition suffixTTL_Rewrite :: "dnslib \<Rightarrow> ttlRuleBase \<Rightarrow> string \<Rightarrow> Msg \<Rightarrow> rewritten option" where
  [simp]: "suffixTTL_Rewrite D b suf r = ttl_responseRule b (HasSuffix (req_Name D r) suf) r"

definition substringTTL_Rewrite :: "dnslib \<Rightarrow> ttlRuleBase \<Rightarrow> string \<Rightarrow> Msg \<Rightarrow> rewritten option" where
  [simp]: "substringTTL_Rewrite D b sub r = ttl_responseRule b (Contains (req_Name D r) sub) r"

definition regexTTL_Rewrite :: "dnslib \<Rightarrow> ttlRuleBase \<Rightarrow> regexp \<Rightarrow> Msg \<Rightarrow> rewritten option" where
  [simp]: "regexTTL_Rewrite D b pattern r = ttl_responseRule b (re_FindStringSubmatch pattern (req_Name D r) \<noteq> []) r"

definition exactRCode_Rewrite :: "dnslib \<Rightarrow> rcodeRuleBase \<Rightarrow> string \<Rightarrow> Msg \<Rightarrow> rewritten option" where
  [simp]: "exactRCode_Rewrite D b from_name r = rcode_responseRule b (from_name = req_Name D r) r"

definition prefixRCode_Rewrite :: "dnslib \<Rightarrow> rcodeRuleBase \<Rightarrow> string \<Rightarrow> Msg \<Rightarrow> rewritten option" where
  [simp]: "prefixRCode_Rewrite D b pre r = rcode_responseRule b (HasPrefix (req_Name D r) pre) r"

definition suffixRCode_Rewrite :: "dnslib \<Rightarrow> rcodeRuleBase \<Rightarrow> string \<Rightarrow> Msg \<Rightarrow> rewritten option" where
  [simp]: "suffixRCode_Rewrite D b suf r = rcode_responseRule b (HasSuffix (req_Name D r) suf) r"

definition substringRCode_Rewrite :: "dnslib \<Rightarrow> rcodeRuleBase \<Rightarrow> string \<Rightarrow> Msg \<Rightarrow> rewritten option" where
  [simp]: "substringRCode_Rewrite D b sub r = rcode_responseRule b (Contains (req_Name D r) sub) r"

definition regexRCode_Rewrite :: "dnslib \<Rightarrow> rcodeRuleBase \<Rightarrow> regexp \<Rightarrow> Msg \<Rightarrow> rewritten option" where
  [simp]: "regexRCode_Rewrite D b pattern r = rcode_responseRule b (re_FindStringSubmatch pattern (req_Name D r) \<noteq> []) r"

definition cname_Rewrite :: "cnameTargetRule \<Rightarrow> Msg \<Rightarrow> rewritten option" where
  [simp]: "cname_Rewrite rule r =
     (if cn_rewriteType rule \<noteq> '''' \<and> cn_paramFromTarget rule \<noteq> '''' \<and> cn_paramToTarget rule \<noteq> ''''
      then Some (r, [cnameTargetRuleWithReqState rule], RewriteDone) else ignored r)"

fun rule_Rewrite :: "dnslib \<Rightarrow> ctxt \<Rightarrow> Rule \<Rightarrow> Msg \<Rightarrow> rewritten option" where
  "rule_Rewrite D x (exactNameRule b from_name) r = (if from_name = req_Name D r then rename D b (nb_replacement b) r else ignored r)"
| "rule_Rewrite D x (prefixNameRule b pre) r =
     (case CutPrefix (req_Name D r) pre of Some after \<Rightarrow> rename D b (nb_replacement b @ after) r | None \<Rightarrow> ignored r)"
| "rule_Rewrite D x (suffixNameRule b suf) r =
     (case CutSuffix (req_Name D r) suf of Some before \<Rightarrow> rename D b (before @ nb_replacement b) r | None \<Rightarrow> ignored r)"
| "rule_Rewrite D x (substringNameRule b sub) r =
     (if Contains (req_Name D r) sub then rename D b (ReplaceAll (req_Name D r) sub (nb_replacement b)) r else ignored r)"
| "rule_Rewrite D x (regexNameRule b pattern) r =
     (let groups = re_FindStringSubmatch pattern (req_Name D r) in
      if groups = [] then ignored r else rename D b (subst_groups 0 groups (nb_replacement b)) r)"
| "rule_Rewrite D x (classRule fromClass toClass _) r = class_Rewrite fromClass toClass r"
| "rule_Rewrite D x (typeRule fromType toType _) r = type_Rewrite fromType toType r"
| "rule_Rewrite D x (exactTTLRule b from_name) r = exactTTL_Rewrite D b from_name r"
| "rule_Rewrite D x (prefixTTLRule b pre) r = prefixTTL_Rewrite D b pre r"
| "rule_Rewrite D x (suffixTTLRule b suf) r = suffixTTL_Rewrite D b suf r"
| "rule_Rewrite D x (substringTTLRule b sub) r = substringTTL_Rewrite D b sub r"
| "rule_Rewrite D x (regexTTLRule b pattern) r = regexTTL_Rewrite D b pattern r"
| "rule_Rewrite D x (exactRCodeRule b from_name) r = exactRCode_Rewrite D b from_name r"
| "rule_Rewrite D x (prefixRCodeRule b pre) r = prefixRCode_Rewrite D b pre r"
| "rule_Rewrite D x (suffixRCodeRule b suf) r = suffixRCode_Rewrite D b suf r"
| "rule_Rewrite D x (substringRCodeRule b sub) r = substringRCode_Rewrite D b sub r"
| "rule_Rewrite D x (regexRCodeRule b pattern) r = regexRCode_Rewrite D b pattern r"
| "rule_Rewrite D x (cnameRule rule) r = cname_Rewrite rule r"
| "rule_Rewrite D x (edns0NsidRule _ action revert) r = nsid_Rewrite D action revert r"
| "rule_Rewrite D x (edns0LocalRule rule) r = local_Rewrite D rule r"
| "rule_Rewrite D x (edns0VariableRule rule) r = variable_Rewrite D x rule r"
| "rule_Rewrite D x (edns0SubnetRule rule) r = subnet_Rewrite D x rule r"

section \<open>The handler\<close>

text \<open>The loop over the rules ends with a name that is not valid, with a rule that stops, or with the last rule.\<close>

datatype rules_end =
    Invalid_name
  | Stopped Msg "ResponseRule list"
  | All_done Msg "ResponseRule list"

fun apply_rules :: "dnslib \<Rightarrow> ctxt \<Rightarrow> Rule list \<Rightarrow> ResponseRule list \<Rightarrow> Msg \<Rightarrow> rules_end option" where
  "apply_rules D x [] acc r = Some (All_done r acc)"
| "apply_rules D x (rule # rules) acc r =
     (case rule_Rewrite D x rule r of
        None \<Rightarrow> None
      | Some (r', resp, RewriteDone) \<Rightarrow>
          if \<not> IsDomainName D (first_name r') then Some Invalid_name
          else if rule_Mode rule = Rule_Stop then Some (Stopped r' (acc @ resp))
          else apply_rules D x rules (acc @ resp) r'
      | Some (r', resp, RewriteIgnored) \<Rightarrow> apply_rules D x rules acc r')"

fun write_reverted :: "(Msg \<Rightarrow> Msg option) \<Rightarrow> Msg list \<Rightarrow> Msg list option" where
  "write_reverted w [] = Some []"
| "write_reverted w (m # ms) = (case w m of None \<Rightarrow> None | Some m' \<Rightarrow> map_option ((#) m') (write_reverted w ms))"

text \<open>The next plugin behind the reverting writer.\<close>

definition next_reverted :: "dnslib \<Rightarrow> ctxt \<Rightarrow> ResponseReverter \<Rightarrow> handler option \<Rightarrow> Msg \<Rightarrow> answer option" where
  "next_reverted D x rv nxt r =
     (case NextOrFailure nxt r of
        None \<Rightarrow> None
      | Some (rcode, err, ws) \<Rightarrow> map_option (\<lambda>outs. (rcode, err, outs)) (write_reverted (Reverter_WriteMsg D x r rv) ws))"

definition Rewrite_ServeDNS :: "dnslib \<Rightarrow> ctxt \<Rightarrow> revertPolicy option \<Rightarrow> Rule list \<Rightarrow> handler option \<Rightarrow> handler" where
  "Rewrite_ServeDNS D x policy rules nxt r =
     (let policy = (case policy of Some p \<Rightarrow> p | None \<Rightarrow> NewRevertPolicy False False) in
      case NewResponseReverter r policy of
        None \<Rightarrow> None
      | Some wr \<Rightarrow>
          (case apply_rules D x rules [] r of
             None \<Rightarrow> None
           | Some Invalid_name \<Rightarrow> Some (RcodeServerFailure, True, [])
           | Some (Stopped r' resp) \<Rightarrow>
               if \<not> DoRevert policy then NextOrFailure nxt r'
               else
                 let wr = wr\<lparr>rv_ResponseRules := resp\<rparr> in
                 (case next_reverted D x wr nxt r' of
                    None \<Rightarrow> None
                  | Some (rcode, err, outs) \<Rightarrow>
                      if ClientWrite rcode then Some (rcode, err, outs)
                      else
                        let (_, r'', res) = SizeAndDo D (x_options x) r' (SetRcode D r' rcode) in
                        map_option (\<lambda>m. (RcodeSuccess, err, outs @ [m])) (Reverter_WriteMsg D x r'' wr res))
           | Some (All_done r' resp) \<Rightarrow>
               if \<not> DoRevert policy \<or> resp = [] then NextOrFailure nxt r'
               else next_reverted D x (wr\<lparr>rv_ResponseRules := resp\<rparr>) nxt r'))"

section \<open>Reading the rules\<close>

text \<open>\<open>None\<close> is an error of the configuration.\<close>

definition maxRegexpLen :: nat where "maxRegexpLen = 10000"

definition hasClosingDot :: "string \<Rightarrow> bool" where
  "hasClosingDot s = HasSuffix s ''.''"

definition getSubExprUsage :: "string \<Rightarrow> nat" where
  "getSubExprUsage s = length (filter (\<lambda>i. Contains s (''{'' @ Itoa (int i) @ ''}'')) [0 ..< 101])"

definition isValidRegexPattern :: "(string \<Rightarrow> regexp option) \<Rightarrow> string \<Rightarrow> string \<Rightarrow> regexp option" where
  "isValidRegexPattern compile rewriteFrom rewriteTo =
     (if length rewriteFrom > maxRegexpLen then None
      else case compile rewriteFrom of
        None \<Rightarrow> None
      | Some re \<Rightarrow> if getSubExprUsage rewriteTo > re_NumSubexp re then None else Some re)"

text \<open>The arguments left, the last type, and what was read so far: whether \<^verbatim>\<open>auto\<close> was seen, the number of name rules, the rules.\<close>

function (sequential) answer_loop ::
  "dnslib \<Rightarrow> (string \<Rightarrow> regexp option) \<Rightarrow> string list \<Rightarrow> string \<Rightarrow> bool \<Rightarrow> nat \<Rightarrow> ResponseRule list
     \<Rightarrow> (bool \<times> nat \<times> ResponseRule list) option" where
  "answer_loop D compile [] lst auto nameRules rules = Some (auto, nameRules, rules)"
| "answer_loop D compile (a # args) lst auto nameRules rules =
     (if lst = '''' \<and> a \<noteq> AnswerMatch then None
      else
        case (if a = AnswerMatch then args else a # args) of
          [] \<Rightarrow> None
        | t # rest \<Rightarrow>
            if t = AutoMatch then answer_loop D compile rest t True nameRules rules
            else if t = NameMatch then
              (case rest of
                 from_re # to # rest' \<Rightarrow>
                   (case isValidRegexPattern compile from_re to of
                      None \<Rightarrow> None
                    | Some re \<Rightarrow>
                        answer_loop D compile rest' t auto (nameRules + 1)
                          (rules @ [nameRewriterResponseRule (regexStringRewriter re (Name_Normalize D to))]))
               | _ \<Rightarrow> None)
            else if t = ValueMatch then
              (case rest of
                 from_re # to # rest' \<Rightarrow>
                   (case isValidRegexPattern compile from_re to of
                      None \<Rightarrow> None
                    | Some re \<Rightarrow>
                        answer_loop D compile rest' t auto nameRules
                          (rules @ [valueRewriterResponseRule (regexStringRewriter re (Name_Normalize D to))]))
               | _ \<Rightarrow> None)
            else None)"
  by pat_completeness auto
termination
  by (relation "measure (\<lambda>(_, _, args, _). length args)") (auto split: if_splits)

definition parseAnswerRules :: "dnslib \<Rightarrow> (string \<Rightarrow> regexp option) \<Rightarrow> string list \<Rightarrow> (bool \<times> ResponseRule list) option" where
  "parseAnswerRules D compile args =
     (if length args < 2 then None
      else case answer_loop D compile args '''' False 0 [] of
        None \<Rightarrow> None
      | Some (auto, nameRules, rules) \<Rightarrow> if auto \<and> nameRules > 0 then None else Some (auto, rules))"

definition newNameRuleBase :: "string \<Rightarrow> bool \<Rightarrow> string \<Rightarrow> ResponseRule list \<Rightarrow> nameRuleBase" where
  "newNameRuleBase nextAction auto replacement static =
     \<lparr>nb_nextAction = nextAction, nb_auto = auto, nb_replacement = replacement, nb_static = static\<rparr>"

definition newExactNameRule :: "string \<Rightarrow> string \<Rightarrow> string \<Rightarrow> ResponseRule list \<Rightarrow> Rule" where
  "newExactNameRule nextAction orig replacement answers = exactNameRule (newNameRuleBase nextAction True replacement answers) orig"

definition newPrefixNameRule :: "string \<Rightarrow> bool \<Rightarrow> string \<Rightarrow> string \<Rightarrow> ResponseRule list \<Rightarrow> Rule" where
  "newPrefixNameRule nextAction auto pre replacement answers = prefixNameRule (newNameRuleBase nextAction auto replacement answers) pre"

definition newSuffixNameRule :: "string \<Rightarrow> bool \<Rightarrow> string \<Rightarrow> string \<Rightarrow> ResponseRule list \<Rightarrow> Rule" where
  "newSuffixNameRule nextAction auto suf replacement answers =
     (let rewriter = suffixStringRewriter replacement suf;
          rules = (if auto then [nameRewriterResponseRule rewriter, valueRewriterResponseRule rewriter] else [])
      in suffixNameRule (newNameRuleBase nextAction False replacement (rules @ answers)) suf)"

definition newSubstringNameRule :: "string \<Rightarrow> bool \<Rightarrow> string \<Rightarrow> string \<Rightarrow> ResponseRule list \<Rightarrow> Rule" where
  "newSubstringNameRule nextAction auto sub replacement answers = substringNameRule (newNameRuleBase nextAction auto replacement answers) sub"

definition newRegexNameRule :: "string \<Rightarrow> bool \<Rightarrow> regexp \<Rightarrow> string \<Rightarrow> ResponseRule list \<Rightarrow> Rule" where
  "newRegexNameRule nextAction auto pattern replacement answers = regexNameRule (newNameRuleBase nextAction auto replacement answers) pattern"

text \<open>The kind of match and the two names, as the arguments give them.\<close>

definition name_args :: "dnslib \<Rightarrow> string list \<Rightarrow> string \<times> string \<times> string" where
  "name_args D args =
     (let (mt, from_name, to) =
        (if length args = 2 then (ExactMatch, Name_Normalize D (args ! 0), Name_Normalize D (args ! 1))
         else let mt = ToLower (args ! 0) in
           if mt = RegexMatch then (mt, args ! 1, args ! 2) else (mt, Name_Normalize D (args ! 1), Name_Normalize D (args ! 2)));
       close = (\<lambda>s. if (mt = ExactMatch \<or> mt = SuffixMatch) \<and> \<not> hasClosingDot s then s @ ''.'' else s)
      in (mt, close from_name, close to))"

definition newNameRule :: "dnslib \<Rightarrow> (string \<Rightarrow> regexp option) \<Rightarrow> string \<Rightarrow> string list \<Rightarrow> Rule option" where
  "newNameRule D compile nextAction args =
     (if length args < 2 then None
      else
        let (mt, from_name, to) = name_args D args in
        case (if length args > 3 then parseAnswerRules D compile (drop 3 args) else Some (False, [])) of
          None \<Rightarrow> None
        | Some (auto, answers) \<Rightarrow>
            if mt = ExactMatch then
              (case isValidRegexPattern compile to from_name of None \<Rightarrow> None | Some _ \<Rightarrow> Some (newExactNameRule nextAction from_name to answers))
            else if mt = PrefixMatch then Some (newPrefixNameRule nextAction auto from_name to answers)
            else if mt = SuffixMatch then Some (newSuffixNameRule nextAction auto from_name to answers)
            else if mt = SubstringMatch then Some (newSubstringNameRule nextAction auto from_name to answers)
            else if mt = RegexMatch then
              (case isValidRegexPattern compile from_name to of
                 None \<Rightarrow> None
               | Some re \<Rightarrow> Some (newRegexNameRule nextAction auto re (Name_Normalize D (args ! 2)) answers))
            else None)"

definition newClassRule :: "dnslib \<Rightarrow> string \<Rightarrow> string list \<Rightarrow> Rule option" where
  "newClassRule D nextAction args =
     (case (StringToClass D (ToUpper (args ! 0)), StringToClass D (ToUpper (args ! 1))) of
        (Some a, Some b) \<Rightarrow> Some (classRule a b nextAction)
      | _ \<Rightarrow> None)"

definition newTypeRule :: "dnslib \<Rightarrow> string \<Rightarrow> string list \<Rightarrow> Rule option" where
  "newTypeRule D nextAction args =
     (case (StringToType D (ToUpper (args ! 0)), StringToType D (ToUpper (args ! 1))) of
        (Some a, Some b) \<Rightarrow> Some (typeRule a b nextAction)
      | _ \<Rightarrow> None)"

definition isValidTTL :: "string \<Rightarrow> (u32 \<times> u32) option" where
  "isValidTTL v =
     (case Split v CHR ''-'' of
        [s] \<Rightarrow> map_option (\<lambda>i. (of_int i, of_int i)) (ParseUint s 32)
      | [s0, s1] \<Rightarrow>
          (case (if s0 = '''' then Some 0 else ParseUint s0 32) of
             None \<Rightarrow> None
           | Some lo \<Rightarrow>
               (case (if s1 = '''' then (if s0 = '''' then None else Some 2147483647) else ParseUint s1 32) of
                  None \<Rightarrow> None
                | Some hi \<Rightarrow> if lo > hi then None else Some (of_int lo, of_int hi)))
      | _ \<Rightarrow> None)"

definition newTTLRuleBase :: "string \<Rightarrow> u32 \<times> u32 \<Rightarrow> ttlRuleBase" where
  "newTTLRuleBase nextAction bounds = \<lparr>tb_nextAction = nextAction, tb_response = bounds\<rparr>"

definition compile_limited :: "(string \<Rightarrow> regexp option) \<Rightarrow> string \<Rightarrow> regexp option" where
  "compile_limited compile s = (if length s > maxRegexpLen then None else compile s)"

definition newTTLRule :: "dnslib \<Rightarrow> (string \<Rightarrow> regexp option) \<Rightarrow> string \<Rightarrow> string list \<Rightarrow> Rule option" where
  "newTTLRule D compile nextAction args =
     (if length args < 2 then None
      else
        case isValidTTL (if length args = 2 then args ! 1 else if length args = 3 then args ! 2 else '''') of
          None \<Rightarrow> None
        | Some bounds \<Rightarrow>
            let b = newTTLRuleBase nextAction bounds in
            if length args = 3 then
              let mt = ToLower (args ! 0); n = Name_Normalize D (args ! 1) in
              if mt = ExactMatch then Some (exactTTLRule b n)
              else if mt = PrefixMatch then Some (prefixTTLRule b n)
              else if mt = SuffixMatch then Some (suffixTTLRule b n)
              else if mt = SubstringMatch then Some (substringTTLRule b n)
              else if mt = RegexMatch then map_option (regexTTLRule b) (compile_limited compile (args ! 1))
              else None
            else if length args > 3 then None
            else Some (exactTTLRule b (Name_Normalize D (args ! 0))))"

definition isValidRCode :: "dnslib \<Rightarrow> string \<Rightarrow> nat option" where
  "isValidRCode D v =
     (case ParseUint v 32 of
        Some i \<Rightarrow> if i \<le> 23 then Some (nat i) else StringToRcode D (ToUpper v)
      | None \<Rightarrow> StringToRcode D (ToUpper v))"

definition newRCodeRuleBase :: "string \<Rightarrow> nat \<Rightarrow> nat \<Rightarrow> rcodeRuleBase" where
  "newRCodeRuleBase nextAction old new = \<lparr>cb_nextAction = nextAction, cb_response = (old, new)\<rparr>"

definition newRCodeRule :: "dnslib \<Rightarrow> (string \<Rightarrow> regexp option) \<Rightarrow> string \<Rightarrow> string list \<Rightarrow> Rule option" where
  "newRCodeRule D compile nextAction args =
     (if length args < 3 then None
      else
        let (oldStr, newStr) = (if length args = 3 then (args ! 1, args ! 2) else if length args = 4 then (args ! 2, args ! 3) else ('''', '''')) in
        case (isValidRCode D oldStr, isValidRCode D newStr) of
          (Some old, Some new) \<Rightarrow>
            let b = newRCodeRuleBase nextAction old new in
            if length args = 4 then
              let mt = ToLower (args ! 0); n = Name_Normalize D (args ! 1) in
              if mt = ExactMatch then Some (exactRCodeRule b n)
              else if mt = PrefixMatch then Some (prefixRCodeRule b n)
              else if mt = SuffixMatch then Some (suffixRCodeRule b n)
              else if mt = SubstringMatch then Some (substringRCodeRule b n)
              else if mt = RegexMatch then map_option (regexRCodeRule b) (compile_limited compile (args ! 1))
              else None
            else if length args > 4 then None
            else Some (exactRCodeRule b (Name_Normalize D (args ! 0)))
        | _ \<Rightarrow> None)"

definition newCNAMERule :: "(string \<Rightarrow> regexp option) \<Rightarrow> string \<Rightarrow> string list \<Rightarrow> Rule option" where
  "newCNAMERule compile nextAction args =
     (case (if length args = 3 then
              let t = ToLower (args ! 0) in
              if t \<in> {ExactMatch, PrefixMatch, SuffixMatch, SubstringMatch, RegexMatch} then Some (t, ToLower (args ! 1), ToLower (args ! 2)) else None
            else if length args = 2 then Some (ExactMatch, ToLower (args ! 0), ToLower (args ! 1))
            else None) of
        None \<Rightarrow> None
      | Some (t, from_target, to) \<Rightarrow>
          let rule = \<lparr>cn_rewriteType = t, cn_paramFromTarget = from_target, cn_paramToTarget = to, cn_nextAction = nextAction, cn_pattern = None\<rparr> in
          if t = RegexMatch then map_option (\<lambda>re. cnameRule (rule\<lparr>cn_pattern := Some re\<rparr>)) (compile_limited compile from_target)
          else Some (cnameRule rule))"

text \<open>A rule for local options also registers its code with the server, so the list of codes is threaded through.\<close>

definition newEdns0LocalRule :: "string \<Rightarrow> string \<Rightarrow> string \<Rightarrow> string \<Rightarrow> bool \<Rightarrow> u16 list \<Rightarrow> (Rule \<times> u16 list) option" where
  "newEdns0LocalRule mode action code data revert options =
     (case ParseUint0 code 16 of
        None \<Rightarrow> None
      | Some c \<Rightarrow>
          map_option (\<lambda>decoded. (edns0LocalRule \<lparr>el_mode = mode, el_action = action, el_code = of_nat c, el_data = decoded, el_revert = revert\<rparr>,
              SetSupportedOption (of_nat c) options))
            (if HasPrefix data ''0x'' then hex_DecodeString (drop 2 data) else Some data))"

definition IsLabel :: "string \<Rightarrow> bool" where
  "IsLabel label =
     (let p = length (takeWhile (\<lambda>c. c \<noteq> CHR ''/'') label) in CHR ''/'' \<in> set label \<and> 0 < p \<and> p < length label - 1)"

definition isValidVariable :: "string \<Rightarrow> bool" where
  "isValidVariable variable =
     (variable \<in> {''{qname}'', ''{qtype}'', ''{client_ip}'', ''{client_port}'', ''{protocol}'', ''{server_ip}'', ''{server_port}''}
      \<or> HasPrefix variable ''{'' \<and> HasSuffix variable ''}'' \<and> IsLabel (butlast (tl variable)))"

definition newEdns0VariableRule :: "string \<Rightarrow> string \<Rightarrow> string \<Rightarrow> string \<Rightarrow> bool \<Rightarrow> u16 list \<Rightarrow> (Rule \<times> u16 list) option" where
  "newEdns0VariableRule mode action code variable revert options =
     (case ParseUint0 code 16 of
        None \<Rightarrow> None
      | Some c \<Rightarrow>
          if \<not> isValidVariable variable then None
          else Some (edns0VariableRule \<lparr>ev_mode = mode, ev_action = action, ev_code = of_nat c, ev_variable = variable, ev_revert = revert\<rparr>,
            SetSupportedOption (of_nat c) options))"

definition newEdns0SubnetRule :: "string \<Rightarrow> string \<Rightarrow> string \<Rightarrow> string \<Rightarrow> bool \<Rightarrow> Rule option" where
  "newEdns0SubnetRule mode action v4 v6 revert =
     (case (ParseUint0 v4 16, ParseUint0 v6 16) of
        (Some v4Len, Some v6Len) \<Rightarrow>
          if v4Len > 32 \<or> v6Len > 128 then None
          else Some (edns0SubnetRule \<lparr>es_mode = mode, es_v4BitMaskLen = v4Len, es_v6BitMaskLen = v6Len, es_action = action, es_revert = revert\<rparr>)
      | _ \<Rightarrow> None)"

definition newEdns0UnsetRule :: "string \<Rightarrow> string \<Rightarrow> string \<Rightarrow> string list \<Rightarrow> u16 list \<Rightarrow> (Rule \<times> u16 list) option" where
  "newEdns0UnsetRule mode action ruleType args options =
     (if ruleType = ''local'' then
        (if length args \<noteq> 3 then None else newEdns0LocalRule mode action (args ! 2) '''' False options)
      else if ruleType = ''nsid'' then
        (if length args \<noteq> 2 then None else Some (edns0NsidRule mode action False, options))
      else if ruleType = ''subnet'' then
        (if length args \<noteq> 2 then None
         else Some (edns0SubnetRule \<lparr>es_mode = mode, es_v4BitMaskLen = 0, es_v6BitMaskLen = 0, es_action = action, es_revert = False\<rparr>, options))
      else None)"

definition newEdns0Rule :: "string \<Rightarrow> string list \<Rightarrow> u16 list \<Rightarrow> (Rule \<times> u16 list) option" where
  "newEdns0Rule mode args options =
     (if length args < 2 then None
      else
        let ruleType = ToLower (args ! 0); action = ToLower (args ! 1) in
        if action = Edns0_Unset then newEdns0UnsetRule mode action ruleType args options
        else if action \<notin> {Edns0_Append, Edns0_Replace, Edns0_Set} then None
        else
          let revert = (last args = ''revert''); args = (if revert then butlast args else args) in
          if ruleType = ''local'' then
            (if length args \<noteq> 4 then None
             else if HasPrefix (args ! 3) ''{'' \<and> HasSuffix (args ! 3) ''}'' then newEdns0VariableRule mode action (args ! 2) (args ! 3) revert options
             else newEdns0LocalRule mode action (args ! 2) (args ! 3) revert options)
          else if ruleType = ''nsid'' then (if length args \<noteq> 2 then None else Some (edns0NsidRule mode action revert, options))
          else if ruleType = ''subnet'' then
            (if length args \<noteq> 4 then None else map_option (\<lambda>rule. (rule, options)) (newEdns0SubnetRule mode action (args ! 2) (args ! 3) revert))
          else None)"

definition newRule :: "dnslib \<Rightarrow> (string \<Rightarrow> regexp option) \<Rightarrow> string list \<Rightarrow> u16 list \<Rightarrow> (Rule \<times> u16 list) option" where
  "newRule D compile args options =
     (case args of
        [] \<Rightarrow> None
      | a # rest \<Rightarrow>
          let arg0 = ToLower a; explicit = (arg0 = Rule_Continue \<or> arg0 = Rule_Stop); mode = (if arg0 = Rule_Continue then Rule_Continue else Rule_Stop) in
          if explicit \<and> rest = [] then None
          else
            let ruleType = (if explicit then ToLower (hd rest) else arg0); args = (if explicit then tl rest else rest);
                plain = map_option (\<lambda>rule. (rule, options)) in
            if ruleType = ''name'' then plain (newNameRule D compile mode args)
            else if ruleType = ''class'' then (if length args \<noteq> 2 then None else plain (newClassRule D mode args))
            else if ruleType = ''type'' then (if length args \<noteq> 2 then None else plain (newTypeRule D mode args))
            else if ruleType = ''edns0'' then newEdns0Rule mode args options
            else if ruleType = ''ttl'' then plain (newTTLRule D compile mode args)
            else if ruleType = ''cname'' then plain (newCNAMERule compile mode args)
            else if ruleType = ''rcode'' then plain (newRCodeRule D compile mode args)
            else None)"

fun rewriteParse :: "dnslib \<Rightarrow> (string \<Rightarrow> regexp option) \<Rightarrow> string list list \<Rightarrow> u16 list \<Rightarrow> (Rule list \<times> u16 list) option" where
  "rewriteParse D compile [] options = Some ([], options)"
| "rewriteParse D compile (args # lines) options =
     (case newRule D compile args options of
        None \<Rightarrow> None
      | Some (rule, options') \<Rightarrow> map_option (\<lambda>(rules, os). (rule # rules, os)) (rewriteParse D compile lines options'))"

section \<open>Names that end in a dot\<close>

lemma HasSuffix_dot: "HasSuffix s ''.'' \<longleftrightarrow> s \<noteq> '''' \<and> last s = CHR ''.''"
  by (cases s rule: rev_cases) (auto simp: HasSuffix_iff)

lemma dot_append: "HasSuffix (s @ t) ''.'' \<longleftrightarrow> (if t = '''' then HasSuffix s ''.'' else HasSuffix t ''.'')"
  by (simp add: HasSuffix_dot)

lemma ToLower_dot [simp]: "HasSuffix (ToLower s) ''.'' \<longleftrightarrow> HasSuffix s ''.''"
  by (cases s rule: rev_cases) (auto simp: HasSuffix_dot ToLower_def)

lemma replace_dot:
  assumes "HasSuffix s ''.''" and "HasSuffix new ''.'' \<or> old \<noteq> '''' \<and> last old \<noteq> CHR ''.''"
  shows "HasSuffix (replace_nonempty s old new) ''.''"
  using assms
proof (induction s old new rule: replace_nonempty.induct)
  case (1 s old new)
  consider "s = '''' \<or> old = ''''" | t where "s = old @ t" "old \<noteq> ''''" | "s \<noteq> ''''" "old \<noteq> ''''" "\<not> HasPrefix s old"
    by (auto simp: HasPrefix_iff)
  then show ?case
  proof cases
    case 1
    then show ?thesis using "1.prems" by (subst replace_nonempty.simps) simp
  next
    case 2
    have "replace_nonempty s old new = new @ replace_nonempty t old new"
      using 2 by (subst replace_nonempty.simps) (simp add: HasPrefix_iff)
    moreover have "HasSuffix (replace_nonempty t old new) ''.''" if "t \<noteq> ''''"
    proof -
      have "HasSuffix t ''.''" using that 2 "1.prems"(1) by (simp add: dot_append)
      then show ?thesis using 2 "1.IH"(1) "1.prems"(2) by (auto simp: HasPrefix_iff)
    qed
    moreover have "HasSuffix new ''.'' \<and> replace_nonempty t old new = ''''" if "t = ''''"
      using that 2 "1.prems" by (subst replace_nonempty.simps) (auto simp: HasSuffix_dot)
    ultimately show ?thesis by (cases "t = ''''") (auto simp: HasSuffix_dot)
  next
    case 3
    have eq: "replace_nonempty s old new = hd s # replace_nonempty (tl s) old new"
      using 3 by (subst replace_nonempty.simps) simp
    show ?thesis
    proof (cases "tl s = ''''")
      case True
      then have "s = ''.''" using "1.prems"(1) by (cases s) (auto simp: HasSuffix_dot)
      moreover have "replace_nonempty '''' old new = ''''" by (subst replace_nonempty.simps) simp
      ultimately show ?thesis using eq by (simp add: HasSuffix_dot)
    next
      case False
      then have "HasSuffix (tl s) ''.''" using "1.prems"(1) by (cases s) (auto simp: HasSuffix_dot)
      then have "HasSuffix (replace_nonempty (tl s) old new) ''.''" using 3 "1.IH"(2) "1.prems"(2) by auto
      then show ?thesis using eq by (simp add: HasSuffix_dot)
    qed
  qed
qed

lemma ReplaceAll_dot:
  "HasSuffix s ''.'' \<Longrightarrow> HasSuffix new ''.'' \<or> old \<noteq> '''' \<and> last old \<noteq> CHR ''.'' \<Longrightarrow> old \<noteq> '''' \<Longrightarrow> HasSuffix (ReplaceAll s old new) ''.''"
  by (simp add: ReplaceAll_def replace_dot)

lemma subst_groups_dot: "HasSuffix s ''.'' \<Longrightarrow> HasSuffix (subst_groups i gs s) ''.''"
  by (induction i gs s rule: subst_groups.induct) (simp_all add: ReplaceAll_dot)

text \<open>The rules that the configuration can make write names that end in a dot.\<close>

fun dotted_rule :: "Rule \<Rightarrow> bool" where
  "dotted_rule (exactNameRule b _) = HasSuffix (nb_replacement b) ''.''"
| "dotted_rule (prefixNameRule b _) = HasSuffix (nb_replacement b) ''.''"
| "dotted_rule (suffixNameRule b _) = HasSuffix (nb_replacement b) ''.''"
| "dotted_rule (substringNameRule b sub) = (HasSuffix (nb_replacement b) ''.'' \<and> HasSuffix sub ''.'')"
| "dotted_rule (regexNameRule b _) = HasSuffix (nb_replacement b) ''.''"
| "dotted_rule _ = True"

lemma Normalize_dot: "Fqdn_ok D \<Longrightarrow> HasSuffix (Name_Normalize D s) ''.''"
  by (simp add: Name_Normalize_def Fqdn_ok_def)

lemmas match_kinds = ExactMatch_def PrefixMatch_def SuffixMatch_def SubstringMatch_def RegexMatch_def

lemma newNameRule_dotted:
  assumes "Fqdn_ok D" and "newNameRule D compile nextAction args = Some rule"
  shows "dotted_rule rule"
proof -
  obtain mt from_name to where a: "name_args D args = (mt, from_name, to)" by (cases "name_args D args")
  have dot: "mt \<noteq> RegexMatch \<Longrightarrow> HasSuffix from_name ''.'' \<and> HasSuffix to ''.''"
    using a Normalize_dot [OF assms(1)] by (auto simp: name_args_def Let_def hasClosingDot_def split: if_splits)
  show ?thesis
    using assms(2) a dot Normalize_dot [OF assms(1)]
    by (auto simp: newNameRule_def newExactNameRule_def newPrefixNameRule_def newSuffixNameRule_def newSubstringNameRule_def
        newRegexNameRule_def newNameRuleBase_def match_kinds Let_def split: if_splits option.splits)
qed

lemma newRule_cases:
  assumes "newRule D compile args options = Some (rule, options')"
  obtains mode args' where "newNameRule D compile mode args' = Some rule" | mode args' where "newClassRule D mode args' = Some rule"
    | mode args' where "newTypeRule D mode args' = Some rule" | mode args' where "newEdns0Rule mode args' options = Some (rule, options')"
    | mode args' where "newTTLRule D compile mode args' = Some rule" | mode args' where "newCNAMERule compile mode args' = Some rule"
    | mode args' where "newRCodeRule D compile mode args' = Some rule"
  using assms by (auto simp: newRule_def Let_def split: list.splits if_splits)

lemma newRule_dotted:
  assumes "Fqdn_ok D" and "newRule D compile args options = Some (rule, options')"
  shows "dotted_rule rule"
  using assms(2)
proof (cases rule: newRule_cases)
  case 1
  then show ?thesis by (rule newNameRule_dotted [OF assms(1)])
qed (auto simp: newClassRule_def newTypeRule_def newEdns0Rule_def newEdns0UnsetRule_def newEdns0LocalRule_def newEdns0VariableRule_def
    newEdns0SubnetRule_def newTTLRule_def newCNAMERule_def newRCodeRule_def Let_def split: if_splits option.splits)

lemma rewriteParse_all:
  assumes "\<And>args options rule options'. newRule D compile args options = Some (rule, options') \<Longrightarrow> P rule"
    and "rewriteParse D compile lines options = Some (rules, options')"
  shows "list_all P rules"
  using assms(2)
  by (induction lines arbitrary: options rules options') (auto split: option.splits dest: assms(1))

section \<open>What the rules leave alone\<close>

text \<open>
  A rule gives its own response rules whenever it changes the question, unless it stops: only then is the question restored in the reply.
\<close>

fun leaves_rules :: "Rule \<Rightarrow> bool" where
  "leaves_rules (exactNameRule b _) = (nb_auto b \<or> nb_static b \<noteq> [])"
| "leaves_rules (prefixNameRule b _) = (nb_auto b \<or> nb_static b \<noteq> [])"
| "leaves_rules (suffixNameRule b _) = (nb_auto b \<or> nb_static b \<noteq> [])"
| "leaves_rules (substringNameRule b _) = (nb_auto b \<or> nb_static b \<noteq> [])"
| "leaves_rules (regexNameRule b _) = (nb_auto b \<or> nb_static b \<noteq> [])"
| "leaves_rules (classRule _ _ _) = False"
| "leaves_rules (typeRule _ _ _) = False"
| "leaves_rules _ = True"

definition restores :: "Rule \<Rightarrow> bool" where
  "restores rule \<longleftrightarrow> rule_Mode rule = Rule_Stop \<or> leaves_rules rule"

text \<open>What a rule may do to a request, and what the response rules it leaves look like.\<close>

definition rewrites_to :: "Msg \<Rightarrow> Msg \<Rightarrow> bool" where
  "rewrites_to r r' \<longleftrightarrow> is_query r' \<and> m_Id r' = m_Id r"

lemma rename_Some:
  assumes "m_Question r \<noteq> []"
  shows "rename D b name r = Some (r\<lparr>m_Question := (hd (m_Question r))\<lparr>q_Name := name\<rparr> # tl (m_Question r)\<rparr>,
    responseRuleFor b (req_Name D r) (r\<lparr>m_Question := (hd (m_Question r))\<lparr>q_Name := name\<rparr> # tl (m_Question r)\<rparr>), RewriteDone)"
  using assms by (cases "m_Question r") (simp_all add: rename_def at_question_def)

lemma responseRuleFor_nonempty: "nb_auto b \<or> nb_static b \<noteq> [] \<Longrightarrow> responseRuleFor b n r \<noteq> []"
  by (auto simp: responseRuleFor_def Let_def)

text \<open>Every rule is of one of three kinds: it renames, it changes type or class, or it leaves the question.\<close>

definition keeps_question :: "Msg \<Rightarrow> rewritten option \<Rightarrow> bool" where
  "keeps_question r res \<longleftrightarrow>
     (\<exists>r' resp d. res = Some (r', resp, d) \<and> m_Question r' = m_Question r \<and> m_Id r' = m_Id r \<and> m_Opcode r' = m_Opcode r)"

lemma keeps_ignored [simp]: "keeps_question r (ignored r)"
  by (simp add: keeps_question_def ignored_def)

lemma with_options_keeps [simp]:
  "m_Question (with_options opt opts r) = m_Question r" "m_Id (with_options opt opts r) = m_Id r" "m_Opcode (with_options opt opts r) = m_Opcode r"
  by (simp_all add: with_options_def)

lemma setupEdns0Opt_Some:
  assumes "SetEdns0_ok D"
  obtains r' opt where "setupEdns0Opt D r = Some (r', opt)" "m_Question r' = m_Question r" "m_Id r' = m_Id r" "m_Opcode r' = m_Opcode r"
  using assms that unfolding SetEdns0_ok_def setupEdns0Opt_def Let_def by (cases "IsEdns0 D r"; fastforce)

lemma edns0_keeps:
  assumes "SetEdns0_ok D"
  shows "keeps_question r (nsid_Rewrite D action revert r)" "keeps_question r (local_Rewrite D lrule r)"
    "keeps_question r (variable_Rewrite D x vrule r)" "keeps_question r (subnet_Rewrite D x srule r)"
proof -
  obtain r' opt where o: "setupEdns0Opt D r = Some (r', opt)" "m_Question r' = m_Question r" "m_Id r' = m_Id r" "m_Opcode r' = m_Opcode r"
    using setupEdns0Opt_Some [OF assms] .
  have ign: "keeps_question r (ignored r')" using o by (simp add: keeps_question_def ignored_def)
  have some: "keeps_question r (Some (with_options opt opts r', resp, d))" for opts resp d
    using o by (simp add: keeps_question_def)
  show "keeps_question r (nsid_Rewrite D action revert r)" "keeps_question r (local_Rewrite D lrule r)"
    "keeps_question r (variable_Rewrite D x vrule r)" "keeps_question r (subnet_Rewrite D x srule r)"
    unfolding nsid_Rewrite_def local_Rewrite_def variable_Rewrite_def subnet_Rewrite_def o(1) Let_def
    using ign some by (auto split: option.splits)
qed

lemma req_Name_dot: "SubDomain_ok D \<Longrightarrow> is_query r \<Longrightarrow> HasSuffix (req_Name D r) ''.''"
  by (cases "m_Question r") (auto simp: is_query_def req_Name_def SubDomain_ok_def)

lemma is_query_renamed:
  "is_query r \<Longrightarrow> HasSuffix name ''.'' \<Longrightarrow> is_query (r\<lparr>m_Question := (hd (m_Question r))\<lparr>q_Name := name\<rparr> # tl (m_Question r)\<rparr>)"
  by (simp add: is_query_def)

definition rule_step_ok :: "Rule \<Rightarrow> Msg \<Rightarrow> rewritten option \<Rightarrow> bool" where
  "rule_step_ok rule r res \<longleftrightarrow>
     (\<exists>r' resp d. res = Some (r', resp, d) \<and> rewrites_to r r'
        \<and> (d = RewriteIgnored \<or> leaves_rules rule \<and> resp = [] \<longrightarrow> m_Question r' = m_Question r))"

lemma rule_step_keeps: "keeps_question r res \<Longrightarrow> is_query r \<Longrightarrow> rule_step_ok rule r res"
  unfolding keeps_question_def rule_step_ok_def rewrites_to_def is_query_def by auto

lemma rule_step_rename:
  assumes "is_query r" and "HasSuffix name ''.''" and "leaves_rules rule \<Longrightarrow> nb_auto b \<or> nb_static b \<noteq> []"
  shows "rule_step_ok rule r (rename D b name r)"
proof -
  have "m_Question r \<noteq> []" using assms(1) by (simp add: is_query_def)
  then show ?thesis
    using is_query_renamed [OF assms(1,2)] assms(3) responseRuleFor_nonempty
    by (auto simp: rename_Some rule_step_ok_def rewrites_to_def)
qed

lemma CutPrefix_Some: "CutPrefix s p = Some t \<longleftrightarrow> s = p @ t"
  by (auto simp: CutPrefix_def HasPrefix_iff)

lemma CutSuffix_Some: "CutSuffix s t = Some p \<longleftrightarrow> s = p @ t"
  by (auto simp: CutSuffix_def HasSuffix_iff)

lemma rule_Rewrite_step:
  assumes "SubDomain_ok D" and "SetEdns0_ok D" and "dotted_rule rule" and "is_query r"
  shows "rule_step_ok rule r (rule_Rewrite D x rule r)"
proof -
  note dot = req_Name_dot [OF assms(1,4)]
  have ign: "rule_step_ok rule r (ignored r)" using assms(4) by (simp add: rule_step_keeps)
  obtain q qs where q: "m_Question r = q # qs" using assms(4) by (cases "m_Question r") (auto simp: is_query_def)
  show ?thesis
  proof (cases rule)
    case (exactNameRule b f)
    then show ?thesis using ign assms(3) by (auto intro!: rule_step_rename [OF assms(4)])
  next
    case (prefixNameRule b pre)
    have "HasSuffix (nb_replacement b @ after) ''.''" if "req_Name D r = pre @ after" for after
      using that dot assms(3) prefixNameRule by (cases "after = ''''") (simp_all add: dot_append)
    then show ?thesis using prefixNameRule ign by (auto simp: CutPrefix_Some intro!: rule_step_rename [OF assms(4)] split: option.split)
  next
    case (suffixNameRule b suf)
    have "HasSuffix (before @ nb_replacement b) ''.''" for before
      using assms(3) suffixNameRule by (auto simp: HasSuffix_dot)
    then show ?thesis using suffixNameRule ign by (auto intro!: rule_step_rename [OF assms(4)] split: option.split)
  next
    case (substringNameRule b sub)
    have "sub \<noteq> ''''" using assms(3) substringNameRule by (auto simp: HasSuffix_dot)
    then have "HasSuffix (ReplaceAll (req_Name D r) sub (nb_replacement b)) ''.''"
      using ReplaceAll_dot [OF dot] assms(3) substringNameRule by simp
    then show ?thesis using substringNameRule ign by (auto intro!: rule_step_rename [OF assms(4)])
  next
    case (regexNameRule b pattern)
    then show ?thesis using ign assms(3) subst_groups_dot by (auto simp: Let_def intro!: rule_step_rename [OF assms(4)])
  next
    case (classRule a b m)
    then show ?thesis using ign assms(4) q
      by (auto simp: rule_step_ok_def rewrites_to_def is_query_def)
  next
    case (typeRule a b m)
    then show ?thesis using ign assms(4) q
      by (auto simp: rule_step_ok_def rewrites_to_def is_query_def at_question_def)
  qed (use ign assms(4) in \<open>auto simp: ttl_responseRule_def rcode_responseRule_def keeps_question_def
      intro!: rule_step_keeps [OF _ assms(4)] edns0_keeps [OF assms(2)]\<close>)
qed

lemma apply_rules_prefix: "apply_rules D x rules acc r = Some (All_done r' resp) \<Longrightarrow> \<exists>t. resp = acc @ t"
  by (induction D x rules acc r rule: apply_rules.induct) (fastforce split: option.splits rw_result.splits if_splits)+

text \<open>Applying rules does not panic, and the request stays a query; the question only changes when response rules are left or a rule stops.\<close>

lemma apply_rules_ok:
  assumes "SubDomain_ok D" and "SetEdns0_ok D" and "list_all dotted_rule rules" and "list_all restores rules" and "is_query r"
  shows "\<exists>e. apply_rules D x rules acc r = Some e
    \<and> (case e of Invalid_name \<Rightarrow> True | Stopped r' resp \<Rightarrow> rewrites_to r r'
       | All_done r' resp \<Rightarrow> rewrites_to r r' \<and> (resp = [] \<longrightarrow> m_Question r' = m_Question r))"
  using assms(3-5)
proof (induction rules arbitrary: acc r)
  case Nil
  then show ?case by (simp add: rewrites_to_def)
next
  case (Cons rule rules)
  have "rule_step_ok rule r (rule_Rewrite D x rule r)" using Cons.prems by (intro rule_Rewrite_step assms(1,2)) auto
  then obtain r1 resp d where s: "rule_Rewrite D x rule r = Some (r1, resp, d)" "rewrites_to r r1"
      "d = RewriteIgnored \<or> leaves_rules rule \<and> resp = [] \<longrightarrow> m_Question r1 = m_Question r"
    unfolding rule_step_ok_def by blast
  have q: "is_query r1" using s(2) by (simp add: rewrites_to_def)
  have trans: "rewrites_to r r'" if "rewrites_to r1 r'" for r' using that s(2) by (simp add: rewrites_to_def)
  have go: "\<exists>e. apply_rules D x rules acc' r1 = Some e
      \<and> (case e of Invalid_name \<Rightarrow> True | Stopped r' resp \<Rightarrow> rewrites_to r r'
         | All_done r' resp \<Rightarrow> rewrites_to r r' \<and> (resp = [] \<longrightarrow> m_Question r' = m_Question r1))" for acc'
    using Cons.IH [OF _ _ q, of acc'] Cons.prems trans by (fastforce split: rules_end.splits)
  show ?case
  proof (cases d)
    case RewriteIgnored
    then have keep: "m_Question r1 = m_Question r" using s(3) by simp
    from go [of acc] show ?thesis using s(1) RewriteIgnored unfolding keep by simp
  next
    case RewriteDone
    show ?thesis
    proof (cases "IsDomainName D (first_name r1) \<and> rule_Mode rule \<noteq> Rule_Stop")
      case False
      then show ?thesis using s RewriteDone by auto
    next
      case True
      then have eq: "apply_rules D x (rule # rules) acc r = apply_rules D x rules (acc @ resp) r1" using s(1) RewriteDone by simp
      have "leaves_rules rule" using True Cons.prems(2) by (simp add: restores_def)
      then have keep: "m_Question r1 = m_Question r" if "apply_rules D x rules (acc @ resp) r1 = Some (All_done r' [])" for r'
        using s(3) apply_rules_prefix [OF that] by auto
      obtain e where e: "apply_rules D x rules (acc @ resp) r1 = Some e"
          "case e of Invalid_name \<Rightarrow> True | Stopped r' resp \<Rightarrow> rewrites_to r r'
           | All_done r' resp \<Rightarrow> rewrites_to r r' \<and> (resp = [] \<longrightarrow> m_Question r' = m_Question r1)"
        using go [of "acc @ resp"] by blast
      then show ?thesis using eq keep by (auto split: rules_end.splits)
    qed
  qed
qed

section \<open>Rewriting the records of a reply\<close>

lemma at_options_msg: "at_options D f p = Some p' \<Longrightarrow> rp_msg p' = rp_msg p"
  by (auto simp: at_options_def at_rr_def split: option.splits)

lemma rcode_RewriteResponse_header [simp]:
  "m_Id (rcode_RewriteResponse old new m) = m_Id m" "m_Response (rcode_RewriteResponse old new m) = m_Response m"
  "m_Question (rcode_RewriteResponse old new m) = m_Question m"
  by (simp_all add: rcode_RewriteResponse_def)

lemma RewriteResponse_header:
  assumes "RewriteResponse D x req rule i p = Some p'"
  shows "m_Id (rp_msg p') = m_Id (rp_msg p) \<and> m_Response (rp_msg p') = m_Response (rp_msg p) \<and> m_Question (rp_msg p') = m_Question (rp_msg p)"
proof (cases rule)
  case (cnameTargetRuleWithReqState r)
  then show ?thesis using assms by (auto simp: rewrite_cname_def Let_def split: if_splits option.splits sum.splits prod.splits)
qed (use assms in \<open>auto simp: at_rr_def Let_def split: option.splits if_splits dest: at_options_msg\<close>)

lemma rewriteResourceRecord_header:
  "rewriteResourceRecord D x req rules i p = Some p' \<Longrightarrow>
     m_Id (rp_msg p') = m_Id (rp_msg p) \<and> m_Response (rp_msg p') = m_Response (rp_msg p) \<and> m_Question (rp_msg p') = m_Question (rp_msg p)"
  by (induction rules arbitrary: p p') (auto simp: Option.bind_eq_Some_conv dest!: RewriteResponse_header)

lemma rewrite_records_header:
  "rewrite_records D x req rules is p = Some p' \<Longrightarrow>
     m_Id (rp_msg p') = m_Id (rp_msg p) \<and> m_Response (rp_msg p') = m_Response (rp_msg p) \<and> m_Question (rp_msg p') = m_Question (rp_msg p)"
  by (induction "is" arbitrary: p) (fastforce simp: Option.bind_eq_Some_conv dest!: rewriteResourceRecord_header)+

lemma reply_Msg_header [simp]:
  "m_Id (reply_Msg p) = m_Id (rp_msg p)" "m_Response (reply_Msg p) = m_Response (rp_msg p)" "m_Question (reply_Msg p) = m_Question (rp_msg p)"
  by (simp_all add: reply_Msg_def)

lemma Copy_msg [simp]: "rp_msg (Copy m) = m"
  by (simp add: Copy_def Let_def)

lemma Reverter_WriteMsg_header:
  assumes "Reverter_WriteMsg D x req rv m = Some m'"
  shows "m_Id m' = m_Id m" "m_Response m' = m_Response m"
    "DoQuestionRestore (rv_revertPolicy rv) \<Longrightarrow> m_Question m' = rv_originalQuestion rv # tl (m_Question m)"
proof -
  obtain m1 where m1: "restore_question rv m = Some m1" using assms by (auto simp: Reverter_WriteMsg_def split: option.splits)
  have "m_Id m' = m_Id m1 \<and> m_Response m' = m_Response m1 \<and> m_Question m' = m_Question m1"
    using assms m1 by (auto simp: Reverter_WriteMsg_def Let_def Option.bind_eq_Some_conv split: if_splits dest!: rewrite_records_header)
  moreover have "m_Id m1 = m_Id m" "m_Response m1 = m_Response m"
      "DoQuestionRestore (rv_revertPolicy rv) \<Longrightarrow> m_Question m1 = rv_originalQuestion rv # tl (m_Question m)"
    using m1 by (auto simp: restore_question_def split: if_splits list.splits)
  ultimately show "m_Id m' = m_Id m" "m_Response m' = m_Response m"
    "DoQuestionRestore (rv_revertPolicy rv) \<Longrightarrow> m_Question m' = rv_originalQuestion rv # tl (m_Question m)" by simp_all
qed

text \<open>
  Records whose data fit their type do not fail an assertion, and response rules keep them so. Rules that change options back are left
  out here: they panic when the reply has no OPT record.
\<close>

definition rr_fits :: "RR \<Rightarrow> bool" where
  "rr_fits rr \<longleftrightarrow> getRecordValueForRewrite rr \<noteq> None"

definition reply_fits :: "reply \<Rightarrow> bool" where
  "reply_fits p \<longleftrightarrow> list_all rr_fits (rp_heap p) \<and> (\<forall>i \<in> set (rp_Answer p @ rp_Ns p @ rp_Extra p). i < length (rp_heap p))"

fun safe_response :: "ResponseRule \<Rightarrow> bool" where
  "safe_response (cnameTargetRuleWithReqState r) = (cn_rewriteType r = RegexMatch \<longrightarrow> cn_pattern r \<noteq> None)"
| "safe_response (edns0SetResponseRule _) = False"
| "safe_response (edns0ReplaceResponseRule _ _) = False"
| "safe_response _ = True"

definition server_fits :: "ctxt \<Rightarrow> bool" where
  "server_fits x \<longleftrightarrow> (\<forall>serve k r. x_server x = Some serve \<longrightarrow> (\<forall>m \<in> set (serve k r). list_all rr_fits (m_Answer m)))"

lemma setRewritten_fits: "rr_fits rr \<Longrightarrow> rr_fits (setRewrittenRecordValue v rr)"
  by (cases "rr_data rr") (simp_all add: rr_fits_def getRecordValueForRewrite_def setRewrittenRecordValue_def rr_types split: if_splits)

lemma alias_fits: "rr_fits rr \<Longrightarrow> alias_target rr = Some t \<Longrightarrow> rr_fits (rr\<lparr>rr_data := RD_CNAME t'\<rparr>)"
  by (cases "rr_data rr") (simp_all add: alias_target_def rr_fits_def getRecordValueForRewrite_def rr_types split: if_splits)

lemma header_fits [simp]: "rr_fits (rr\<lparr>rr_Name := n\<rparr>) = rr_fits rr" "rr_fits (rr\<lparr>rr_Ttl := t\<rparr>) = rr_fits rr"
  by (simp_all add: rr_fits_def getRecordValueForRewrite_def)

lemma ttl_RewriteResponse_fits [simp]:
  "rr_fits (ttl_RewriteResponse lo hi rr) = rr_fits rr" "rr_Type (ttl_RewriteResponse lo hi rr) = rr_Type rr"
  "rr_Name (ttl_RewriteResponse lo hi rr) = rr_Name rr"
  by (simp_all add: ttl_RewriteResponse_def)

lemma list_all_update: "list_all P xs \<Longrightarrow> P v \<Longrightarrow> list_all P (xs[i := v])"
  unfolding list_all_iff using set_update_subset_insert [of xs i v] by blast

lemma at_rr_fits: "reply_fits p \<Longrightarrow> i < length (rp_heap p) \<Longrightarrow> (\<And>rr. rr_fits rr \<Longrightarrow> rr_fits (f rr)) \<Longrightarrow> reply_fits (at_rr i f p)"
  by (auto simp: reply_fits_def at_rr_def list_all_length nth_list_update)

lemma keep_aliases_fits:
  "list_all rr_fits heap \<Longrightarrow> \<forall>i \<in> set is. i < length heap \<Longrightarrow> keep_aliases f t is heap = (js, heap') \<Longrightarrow>
     list_all rr_fits heap' \<and> length heap' = length heap \<and> set js \<subseteq> set is"
proof (induction f t "is" heap arbitrary: js heap' rule: keep_aliases.induct)
  case (2 f t i "is" heap)
  obtain js1 heap1 where rest: "keep_aliases f t is heap = (js1, heap1)" by (cases "keep_aliases f t is heap")
  have i: "i < length heap" using "2.prems"(2) by simp
  then have fits: "rr_fits (heap ! i)" using "2.prems"(1) by (simp add: list_all_length)
  show ?case
  proof (cases "alias_target (heap ! i)")
    case None
    then show ?thesis using "2.IH"(1) [OF None "2.prems"(1) _ rest] "2.prems" rest by auto
  next
    case (Some target)
    show ?thesis
    proof (cases "target = f")
      case True
      then show ?thesis using Some "2.prems" alias_fits [OF fits Some] by (auto simp: list_all_update)
    next
      case False
      then show ?thesis using "2.IH"(2) [OF Some False "2.prems"(1) _ rest] "2.prems" rest Some by auto
    qed
  qed
qed auto

lemma Upstream_Lookup_total: "m_Question r \<noteq> [] \<Longrightarrow> Upstream_Lookup D srv k r name typ \<noteq> None"
  by (cases "m_Question r") (auto simp: Upstream_Lookup_def NewWithQuestion_def split: option.splits)

lemma Upstream_Lookup_fits:
  assumes "Upstream_Lookup D (x_server x) k r name typ = Some (Inr (Some m))" and "server_fits x"
  shows "list_all rr_fits (m_Answer m)"
  using assms last_in_set by (fastforce simp: Upstream_Lookup_def server_fits_def split: option.splits if_splits)

lemma getFromAndToTarget_safe: "safe_response (cnameTargetRuleWithReqState r) \<Longrightarrow> getFromAndToTarget r s \<noteq> None"
  by (auto simp: getFromAndToTarget_def Let_def split: option.splits)

lemma rewrite_cname_safe:
  assumes "safe_response (cnameTargetRuleWithReqState rule)" and "server_fits x" and "reply_fits p" and "m_Question req \<noteq> []"
  shows "\<exists>p'. rewrite_cname D x req rule p i = Some p' \<and> reply_fits p' \<and> length (rp_heap p) \<le> length (rp_heap p')"
proof (cases "alias_target (rp_heap p ! i)")
  case None
  then show ?thesis using assms(3) by (simp add: rewrite_cname_def Let_def)
next
  case (Some target)
  obtain f t where ft: "getFromAndToTarget rule target = Some (f, t)" using getFromAndToTarget_safe [OF assms(1)] by fastforce
  obtain up where up: "Upstream_Lookup D (x_server x) (x_loop x) req t (req_QType req) = Some up"
    using Upstream_Lookup_total [OF assms(4)] by blast
  consider "rr_Type (rp_heap p ! i) \<noteq> TypeCNAME \<or> target \<noteq> f \<or> (\<forall>m. up \<noteq> Inr (Some m))"
    | m where "rr_Type (rp_heap p ! i) = TypeCNAME" "target = f" "up = Inr (Some m)" by blast
  then show ?thesis
  proof cases
    case 1
    then have "rewrite_cname D x req rule p i = Some p"
      using Some ft up by (auto simp: rewrite_cname_def Let_def split: sum.splits option.splits)
    then show ?thesis using assms(3) by simp
  next
    case 2
    obtain js heap where ka: "keep_aliases f t (rp_Answer p) (rp_heap p) = (js, heap)" by (cases "keep_aliases f t (rp_Answer p) (rp_heap p)")
    have k: "list_all rr_fits heap" "length heap = length (rp_heap p)" "set js \<subseteq> set (rp_Answer p)"
      using keep_aliases_fits [OF _ _ ka] assms(3) by (auto simp: reply_fits_def)
    have "list_all rr_fits (m_Answer m)" using Upstream_Lookup_fits up assms(2) unfolding 2(3) by blast
    then have "reply_fits (p\<lparr>rp_heap := heap @ m_Answer m, rp_Answer := js @ [length heap ..< length heap + length (m_Answer m)],
        rp_msg := (rp_msg p)\<lparr>m_Truncated := m_Truncated m\<rparr>\<rparr>)"
      using k assms(3) unfolding reply_fits_def by (auto simp: subset_eq less_le_trans [OF _ le_add1])
    then show ?thesis using 2 Some ft up ka k(2) by (simp add: rewrite_cname_def Let_def)
  qed
qed

lemma RewriteResponse_safe:
  assumes "safe_response rule" and "server_fits x" and "reply_fits p" and "i < length (rp_heap p)" and "m_Question req \<noteq> []"
  shows "\<exists>p'. RewriteResponse D x req rule i p = Some p' \<and> reply_fits p' \<and> length (rp_heap p) \<le> length (rp_heap p')"
proof -
  have len: "length (rp_heap (at_rr i f p)) = length (rp_heap p)" for f by (simp add: at_rr_def)
  show ?thesis
  proof (cases rule)
    case (valueRewriterResponseRule w)
    have "rr_fits (rp_heap p ! i)" using assms(3,4) by (auto simp: reply_fits_def list_all_length)
    then obtain v where "getRecordValueForRewrite (rp_heap p ! i) = Some v" by (auto simp: rr_fits_def)
    then show ?thesis
      using valueRewriterResponseRule at_rr_fits [OF assms(3,4)] setRewritten_fits assms(3) len by (simp add: Let_def)
  next
    case (cnameTargetRuleWithReqState r)
    then show ?thesis using rewrite_cname_safe [OF _ assms(2,3,5)] assms(1) by simp
  next
    case (rcodeResponseRule a b)
    then show ?thesis using assms(3) by (simp add: reply_fits_def)
  qed (use assms(1) at_rr_fits [OF assms(3,4)] len in auto)
qed

lemma rewriteResourceRecord_safe:
  assumes "list_all safe_response rules" and "server_fits x" and "reply_fits p" and "i < length (rp_heap p)" and "m_Question req \<noteq> []"
  shows "\<exists>p'. rewriteResourceRecord D x req rules i p = Some p' \<and> reply_fits p' \<and> length (rp_heap p) \<le> length (rp_heap p')"
  using assms(1)
proof (induction rules)
  case (Cons rule rules)
  then obtain p1 where p1: "rewriteResourceRecord D x req rules i p = Some p1" "reply_fits p1" "length (rp_heap p) \<le> length (rp_heap p1)" by auto
  then have "i < length (rp_heap p1)" using assms(4) by simp
  then show ?case using RewriteResponse_safe [OF _ assms(2) p1(2) _ assms(5), of rule i] Cons.prems p1 by fastforce
qed (simp add: assms(3))

lemma rewrite_records_safe:
  assumes "list_all safe_response rules" and "server_fits x" and "m_Question req \<noteq> []"
    and "reply_fits p" and "\<forall>i \<in> set is. i < length (rp_heap p)"
  shows "\<exists>p'. rewrite_records D x req rules is p = Some p' \<and> reply_fits p' \<and> length (rp_heap p) \<le> length (rp_heap p')"
  using assms(4,5)
proof (induction "is" arbitrary: p)
  case (Cons i "is")
  then obtain p1 where p1: "rewriteResourceRecord D x req rules i p = Some p1" "reply_fits p1" "length (rp_heap p) \<le> length (rp_heap p1)"
    using rewriteResourceRecord_safe [OF assms(1,2) _ _ assms(3), of p i D] by auto
  then have "\<forall>i \<in> set is. i < length (rp_heap p1)" using Cons.prems(2) by fastforce
  then show ?case using Cons.IH [OF p1(2)] p1 by fastforce
qed simp

definition msg_fits :: "Msg \<Rightarrow> bool" where
  "msg_fits m \<longleftrightarrow> list_all rr_fits (m_Ns m @ m_Answer m @ m_Extra m)"

lemma Copy_fits: "msg_fits m \<Longrightarrow> reply_fits (Copy m)"
  by (auto simp: msg_fits_def reply_fits_def Copy_def Let_def)

lemma restore_question_fits: "m_Question m \<noteq> [] \<Longrightarrow> msg_fits m \<Longrightarrow> \<exists>m1. restore_question rv m = Some m1 \<and> msg_fits m1"
  by (cases "m_Question m") (simp_all add: restore_question_def msg_fits_def)

lemma Reverter_WriteMsg_total:
  assumes "list_all safe_response (rv_ResponseRules rv)" and "server_fits x" and "m_Question req \<noteq> []" and "msg_fits m" and "m_Question m \<noteq> []"
  shows "Reverter_WriteMsg D x req rv m \<noteq> None"
proof -
  let ?go = "rewrite_records D x req (rv_ResponseRules rv)"
  obtain m1 where m1: "restore_question rv m = Some m1" "msg_fits m1"
    using restore_question_fits [OF assms(5,4)] by blast
  have step: "\<exists>p'. ?go is p = Some p' \<and> reply_fits p'" if "reply_fits p" "set is \<subseteq> set (rp_Answer p @ rp_Ns p @ rp_Extra p)" for p "is"
  proof -
    have "\<forall>i \<in> set is. i < length (rp_heap p)" using that unfolding reply_fits_def by blast
    then show ?thesis using rewrite_records_safe [OF assms(1-3) that(1)] by blast
  qed
  obtain p1 where p1: "?go (rp_Ns (Copy m1)) (Copy m1) = Some p1" "reply_fits p1" using step [OF Copy_fits [OF m1(2)], of "rp_Ns (Copy m1)"] by auto
  obtain p2 where p2: "?go (rp_Answer p1) p1 = Some p2" "reply_fits p2" using step [OF p1(2), of "rp_Answer p1"] by auto
  obtain p3 where "?go (rp_Extra p2) p2 = Some p3" using step [OF p2(2), of "rp_Extra p2"] by auto
  then show ?thesis using m1(1) p1(1) p2(1) by (simp add: Reverter_WriteMsg_def Let_def)
qed

section \<open>The protocol\<close>

fun safe_rule :: "Rule \<Rightarrow> bool" where
  "safe_rule (exactNameRule b _) = list_all safe_response (nb_static b)"
| "safe_rule (prefixNameRule b _) = list_all safe_response (nb_static b)"
| "safe_rule (suffixNameRule b _) = list_all safe_response (nb_static b)"
| "safe_rule (substringNameRule b _) = list_all safe_response (nb_static b)"
| "safe_rule (regexNameRule b _) = list_all safe_response (nb_static b)"
| "safe_rule (cnameRule r) = (cn_rewriteType r = RegexMatch \<longrightarrow> cn_pattern r \<noteq> None)"
| "safe_rule (edns0NsidRule _ _ revert) = (\<not> revert)"
| "safe_rule (edns0LocalRule r) = (\<not> el_revert r)"
| "safe_rule (edns0VariableRule r) = (\<not> ev_revert r)"
| "safe_rule (edns0SubnetRule r) = (\<not> es_revert r)"
| "safe_rule _ = True"

text \<open>Whether a rule for options is to be undone in the reply.\<close>

fun reverts_option :: "Rule \<Rightarrow> bool" where
  "reverts_option (edns0NsidRule _ _ revert) = revert"
| "reverts_option (edns0LocalRule r) = el_revert r"
| "reverts_option (edns0VariableRule r) = ev_revert r"
| "reverts_option (edns0SubnetRule r) = es_revert r"
| "reverts_option _ = False"

lemma answer_loop_safe:
  "answer_loop D compile args lst auto n rules = Some (auto', n', rules') \<Longrightarrow> list_all safe_response rules \<Longrightarrow> list_all safe_response rules'"
proof (induction D compile args lst auto n rules arbitrary: auto' n' rules' rule: answer_loop.induct)
  case (2 D compile a args lst auto n rules)
  then show ?case by (auto split: if_splits list.splits option.splits)
qed simp

lemma parseAnswerRules_safe: "parseAnswerRules D compile args = Some (auto, rules) \<Longrightarrow> list_all safe_response rules"
  by (auto simp: parseAnswerRules_def split: if_splits option.splits dest!: answer_loop_safe)

lemma newNameRule_safe:
  assumes "newNameRule D compile nextAction args = Some rule"
  shows "safe_rule rule"
proof -
  obtain mt from_name to where a: "name_args D args = (mt, from_name, to)" by (cases "name_args D args")
  obtain auto answers where ans: "(if length args > 3 then parseAnswerRules D compile (drop 3 args) else Some (False, [])) = Some (auto, answers)"
    using assms a by (auto simp: newNameRule_def split: if_splits option.splits)
  then have "list_all safe_response answers" by (auto split: if_splits dest: parseAnswerRules_safe)
  then show ?thesis
    using assms a ans
    by (auto simp: newNameRule_def newExactNameRule_def newPrefixNameRule_def newSuffixNameRule_def newSubstringNameRule_def
        newRegexNameRule_def newNameRuleBase_def Let_def split: if_splits option.splits)
qed

lemma newRule_safe:
  assumes "newRule D compile args options = Some (rule, options')" and "\<not> reverts_option rule"
  shows "safe_rule rule"
  using assms(1)
proof (cases rule: newRule_cases)
  case 1
  then show ?thesis by (rule newNameRule_safe)
next
  case (4 mode args')
  then show ?thesis using assms(2) by (cases rule) (auto simp: newEdns0Rule_def newEdns0UnsetRule_def newEdns0LocalRule_def newEdns0VariableRule_def
      newEdns0SubnetRule_def Let_def split: if_splits option.splits)
qed (auto simp: newClassRule_def newTypeRule_def newTTLRule_def newCNAMERule_def newRCodeRule_def Let_def split: if_splits option.splits)

lemma rule_Rewrite_safe:
  assumes "rule_Rewrite D x rule r = Some (r', resp, d)" and "safe_rule rule"
  shows "list_all safe_response resp"
proof -
  have name: "list_all safe_response resp" if "rename D b n r = Some (r', resp, d)" "list_all safe_response (nb_static b)" for b n
    using that by (auto simp: rename_def responseRuleFor_def Let_def)
  have ign: "list_all safe_response resp" if "ignored r0 = Some (r', resp, d)" for r0
    using that by (simp add: ignored_def)
  show ?thesis
    using assms name ign
    by (cases rule) (auto simp: Let_def ttl_responseRule_def rcode_responseRule_def nsid_Rewrite_def local_Rewrite_def variable_Rewrite_def
        subnet_Rewrite_def split: option.splits if_splits list.splits)
qed

lemma apply_rules_safe:
  assumes "apply_rules D x rules acc r = Some e" and "list_all safe_rule rules" and "list_all safe_response acc"
  shows "case e of Invalid_name \<Rightarrow> True | Stopped r' resp \<Rightarrow> list_all safe_response resp | All_done r' resp \<Rightarrow> list_all safe_response resp"
  using assms
proof (induction rules arbitrary: acc r)
  case (Cons rule rules)
  obtain r1 resp d where s: "rule_Rewrite D x rule r = Some (r1, resp, d)" using Cons.prems(1) by (auto split: option.splits)
  have "list_all safe_response (acc @ resp)" using rule_Rewrite_safe [OF s] Cons.prems by simp
  then show ?case using Cons s by (auto split: rw_result.splits if_splits)
qed auto

lemma Reverter_reply_to:
  assumes "Reverter_WriteMsg D x req rv m = Some m'" and "reply_to r' m" and "m_Id r' = m_Id r" and "m_Question r' \<noteq> []"
    and "m_Question r = rv_originalQuestion rv # qs" and "DoQuestionRestore (rv_revertPolicy rv)"
  shows "reply_to r m'"
proof -
  have "tl (m_Question m) = []" using assms(2,4) by (cases "m_Question r'") (simp_all add: reply_to_def)
  then show ?thesis using Reverter_WriteMsg_header [OF assms(1)] assms(2,3,5,6) by (simp add: reply_to_def)
qed

lemma next_reverted_protocol:
  assumes "obeys_protocol r' (NextOrFailure nxt r')" and "\<And>rcode err ws m. NextOrFailure nxt r' = Some (rcode, err, ws) \<Longrightarrow> m \<in> set ws \<Longrightarrow> msg_fits m"
    and "list_all safe_response (rv_ResponseRules rv)" and "server_fits x" and "m_Question r' \<noteq> []" and "m_Id r' = m_Id r"
    and "m_Question r = rv_originalQuestion rv # qs" and "DoQuestionRestore (rv_revertPolicy rv)"
  shows "obeys_protocol r (next_reverted D x rv nxt r')"
proof -
  obtain rcode err ws where n: "NextOrFailure nxt r' = Some (rcode, err, ws)" "length ws = (if ClientWrite rcode then 1 else 0)" "\<forall>m \<in> set ws. reply_to r' m"
    using assms(1) unfolding obeys_protocol_def by blast
  show ?thesis
  proof (cases "ClientWrite rcode")
    case False
    then have "ws = []" using n(2) by simp
    then show ?thesis using n(1) False by (simp add: next_reverted_def obeys_left)
  next
    case True
    then obtain m where ws: "ws = [m]" using n(2) by (auto simp: length_Suc_conv)
    have m: "reply_to r' m" "msg_fits m" using n(1,3) assms(2) ws by auto
    then have "m_Question m \<noteq> []" using assms(5) by (simp add: reply_to_def)
    then obtain m' where m': "Reverter_WriteMsg D x r' rv m = Some m'" using Reverter_WriteMsg_total [OF assms(3-5) m(2)] by blast
    then have "reply_to r m'" using Reverter_reply_to [OF _ m(1) assms(6,5,7,8)] by blast
    then show ?thesis using n(1) ws m' True by (simp add: next_reverted_def obeys_written)
  qed
qed

lemma OPT_fits: "rr_Type rr = TypeOPT \<Longrightarrow> rr_fits rr"
  by (simp add: rr_fits_def getRecordValueForRewrite_def rr_types)

lemma SizeAndDo_fits:
  assumes "OPT_ok D" and "SetRcode_ok D" and "IsEdns0_ok D" and "SizeAndDo D extra r (SetRcode D r rc) = (found, r', m)"
  shows "msg_fits m"
proof -
  have e: "m_Answer (SetRcode D r rc) = []" "m_Ns (SetRcode D r rc) = []" "m_Extra (SetRcode D r rc) = []" using assms(2) by (simp_all add: SetRcode_ok_def)
  then have none: "IsEdns0 D (SetRcode D r rc) = None" using assms(3) by (simp add: IsEdns0_ok_def)
  show ?thesis
  proof (cases "IsEdns0 D r")
    case None
    then show ?thesis using assms(4) e by (auto simp: SizeAndDo_def msg_fits_def)
  next
    case (Some opt)
    then obtain opt' where "m = (SetRcode D r rc)\<lparr>m_Extra := [opt']\<rparr>" "rr_Type opt' = TypeOPT"
      using reply_mirrors_edns [OF assms(1,3) none, of extra r] assms(4) e by auto
    then show ?thesis using e by (simp add: msg_fits_def OPT_fits)
  qed
qed


section \<open>Rules that change each record by itself\<close>

fun local_response :: "ResponseRule \<Rightarrow> bool" where
  "local_response (nameRewriterResponseRule _) = True"
| "local_response (valueRewriterResponseRule _) = True"
| "local_response (ttlResponseRule _ _) = True"
| "local_response _ = False"

definition value_effect :: "stringRewriter \<Rightarrow> RR \<Rightarrow> RR" where
  "value_effect w rr =
     (case getRecordValueForRewrite rr of
        Some v \<Rightarrow> if v \<noteq> '''' \<and> rewriteString w v \<noteq> v then setRewrittenRecordValue (rewriteString w v) rr else rr
      | None \<Rightarrow> rr)"

fun rr_effect :: "ResponseRule \<Rightarrow> RR \<Rightarrow> RR" where
  "rr_effect (nameRewriterResponseRule w) rr = rr\<lparr>rr_Name := rewriteString w (rr_Name rr)\<rparr>"
| "rr_effect (valueRewriterResponseRule w) rr = value_effect w rr"
| "rr_effect (ttlResponseRule lo hi) rr = ttl_RewriteResponse lo hi rr"
| "rr_effect _ rr = rr"

abbreviation effects :: "ResponseRule list \<Rightarrow> RR \<Rightarrow> RR" where
  "effects rules \<equiv> foldr rr_effect rules"

lemma value_effect_keeps [simp]:
  "rr_Name (value_effect w rr) = rr_Name rr" "rr_Ttl (value_effect w rr) = rr_Ttl rr" "rr_Type (value_effect w rr) = rr_Type rr"
  by (simp_all add: value_effect_def setRewrittenRecordValue_def split: option.split rdata.split)

lemma effects_type [simp]: "rr_Type (effects rules rr) = rr_Type rr"
proof (induction rules)
  case (Cons rule rules)
  then show ?case by (cases rule) simp_all
qed simp

lemma rr_effect_fits: "rr_fits rr \<Longrightarrow> rr_fits (rr_effect rule rr)"
  by (cases rule) (auto simp: value_effect_def intro: setRewritten_fits split: option.split)

lemma effects_fits: "rr_fits rr \<Longrightarrow> rr_fits (effects rules rr)"
  by (induction rules) (simp_all add: rr_effect_fits)

lemma at_rr_same: "f (rp_heap p ! i) = rp_heap p ! i \<Longrightarrow> at_rr i f p = p"
  by (simp add: at_rr_def)

lemma RewriteResponse_local:
  assumes "local_response rule" and "rr_fits (rp_heap p ! i)"
  shows "RewriteResponse D x req rule i p = Some (at_rr i (rr_effect rule) p)"
proof (cases rule)
  case (valueRewriterResponseRule w)
  obtain v where v: "getRecordValueForRewrite (rp_heap p ! i) = Some v" using assms(2) by (auto simp: rr_fits_def)
  have "at_rr i (setRewrittenRecordValue (rewriteString w v)) p = at_rr i (value_effect w) p" if "v \<noteq> ''''" "rewriteString w v \<noteq> v"
    using that v by (simp add: at_rr_def value_effect_def)
  moreover have "at_rr i (value_effect w) p = p" if "v = '''' \<or> rewriteString w v = v"
    using that v by (intro at_rr_same) (auto simp: value_effect_def)
  moreover have "rr_effect rule = value_effect w" using valueRewriterResponseRule by (intro ext) simp
  ultimately show ?thesis using valueRewriterResponseRule v by (auto simp: Let_def)
qed (use assms(1) in \<open>simp_all add: at_rr_def\<close>)

lemma at_rr_at_rr: "i < length (rp_heap p) \<Longrightarrow> at_rr i g (at_rr i f p) = at_rr i (\<lambda>rr. g (f rr)) p"
  by (simp add: at_rr_def)

lemma rewriteResourceRecord_local:
  assumes "list_all local_response rules" and "i < length (rp_heap p)" and "rr_fits (rp_heap p ! i)"
  shows "rewriteResourceRecord D x req rules i p = Some (at_rr i (effects rules) p)"
  using assms(1)
proof (induction rules)
  case Nil
  then show ?case by (simp add: at_rr_def)
next
  case (Cons rule rules)
  let ?p = "at_rr i (effects rules) p"
  have "rp_heap ?p ! i = effects rules (rp_heap p ! i)" using assms(2) by (simp add: at_rr_def)
  then have "rr_fits (rp_heap ?p ! i)" using effects_fits [OF assms(3)] by simp
  then have "RewriteResponse D x req rule i ?p = Some (at_rr i (rr_effect rule) ?p)" using Cons.prems by (intro RewriteResponse_local) auto
  then show ?case using Cons assms(2) by (simp add: at_rr_at_rr comp_def)
qed

definition at_all :: "nat list \<Rightarrow> (RR \<Rightarrow> RR) \<Rightarrow> reply \<Rightarrow> reply" where
  "at_all is f p = p\<lparr>rp_heap := map (\<lambda>j. if j \<in> set is then f (rp_heap p ! j) else rp_heap p ! j) [0 ..< length (rp_heap p)]\<rparr>"

lemma at_all_Cons: "i < length (rp_heap p) \<Longrightarrow> i \<notin> set is \<Longrightarrow> at_all is f (at_rr i f p) = at_all (i # is) f p"
  by (auto simp: at_all_def at_rr_def nth_list_update)

lemma rewrite_records_local:
  assumes "list_all local_response rules" and "distinct is" and "\<forall>i \<in> set is. i < length (rp_heap p) \<and> rr_fits (rp_heap p ! i)"
  shows "rewrite_records D x req rules is p = Some (at_all is (effects rules) p)"
  using assms(2,3)
proof (induction "is" arbitrary: p)
  case Nil
  have "map (\<lambda>j. rp_heap p ! j) [0 ..< length (rp_heap p)] = rp_heap p" by (rule map_nth)
  then show ?case by (simp add: at_all_def)
next
  case (Cons i "is")
  have "\<forall>j \<in> set is. j < length (rp_heap (at_rr i (effects rules) p)) \<and> rr_fits (rp_heap (at_rr i (effects rules) p) ! j)"
    using Cons.prems by (auto simp: at_rr_def nth_list_update)
  then show ?case using Cons rewriteResourceRecord_local [OF assms(1)] by (simp add: at_all_Cons)
qed

lemma at_all_at_all:
  assumes "set is \<inter> set js = {}"
  shows "at_all js f (at_all is f p) = at_all (is @ js) f p"
proof -
  have "rp_heap (at_all js f (at_all is f p)) = rp_heap (at_all (is @ js) f p)"
    using assms by (intro nth_equalityI) (auto simp: at_all_def)
  moreover have "at_all js f (at_all is f p) = p\<lparr>rp_heap := rp_heap (at_all js f (at_all is f p))\<rparr>"
      "at_all (is @ js) f p = p\<lparr>rp_heap := rp_heap (at_all (is @ js) f p)\<rparr>" by (simp_all add: at_all_def)
  ultimately show ?thesis by metis
qed

lemma map_nth_middle: "map ((!) (xs @ ys @ zs)) [length xs ..< length xs + length ys] = ys"
  by (rule nth_equalityI) (simp_all add: nth_append)

lemma map_nth_first: "map ((!) (xs @ ys)) [0 ..< length xs] = xs"
  by (rule nth_equalityI) (simp_all add: nth_append)

lemma map_nth_last: "map ((!) (xs @ ys @ zs)) [length xs + length ys ..< length xs + length ys + length zs] = zs"
  by (rule nth_equalityI) (simp_all add: nth_append)

lemma Reverter_WriteMsg_local:
  assumes "list_all local_response (rv_ResponseRules rv)" and "msg_fits m" and "restore_question rv m = Some m1"
  shows "Reverter_WriteMsg D x req rv m =
    (let f = effects (rv_ResponseRules rv) in Some (m1\<lparr>m_Answer := map f (m_Answer m), m_Ns := map f (m_Ns m), m_Extra := map f (m_Extra m)\<rparr>))"
proof -
  let ?f = "effects (rv_ResponseRules rv)"
  have m1: "m_Answer m1 = m_Answer m" "m_Ns m1 = m_Ns m" "m_Extra m1 = m_Extra m"
    using assms(3) by (auto simp: restore_question_def split: if_splits list.splits)
  show ?thesis
  proof (cases "rv_ResponseRules rv = []")
    case True
    then show ?thesis using assms(3) m1 [symmetric] by (simp add: Reverter_WriteMsg_def id_def)
  next
    case False
    let ?n = "length (m_Ns m)" and ?a = "length (m_Ns m) + length (m_Answer m)" and ?e = "length (m_Ns m) + length (m_Answer m) + length (m_Extra m)"
    let ?heap = "m_Ns m @ m_Answer m @ m_Extra m"
    let ?go = "rewrite_records D x req (rv_ResponseRules rv)"
    have heap: "rp_heap (Copy m1) = ?heap" "rp_Ns (Copy m1) = [0 ..< ?n]" "rp_Answer (Copy m1) = [?n ..< ?a]" "rp_Extra (Copy m1) = [?a ..< ?e]"
      by (simp_all add: Copy_def Let_def m1)
    have fits: "rr_fits (?heap ! j)" if "j < ?e" for j
      using assms(2) that unfolding msg_fits_def list_all_length by simp
    have keep: "rp_Ns (at_all is ?f p) = rp_Ns p" "rp_Answer (at_all is ?f p) = rp_Answer p" "rp_Extra (at_all is ?f p) = rp_Extra p"
        "length (rp_heap (at_all is ?f p)) = length (rp_heap p)" for "is" p by (simp_all add: at_all_def)
    have fits_all: "rr_fits (rp_heap (at_all is ?f (Copy m1)) ! j)" if "j < ?e" for "is" j
      using that fits [OF that] effects_fits by (simp add: at_all_def heap)
    have 1: "?go [0 ..< ?n] (Copy m1) = Some (at_all [0 ..< ?n] ?f (Copy m1))"
      using fits by (intro rewrite_records_local assms(1)) (auto simp: heap)
    have 2: "?go [?n ..< ?a] (at_all [0 ..< ?n] ?f (Copy m1)) = Some (at_all [0 ..< ?a] ?f (Copy m1))"
    proof -
      have "?go [?n ..< ?a] (at_all [0 ..< ?n] ?f (Copy m1)) = Some (at_all [?n ..< ?a] ?f (at_all [0 ..< ?n] ?f (Copy m1)))"
        using fits_all by (intro rewrite_records_local assms(1)) (auto simp: keep heap)
      moreover have "[0 ..< ?a] = [0 ..< ?n] @ [?n ..< ?a]" by (rule upt_add_eq_append) simp
      ultimately show ?thesis using at_all_at_all [of "[0 ..< ?n]" "[?n ..< ?a]"] by simp
    qed
    have 3: "?go [?a ..< ?e] (at_all [0 ..< ?a] ?f (Copy m1)) = Some (at_all [0 ..< ?e] ?f (Copy m1))"
    proof -
      have "?go [?a ..< ?e] (at_all [0 ..< ?a] ?f (Copy m1)) = Some (at_all [?a ..< ?e] ?f (at_all [0 ..< ?a] ?f (Copy m1)))"
        using fits_all by (intro rewrite_records_local assms(1)) (auto simp: keep heap)
      moreover have "[0 ..< ?e] = [0 ..< ?a] @ [?a ..< ?e]" by (rule upt_add_eq_append) simp
      ultimately show ?thesis using at_all_at_all [of "[0 ..< ?a]" "[?a ..< ?e]"] by simp
    qed
    have all: "rp_heap (at_all [0 ..< ?e] ?f (Copy m1)) = map ?f ?heap"
      by (rule nth_equalityI) (simp_all add: at_all_def heap del: map_append)
    have msg: "rp_msg (at_all [0 ..< ?e] ?f (Copy m1)) = m1" by (simp add: at_all_def)
    have "reply_Msg (at_all [0 ..< ?e] ?f (Copy m1)) = m1\<lparr>m_Answer := map ?f (m_Answer m), m_Ns := map ?f (m_Ns m), m_Extra := map ?f (m_Extra m)\<rparr>"
      using map_nth_first [of "map ?f (m_Ns m)" "map ?f (m_Answer m) @ map ?f (m_Extra m)"]
        map_nth_middle [of "map ?f (m_Ns m)" "map ?f (m_Answer m)" "map ?f (m_Extra m)"]
        map_nth_last [of "map ?f (m_Ns m)" "map ?f (m_Answer m)" "map ?f (m_Extra m)"]
      unfolding reply_Msg_def all msg keep heap map_append length_map by simp
    then show ?thesis using False assms(3) 1 2 3 by (simp add: Reverter_WriteMsg_def Let_def heap keep)
  qed
qed

section \<open>Names come back\<close>

text \<open>Name rules whose answers are rewritten automatically, and by nothing else.\<close>

fun reverting :: "Rule \<Rightarrow> bool" where
  "reverting (exactNameRule b _) = (nb_auto b \<and> nb_static b = [])"
| "reverting (prefixNameRule b _) = (nb_auto b \<and> nb_static b = [])"
| "reverting (suffixNameRule b suf) = (\<not> nb_auto b \<and> (let w = suffixStringRewriter (nb_replacement b) suf
     in nb_static b = [nameRewriterResponseRule w, valueRewriterResponseRule w]))"
| "reverting (substringNameRule b _) = (nb_auto b \<and> nb_static b = [])"
| "reverting (regexNameRule b _) = (nb_auto b \<and> nb_static b = [])"
| "reverting _ = False"

lemma rename_reverts:
  assumes "rename D b n r = Some (r', resp, d)" and "nb_auto b" and "nb_static b = []"
  shows "list_all local_response resp \<and> resp \<noteq> [] \<and> (\<forall>rr. rr_Name rr = first_name r' \<longrightarrow> rr_Name (effects resp rr) = req_Name D r)"
  using assms by (auto simp: rename_def responseRuleFor_def Let_def)

lemma suffix_reverts:
  assumes "rename D b (before @ nb_replacement b) r = Some (r', resp, d)" and "req_Name D r = before @ suf" and "reverting (suffixNameRule b suf)"
  shows "list_all local_response resp \<and> resp \<noteq> [] \<and> (\<forall>rr. rr_Name rr = first_name r' \<longrightarrow> rr_Name (effects resp rr) = req_Name D r)"
proof -
  have "first_name r' = before @ nb_replacement b" using assms(1) by (auto simp: rename_def at_question_def first_name_def split: list.splits)
  moreover have "CutSuffix (before @ nb_replacement b) (nb_replacement b) = Some before" by (simp add: CutSuffix_Some)
  moreover have "resp = [nameRewriterResponseRule (suffixStringRewriter (nb_replacement b) suf), valueRewriterResponseRule (suffixStringRewriter (nb_replacement b) suf)]"
    using assms(1,3) by (auto simp: rename_def responseRuleFor_def Let_def)
  ultimately show ?thesis using assms(2) by simp
qed

lemma reverting_step:
  assumes "rule_Rewrite D x rule r = Some (r', resp, RewriteDone)" and "reverting rule"
  shows "list_all local_response resp \<and> resp \<noteq> [] \<and> (\<forall>rr. rr_Name rr = first_name r' \<longrightarrow> rr_Name (effects resp rr) = req_Name D r)"
proof (cases rule)
  case (suffixNameRule b suf)
  then obtain before where "req_Name D r = before @ suf" "rename D b (before @ nb_replacement b) r = Some (r', resp, RewriteDone)"
    using assms(1) by (auto simp: CutSuffix_Some ignored_def split: option.splits)
  then show ?thesis using suffix_reverts assms(2) suffixNameRule by blast
qed (use assms in \<open>auto simp: ignored_def Let_def split: option.splits if_splits dest!: rename_reverts\<close>)

lemma reverting_ignored: "rule_Rewrite D x rule r = Some (r', resp, RewriteIgnored) \<Longrightarrow> reverting rule \<Longrightarrow> r' = r"
  by (cases rule) (auto simp: ignored_def rename_def Let_def split: option.splits if_splits)

text \<open>The names that the rules write are in the form in which requests have them.\<close>

definition writes_canonical :: "dnslib \<Rightarrow> ctxt \<Rightarrow> Rule \<Rightarrow> bool" where
  "writes_canonical D x rule \<longleftrightarrow>
     (\<forall>r r' resp. rule_Rewrite D x rule r = Some (r', resp, RewriteDone) \<longrightarrow> req_Name D r' = first_name r')"

fun final :: "rules_end \<Rightarrow> (Msg \<times> ResponseRule list) option" where
  "final Invalid_name = None"
| "final (Stopped r resp) = Some (r, resp)"
| "final (All_done r resp) = Some (r, resp)"

lemma apply_rules_reverts:
  assumes "apply_rules D x rules acc r = Some e" and "final e = Some (r', resp)"
    and "list_all reverting rules" and "list_all (writes_canonical D x) rules"
  shows "\<exists>t. resp = acc @ t \<and> list_all local_response t \<and> (t = [] \<longrightarrow> r' = r)
    \<and> (\<forall>rr. rr_Name rr = first_name r' \<longrightarrow> t \<noteq> [] \<longrightarrow> rr_Name (effects t rr) = req_Name D r)"
  using assms
proof (induction rules arbitrary: acc r)
  case (Cons rule rules)
  obtain r1 resp1 d where s: "rule_Rewrite D x rule r = Some (r1, resp1, d)" using Cons.prems(1) by (auto split: option.splits)
  have rules: "reverting rule" "writes_canonical D x rule" "list_all reverting rules" "list_all (writes_canonical D x) rules"
    using Cons.prems(3,4) by simp_all
  show ?case
  proof (cases d)
    case RewriteIgnored
    then have "r1 = r" using reverting_ignored s rules(1) by blast
    then show ?thesis using Cons.IH [OF _ Cons.prems(2) rules(3,4)] Cons.prems(1) s RewriteIgnored by simp
  next
    case RewriteDone
    note step = reverting_step [OF s [unfolded RewriteDone] rules(1)]
    have valid: "IsDomainName D (first_name r1)" using Cons.prems(1,2) s RewriteDone by (auto split: if_splits)
    show ?thesis
    proof (cases "rule_Mode rule = Rule_Stop")
      case True
      then have "resp = acc @ resp1" "r' = r1" using Cons.prems(1,2) s RewriteDone valid by auto
      then show ?thesis using step by blast
    next
      case False
      then have "apply_rules D x rules (acc @ resp1) r1 = Some e" using Cons.prems(1) s RewriteDone valid by simp
      then obtain t where t: "resp = (acc @ resp1) @ t" "list_all local_response t" "t = [] \<longrightarrow> r' = r1"
          "\<forall>rr. rr_Name rr = first_name r' \<longrightarrow> t \<noteq> [] \<longrightarrow> rr_Name (effects t rr) = req_Name D r1"
        using Cons.IH [OF _ Cons.prems(2) rules(3,4)] by blast
      have "rr_Name (effects t rr) = first_name r1" if "rr_Name rr = first_name r'" for rr
        using that t(3,4) rules(2) s RewriteDone by (cases "t = []") (auto simp: writes_canonical_def)
      then have "rr_Name (effects (resp1 @ t) rr) = req_Name D r" if "rr_Name rr = first_name r'" for rr
        using that step by simp
      then show ?thesis using t step by (intro exI [of _ "resp1 @ t"]) auto
    qed
  qed
qed auto

lemma Rewrite_one_reply:
  assumes "m_Question r = q # qs" and "apply_rules D x rules [] r = Some e" and "final e = Some (r', resp)" and "resp \<noteq> []"
    and "NextOrFailure nxt r' = Some (rcode, err, [m])" and "ClientWrite rcode"
    and "Reverter_WriteMsg D x r' \<lparr>rv_originalQuestion = q, rv_ResponseRules = resp, rv_revertPolicy = NewRevertPolicy False False\<rparr> m = Some m'"
  shows "Rewrite_ServeDNS D x None rules nxt r = Some (rcode, err, [m'])"
proof -
  have "NewResponseReverter r (NewRevertPolicy False False) = Some \<lparr>rv_originalQuestion = q, rv_ResponseRules = [], rv_revertPolicy = NewRevertPolicy False False\<rparr>"
    using assms(1) by (simp add: NewResponseReverter_def)
  moreover have "DoRevert (NewRevertPolicy False False)" by (simp add: DoRevert_def NewRevertPolicy_def)
  ultimately show ?thesis using assms(2-7) by (cases e) (simp_all add: Rewrite_ServeDNS_def next_reverted_def)
qed

text \<open>C19: Rewritten names come back. Let any sequence of name rules with automatic answers, whose rewritten names are in lower case, run
  on a request such that at least one applies, and let the plugins behind write one reply. Then one reply reaches the client, with the client's own question
  and all the answers in their places with their types; every answer whose owner is the rewritten name has the name that the client asked for, in lower case.\<close>

theorem rewrite_names_return:
  assumes "m_Question r = q # qs" and "list_all reverting rules" and "list_all (writes_canonical D x) rules"
    and "apply_rules D x rules [] r = Some e" and "final e = Some (r', resp)" and "resp \<noteq> []"
    and "NextOrFailure nxt r' = Some (rcode, err, [m])" and "ClientWrite rcode" and "msg_fits m" and "m_Question m \<noteq> []"
  shows "\<exists>m'. Rewrite_ServeDNS D x None rules nxt r = Some (rcode, err, [m']) \<and> hd (m_Question m') = q
    \<and> list_all2 (\<lambda>rr rr'. rr_Type rr' = rr_Type rr \<and> (rr_Name rr = first_name r' \<longrightarrow> rr_Name rr' = req_Name D r)) (m_Answer m) (m_Answer m')"
proof -
  let ?rv = "\<lparr>rv_originalQuestion = q, rv_ResponseRules = resp, rv_revertPolicy = NewRevertPolicy False False\<rparr>"
  have t: "list_all local_response resp" "\<forall>rr. rr_Name rr = first_name r' \<longrightarrow> rr_Name (effects resp rr) = req_Name D r"
    using apply_rules_reverts [OF assms(4,5,2,3)] assms(6) by auto
  obtain m1 where m1: "restore_question ?rv m = Some m1" "hd (m_Question m1) = q"
    using assms(10) by (cases "m_Question m") (auto simp: restore_question_def NewRevertPolicy_def DoQuestionRestore_def)
  let ?m' = "m1\<lparr>m_Answer := map (effects resp) (m_Answer m), m_Ns := map (effects resp) (m_Ns m), m_Extra := map (effects resp) (m_Extra m)\<rparr>"
  have "Reverter_WriteMsg D x r' ?rv m = Some ?m'" using Reverter_WriteMsg_local [OF _ assms(9) m1(1)] t(1) by (simp add: Let_def)
  from Rewrite_one_reply [OF assms(1,4-8) this] have "Rewrite_ServeDNS D x None rules nxt r = Some (rcode, err, [?m'])" .
  moreover have "list_all2 (\<lambda>rr rr'. rr_Type rr' = rr_Type rr \<and> (rr_Name rr = first_name r' \<longrightarrow> rr_Name rr' = req_Name D r)) (m_Answer m) (m_Answer ?m')"
    using t(2) by (simp add: list_all2_map2 list.rel_refl)
  ultimately show ?thesis using m1(2) by force
qed

section \<open>Times to live\<close>

lemma ParseUint_range: "ParseUint s bits = Some n \<Longrightarrow> 0 \<le> n \<and> n < 2 ^ bits"
proof -
  have "0 \<le> acc \<Longrightarrow> list_all is_digit s \<Longrightarrow> 0 \<le> dec_val acc s" for acc
    by (induction s arbitrary: acc) (simp_all add: is_digit_def digit_val_def)
  then show "ParseUint s bits = Some n \<Longrightarrow> 0 \<le> n \<and> n < 2 ^ bits" by (auto simp: ParseUint_def split: if_splits)
qed

lemma of_int_le_u32: "0 \<le> a \<Longrightarrow> a \<le> b \<Longrightarrow> b < 2 ^ 32 \<Longrightarrow> (of_int a :: u32) \<le> of_int b"
  by (simp add: word_le_def uint_word_of_int)

lemma isValidTTL_range: "isValidTTL v = Some (lo, hi) \<Longrightarrow> lo \<le> hi"
  by (auto simp: isValidTTL_def intro!: of_int_le_u32 of_int_le_u32 [where b = 2147483647, simplified] split: list.splits option.splits if_splits dest!: ParseUint_range)

lemma newTTLRule_response:
  assumes "newTTLRule D compile nextAction args = Some rule" and "rule_Rewrite D x rule r = Some (r', resp, RewriteDone)"
  shows "\<exists>lo hi. resp = [ttlResponseRule lo hi] \<and> lo \<le> hi \<and> r' = r"
proof -
  obtain lo hi where v: "isValidTTL (if length args = 2 then args ! 1 else if length args = 3 then args ! 2 else '''') = Some (lo, hi)"
    using assms(1) by (auto simp: newTTLRule_def split: option.splits if_splits)
  have "lo \<le> hi" using isValidTTL_range [OF v] .
  then show ?thesis
    using assms v unfolding newTTLRule_def
    by (auto simp: newTTLRuleBase_def ttl_responseRule_def ignored_def Let_def split: if_splits)
qed


section \<open>Examples\<close>

definition ex_no_match :: "string \<Rightarrow> regexp option" where
  "ex_no_match s = Some \<lparr>re_FindStringSubmatch = (\<lambda>_. []), re_NumSubexp = 0\<rparr>"

definition ex_ctxt :: ctxt where
  "ex_ctxt = \<lparr>x_client = \<lparr>cl_addr = UDPAddr [10, 0, 0, 1], cl_text = ''10.0.0.1:5353''\<rparr>, x_local = ''10.0.0.2:53'', x_metadata = (\<lambda>_. None),
     x_server = None, x_loop = 0, x_options = []\<rparr>"

definition ex_red :: Msg where
  "ex_red = new_Msg\<lparr>m_Id := 7, m_Question := [\<lparr>q_Name = ''RED.'', q_Type = TypeA, q_Class = 1\<rparr>]\<rparr>"

text \<open>A plugin that answers every question with an address at the name of the question.\<close>

definition ex_echo :: handler where
  "ex_echo r = Some (RcodeSuccess, False, [(SetReply plain_lib r)\<lparr>m_Answer :=
     [\<lparr>rr_Name = first_name r, rr_Type = TypeA, rr_Class = 1, rr_Ttl = 60, rr_data = RD_A [10, 0, 0, 1]\<rparr>]\<rparr>])"

lemma ex_echo_fits: "NextOrFailure (Some ex_echo) r' = Some (rcode, err, ws) \<Longrightarrow> m \<in> set ws \<Longrightarrow> msg_fits m"
  by (auto simp: NextOrFailure_def ex_echo_def msg_fits_def rr_fits_def getRecordValueForRewrite_def rr_types plain_lib_def plain_reply_def new_Msg_def)

lemma ex_echo_obeys: "obeys_protocol r' (NextOrFailure (Some ex_echo) r')"
  by (simp add: NextOrFailure_def ex_echo_def obeys_written reply_to_def plain_lib_def plain_reply_def)

definition ex_lines :: "string list list" where
  "ex_lines = [[''continue'', ''ttl'', ''red'', ''30-300''], [''continue'', ''name'', ''red'', ''green''], [''name'', ''suffix'', ''green'', ''blue'', ''answer'', ''auto'']]"

definition ex_green :: Rule where
  "ex_green = exactNameRule \<lparr>nb_nextAction = ''continue'', nb_auto = True, nb_replacement = ''green.'', nb_static = []\<rparr> ''red.''"

definition ex_blue :: Rule where
  "ex_blue = (let w = suffixStringRewriter ''blue.'' ''green.'' in
     suffixNameRule \<lparr>nb_nextAction = ''stop'', nb_auto = False, nb_replacement = ''blue.'',
       nb_static = [nameRewriterResponseRule w, valueRewriterResponseRule w]\<rparr> ''green.'')"

definition ex_rewrite_rules :: "Rule list" where
  "ex_rewrite_rules = (case rewriteParse plain_lib ex_no_match ex_lines [] of Some (rules, _) \<Rightarrow> rules | None \<Rightarrow> [])"

lemma ex_parse_rules: "\<exists>options. rewriteParse plain_lib ex_no_match ex_lines [] = Some (ex_rewrite_rules, options)"
proof -
  have "case rewriteParse plain_lib ex_no_match ex_lines [] of Some _ \<Rightarrow> True | None \<Rightarrow> False" by code_simp
  then show ?thesis by (auto simp: ex_rewrite_rules_def split: option.splits)
qed


lemma ex_names_canonical: "writes_canonical plain_lib ex_ctxt ex_green" "writes_canonical plain_lib ex_ctxt ex_blue"
proof -
  have low: "ToLower ''green.'' = ''green.''" "ToLower ''blue.'' = ''blue.''" by code_simp+
  show "writes_canonical plain_lib ex_ctxt ex_green"
    by (auto simp: writes_canonical_def ex_green_def rename_def at_question_def ignored_def req_Name_def first_name_def plain_lib_def low split: if_splits list.splits)
  have "ToLower (take n (ToLower s)) = take n (ToLower s)" for n s
    by (simp add: ToLower_def take_map)
  then show "writes_canonical plain_lib ex_ctxt ex_blue"
    unfolding writes_canonical_def ex_blue_def Let_def
    by (auto simp: rename_def at_question_def ignored_def CutSuffix_def req_Name_def first_name_def plain_lib_def low ToLower_append
        split: if_splits list.splits option.splits)
qed

lemma ex_names_applied:
  "\<exists>e r' resp. apply_rules plain_lib ex_ctxt [ex_green, ex_blue] [] ex_red = Some e \<and> final e = Some (r', resp) \<and> resp \<noteq> [] \<and> first_name r' = ''blue.''"
proof -
  have "case apply_rules plain_lib ex_ctxt [ex_green, ex_blue] [] ex_red of
      Some e \<Rightarrow> (case final e of Some (r', resp) \<Rightarrow> (case resp of [] \<Rightarrow> False | _ \<Rightarrow> first_name r' = ''blue.'') | None \<Rightarrow> False)
    | None \<Rightarrow> False" by code_simp
  then obtain e where e: "apply_rules plain_lib ex_ctxt [ex_green, ex_blue] [] ex_red = Some e"
      "case final e of Some (r', resp) \<Rightarrow> (case resp of [] \<Rightarrow> False | _ \<Rightarrow> first_name r' = ''blue.'') | None \<Rightarrow> False"
    by (cases "apply_rules plain_lib ex_ctxt [ex_green, ex_blue] [] ex_red") (simp_all del: apply_rules.simps)
  then obtain r' resp where "final e = Some (r', resp)" "case resp of [] \<Rightarrow> False | _ \<Rightarrow> first_name r' = ''blue.''"
    by (auto split: option.splits)
  then show ?thesis using e(1) by (cases resp) auto
qed

lemma ex_echo_question: "m_Question r \<noteq> [] \<Longrightarrow> ex_echo r = Some (rcode, err, [m]) \<Longrightarrow> m_Question m \<noteq> []"
  by (auto simp: ex_echo_def plain_lib_def plain_reply_def)

theorem rewrite_names_return_witness:
  "\<exists>m rr. Rewrite_ServeDNS plain_lib ex_ctxt None [ex_green, ex_blue] (Some ex_echo) ex_red = Some (RcodeSuccess, False, [m])
     \<and> m_Answer m = [rr] \<and> rr_Name rr = ''red.'' \<and> q_Name (hd (m_Question m)) = ''RED.''"
proof -
  obtain e r' resp where e: "apply_rules plain_lib ex_ctxt [ex_green, ex_blue] [] ex_red = Some e" "final e = Some (r', resp)" "resp \<noteq> []" "first_name r' = ''blue.''"
    using ex_names_applied by blast
  let ?m = "(SetReply plain_lib r')\<lparr>m_Answer := [\<lparr>rr_Name = first_name r', rr_Type = TypeA, rr_Class = 1, rr_Ttl = 60, rr_data = RD_A [10, 0, 0, 1]\<rparr>]\<rparr>"
  let ?q = "\<lparr>q_Name = ''RED.'', q_Type = TypeA, q_Class = 1\<rparr>"
  have n: "NextOrFailure (Some ex_echo) r' = Some (RcodeSuccess, False, [?m])" by (simp add: NextOrFailure_def ex_echo_def)
  have "first_name r' \<noteq> ''''" using e(4) by simp
  then have "m_Question ?m \<noteq> []" by (cases "m_Question r'") (auto simp: first_name_def plain_lib_def plain_reply_def)
  moreover have "m_Question ex_red = [?q]" "req_Name plain_lib ex_red = ''red.''" by code_simp+
  moreover have "list_all reverting [ex_green, ex_blue]" by (simp add: ex_green_def ex_blue_def Let_def)
  ultimately obtain m where m: "Rewrite_ServeDNS plain_lib ex_ctxt None [ex_green, ex_blue] (Some ex_echo) ex_red = Some (RcodeSuccess, False, [m])"
      "hd (m_Question m) = ?q"
      "list_all2 (\<lambda>rr rr'. rr_Type rr' = rr_Type rr \<and> (rr_Name rr = first_name r' \<longrightarrow> rr_Name rr' = ''red.'')) (m_Answer ?m) (m_Answer m)"
    using rewrite_names_return [OF _ _ _ e(1-3) n ClientWrite_codes(1) ex_echo_fits [OF n], of ?q "[]"] ex_names_canonical by force
  from m(3) obtain rr where "m_Answer m = [rr]" "rr_Name rr = ''red.''" by (auto simp: list_all2_Cons1)
  then show ?thesis using m(1,2) by simp
qed


section \<open>Departures\<close>

lemma Stop_rule_result:
  assumes "m_Question r = q # qs" and "rule_Rewrite D x rule r = Some (r', resp, RewriteDone)" and "rule_Mode rule = Rule_Stop"
    and "IsDomainName D (first_name r')"
  shows "Rewrite_ServeDNS D x None (rule # rules) nxt r =
    (let wr = \<lparr>rv_originalQuestion = q, rv_ResponseRules = resp, rv_revertPolicy = NewRevertPolicy False False\<rparr> in
     case next_reverted D x wr nxt r' of
       None \<Rightarrow> None
     | Some (rcode, err, outs) \<Rightarrow>
         if ClientWrite rcode then Some (rcode, err, outs)
         else let (_, r'', res) = SizeAndDo D (x_options x) r' (SetRcode D r' rcode) in
           map_option (\<lambda>m. (RcodeSuccess, err, outs @ [m])) (Reverter_WriteMsg D x r'' wr res))"
  using assms by (simp add: Rewrite_ServeDNS_def NewResponseReverter_def NewRevertPolicy_def DoRevert_def Let_def)

text \<open>
  The rule for return codes is applied once for every record of the reply, so a reply without records keeps its code: a failure that
  the next plugin leaves to the server is never changed, although the documentation gives this as the example.
\<close>

theorem rcode_rule_needs_records:
  assumes "SetRcode_ok D" and "m_Question r = q # qs" and "IsEdns0 D r = None" and "IsDomainName D (q_Name q)"
    and "rule = exactRCodeRule \<lparr>cb_nextAction = Rule_Stop, cb_response = (RcodeServerFailure, new)\<rparr> (req_Name D r)"
    and "NextOrFailure nxt r = Some (RcodeServerFailure, err, [])"
  shows "\<exists>m. Rewrite_ServeDNS D x None (rule # rules) nxt r = Some (RcodeSuccess, err, [m]) \<and> m_Rcode m = RcodeServerFailure"
proof -
  let ?rv = "\<lparr>rv_originalQuestion = q, rv_ResponseRules = [rcodeResponseRule RcodeServerFailure new], rv_revertPolicy = NewRevertPolicy False False\<rparr>"
  let ?m = "SetRcode D r RcodeServerFailure"
  have m: "m_Answer ?m = []" "m_Ns ?m = []" "m_Extra ?m = []" "m_Question ?m = [q]" "m_Rcode ?m = RcodeServerFailure"
    using assms(1,2) by (simp_all add: SetRcode_ok_def)
  then have "restore_question ?rv ?m = Some ?m" by (simp add: restore_question_def)
  then have w: "Reverter_WriteMsg D x r ?rv ?m = Some (reply_Msg (Copy ?m))"
    using m by (simp add: Reverter_WriteMsg_def Copy_def Let_def)
  have "rule_Rewrite D x rule r = Some (r, [rcodeResponseRule RcodeServerFailure new], RewriteDone)" "rule_Mode rule = Rule_Stop"
    by (simp_all add: assms(5) rcode_responseRule_def)
  from Stop_rule_result [OF assms(2) this] assms(2,4,6) w
  show ?thesis using assms(3) m by (simp add: next_reverted_def SizeAndDo_def first_name_def reply_Msg_def Copy_def Let_def)
qed

text \<open>A rule that is to remove its option from the reply panics when the reply has records but no OPT record.\<close>

theorem revert_panics_without_opt:
  assumes "IsEdns0_ok D" and "\<forall>rr \<in> set (m_Extra m). rr_Type rr \<noteq> TypeOPT" and "m_Ns m @ m_Answer m \<noteq> []"
    and "rv_ResponseRules rv = [edns0SetResponseRule code]"
  shows "Reverter_WriteMsg D x req rv m = None"
proof (cases "restore_question rv m")
  case (Some m1)
  then have s: "m_Ns m1 = m_Ns m" "m_Answer m1 = m_Answer m" "m_Extra m1 = m_Extra m"
    by (auto simp: restore_question_def split: if_splits list.splits)
  have "m_Extra (reply_Msg (Copy m1)) = m_Extra m"
    using map_nth_last [of "m_Ns m" "m_Answer m" "m_Extra m"] by (simp add: reply_Msg_def Copy_def Let_def s)
  then have "IsEdns0 D (reply_Msg (Copy m1)) = None" using assms(1,2) by (simp add: IsEdns0_ok_def)
  then have none: "rewriteResourceRecord D x req [edns0SetResponseRule code] i (Copy m1) = None" for i by (simp add: at_options_def)
  show ?thesis
  proof (cases "m_Ns m = []")
    case True
    then have "rp_Answer (Copy m1) \<noteq> []" "rp_Ns (Copy m1) = []" using assms(3) s by (simp_all add: Copy_def Let_def)
    then show ?thesis using Some assms(4) none by (cases "rp_Answer (Copy m1)") (simp_all add: Reverter_WriteMsg_def Let_def)
  next
    case False
    then have "rp_Ns (Copy m1) \<noteq> []" using s by (simp add: Copy_def Let_def)
    then show ?thesis using Some assms(4) none by (cases "rp_Ns (Copy m1)") (simp_all add: Reverter_WriteMsg_def Let_def)
  qed
qed (simp add: Reverter_WriteMsg_def)

text \<open>The action that is to add an option only if there is none adds a second one.\<close>

theorem append_duplicates_option:
  assumes "IsEdns0 D r = Some opt" and "opt_Options opt = opts" and "list_ex (is_local (el_code rule)) opts" and "el_action rule = Edns0_Append"
  shows "\<exists>resp. local_Rewrite D rule r = Some (with_options opt (opts @ [EDNS0_LOCAL (el_code rule) (el_data rule)]) r, resp, RewriteDone)"
    and "2 \<le> length (filter (is_local (el_code rule)) (opts @ [EDNS0_LOCAL (el_code rule) (el_data rule)]))"
proof -
  show "\<exists>resp. local_Rewrite D rule r = Some (with_options opt (opts @ [EDNS0_LOCAL (el_code rule) (el_data rule)]) r, resp, RewriteDone)"
    using assms by (simp add: local_Rewrite_def setupEdns0Opt_def Edns0_Append_def Edns0_Replace_def Edns0_Set_def Edns0_Unset_def)
  have "filter (is_local (el_code rule)) opts \<noteq> []" using assms(3) by (auto simp: list_ex_iff filter_empty_conv)
  then show "2 \<le> length (filter (is_local (el_code rule)) (opts @ [EDNS0_LOCAL (el_code rule) (el_data rule)]))"
    by (cases "filter (is_local (el_code rule)) opts") (auto simp: is_local_def)
qed

text \<open>The prefix of a rule gets a final dot, so that a rule for names that begin with a string only applies to names whose first labels are that string.\<close>

theorem prefix_rule_whole_labels:
  assumes "Fqdn_ok D" and "newNameRule D compile nextAction [''prefix'', p, to] = Some rule" and "rule_Rewrite D x rule r = Some (r', resp, RewriteDone)"
  shows "\<exists>after. req_Name D r = Name_Normalize D p @ after \<and> HasSuffix (Name_Normalize D p) ''.''"
proof -
  have "name_args D [''prefix'', p, to] = (PrefixMatch, Name_Normalize D p, Name_Normalize D to)"
    by (simp add: name_args_def match_kinds Let_def ToLower_def lower_char_def)
  then have "rule = prefixNameRule (newNameRuleBase nextAction False (Name_Normalize D to) []) (Name_Normalize D p)"
    using assms(2) by (simp add: newNameRule_def newPrefixNameRule_def match_kinds)
  then show ?thesis using assms(1,3) Normalize_dot by (auto simp: CutPrefix_Some ignored_def split: option.splits)
qed

text \<open>The times of all records are bounded, also that of the OPT record, which holds the flags: a low bound clears the DO bit.\<close>

theorem ttl_rule_clears_do:
  assumes "OPT_ok D" and "opt_Do D opt" and "lo \<le> hi" and "uint hi < 2 ^ 15"
  shows "\<not> opt_Do D (rr_effect (ttlResponseRule lo hi) opt)"
proof -
  have small: "\<not> bit w 15" if "uint w < 2 ^ 15" for w :: u32
  proof -
    have "uint w div 2 ^ 15 = 0" using that by simp
    then have "\<not> bit (uint w) 15" by (simp add: bit_iff_odd)
    then show ?thesis by (simp add: bit_uint_iff)
  qed
  have "bit (rr_Ttl opt) 15" using assms(1,2) OPT_okD(1) by blast
  then have "\<not> uint (rr_Ttl opt) < 2 ^ 15" using small by blast
  then have "hi < rr_Ttl opt" using assms(4) by (simp add: word_less_def)
  then have "rr_Ttl (rr_effect (ttlResponseRule lo hi) opt) = hi" using assms(3) by (auto simp: ttl_RewriteResponse_def)
  then show ?thesis using OPT_okD(1) [OF assms(1)] small [OF assms(4)] by simp
qed

text \<open>A rule for types or classes that lets the next rules go on leaves no response rule; then the question is not restored, and the reply is for another question.\<close>

theorem continued_type_rule_mismatch:
  assumes "m_Question r = q # qs" and "q_Type q = a" and "0 < a" and "0 < b" and "a \<noteq> b" and "IsDomainName D (q_Name q)"
    and "\<And>r'. \<exists>m. NextOrFailure nxt r' = Some (rcode, err, [m]) \<and> reply_to r' m"
  shows "\<exists>m. Rewrite_ServeDNS D x None [typeRule a b Rule_Continue] nxt r = Some (rcode, err, [m]) \<and> \<not> reply_to r m"
proof -
  let ?r = "r\<lparr>m_Question := q\<lparr>q_Type := b\<rparr> # qs\<rparr>"
  obtain m where m: "NextOrFailure nxt ?r = Some (rcode, err, [m])" "reply_to ?r m" using assms(7) by blast
  have "apply_rules D x [typeRule a b Rule_Continue] [] r = Some (All_done ?r [])"
    using assms by (simp add: req_QType_def at_question_def first_name_def Rule_Continue_def Rule_Stop_def)
  then have "Rewrite_ServeDNS D x None [typeRule a b Rule_Continue] nxt r = Some (rcode, err, [m])"
    using assms(1) m(1) by (simp add: Rewrite_ServeDNS_def NewResponseReverter_def)
  moreover have "\<not> reply_to r m" using m(2) assms(1,2,5) by (auto simp: reply_to_def dest: arg_cong [of _ _ q_Type])
  ultimately show ?thesis by blast
qed

text \<open>The documented \<^verbatim>\<open>answer name auto answer value FROM TO\<close> is read as a rule that rewrites names matching \<^verbatim>\<open>auto\<close>.\<close>

theorem answer_name_auto_misread:
  assumes "parseAnswerRules D compile [''answer'', ''name'', ''auto'', ''answer'', ''value'', from_re, to] = Some (auto, rules)"
  shows "\<not> auto \<and> (\<exists>re. compile ''auto'' = Some re \<and> hd rules = nameRewriterResponseRule (regexStringRewriter re (Name_Normalize D ''answer'')))"
  using assms
  by (auto simp: parseAnswerRules_def AnswerMatch_def AutoMatch_def NameMatch_def ValueMatch_def isValidRegexPattern_def maxRegexpLen_def
      split: option.splits if_splits)

end
