(* ===== verification/Spec2Isabelle.thy ===== *)
theory Spec2Isabelle
  imports Hanzo_Snapshot Hanzo_API Plugin_Chain Rewrite_Plugin
begin

text \<open>
  A verification library for the DNS server of this repository, a CoreDNS with a multi-tenant
  \<^verbatim>\<open>hanzodns\<close> plugin.

  \<^bold>\<open>The program.\<close> A DNS server (\<^verbatim>\<open>src/core/dnsserver/server.go\<close>) finds the configuration of the most specific zone of a query,
  hands the query to its chain of plugins (\<^verbatim>\<open>src/plugin/plugin.go\<close>), and answers itself when the chain asks for that or panics.
  The plugin \<^verbatim>\<open>hanzodns\<close> answers from an in-memory store of zones, each owned by an organisation. The
  store is filled by a REST API behind token authentication, may be mirrored to an external DNS
  provider whose token comes from a secret store, and is saved to a snapshot file after every
  change. The plugin \<^verbatim>\<open>file\<close> answers from zone files: a balanced tree of names in canonical order,
  a lookup with delegations, wildcards and aliases, transfers from primaries and to secondaries.

  \<^bold>\<open>The theories\<close>, and the code they model (below \<^verbatim>\<open>src/\<close>):
  \<^item> \<open>Prelude\<close>: Go's integers, strings and maps. A map is an association list with distinct
    keys; the locale \<open>go_map\<close> is its interface.
  \<^item> \<open>Go_Net\<close>: addresses, masks and host-port strings of Go's \<^verbatim>\<open>net\<close>.
  \<^item> \<open>Go_JSON\<close>: \<^verbatim>\<open>encoding/json\<close> and numerals, as far as the sources use them.
  \<^item> \<open>Hanzo_Store\<close>: \<^verbatim>\<open>plugin/hanzodns/store.go\<close>, \<^verbatim>\<open>store_sync.go\<close>. The record \<open>Store\<close> is the
    struct; each operation returns its result, the new store and whether it called \<^verbatim>\<open>notify\<close>.
  \<^item> \<open>Hanzo_Snapshot\<close>: \<^verbatim>\<open>store_snapshot.go\<close>, over a file system in which a write may be torn
    and the process may die between any two system calls.
  \<^item> \<open>Hanzo_Provider\<close>: \<^verbatim>\<open>provider.go\<close>, \<^verbatim>\<open>cloudflare.go\<close>, \<^verbatim>\<open>kms.go\<close>. The services are a function
    from requests to outcomes; an operation also yields the requests it sent.
  \<^item> \<open>Hanzo_Auth\<close>: \<^verbatim>\<open>oidc.go\<close> and the middleware of \<^verbatim>\<open>api.go\<close>. Signature schemes are arguments.
  \<^item> \<open>Hanzo_API\<close>: \<^verbatim>\<open>api.go\<close>, \<^verbatim>\<open>api_sync.go\<close>: routes, handlers, the whole request path.
  \<^item> \<open>DNS_Lib\<close>: messages and records of the library \<^verbatim>\<open>miekg/dns\<close>, whose functions are fields of a
    record \<open>dnslib\<close> given to every definition that calls one; the shared packages
    \<^verbatim>\<open>plugin/plugin.go\<close>, \<^verbatim>\<open>plugin/normalize.go\<close>, \<^verbatim>\<open>plugin/pkg/fall\<close>, \<^verbatim>\<open>plugin/pkg/dnsutil\<close> and
    \<^verbatim>\<open>request/request.go\<close>; the protocol between plugins. A handler maps a request to a return code, an error
    flag and the messages written, or to \<open>None\<close> for a panic. The locale \<open>plugin_link\<close> is what a plugin
    promises in a chain.
  \<^item> \<open>Hanzo_DNS\<close>: \<^verbatim>\<open>plugin/hanzodns/hanzodns.go\<close>, interpreting \<open>plugin_link\<close>.
  \<^item> \<open>DNS_Order\<close>, \<open>LLRB_Node\<close>, \<open>Zone_Tree\<close>: \<^verbatim>\<open>plugin/file/tree\<close>: the canonical order, the
    left-leaning red-black tree without regard to order, and the tree of a zone. The locale
    \<open>rr_index\<close> is what a zone relies on.
  \<^item> \<open>Zone_File\<close>: \<^verbatim>\<open>plugin/file\<close>: \<^verbatim>\<open>zone.go\<close>, \<^verbatim>\<open>lookup.go\<close>, \<^verbatim>\<open>closest.go\<close>, \<^verbatim>\<open>wildcard.go\<close>,
    \<^verbatim>\<open>dname.go\<close>, and the loader of \<^verbatim>\<open>file.go\<close>.
  \<^item> \<open>Zone_Secondary\<close>: \<^verbatim>\<open>secondary.go\<close>, \<^verbatim>\<open>xfr.go\<close>, \<^verbatim>\<open>notify.go\<close>, \<^verbatim>\<open>reload.go\<close> of \<^verbatim>\<open>plugin/file\<close>. The update
    loop is a function on the ticks of its timers; the network is an argument.
  \<^item> \<open>Zone_Plugin\<close>: the handler of \<^verbatim>\<open>plugin/file/file.go\<close>, interpreting \<open>plugin_link\<close>.
  \<^item> \<open>DNS_Request\<close>: \<^verbatim>\<open>request/\<close> and \<^verbatim>\<open>plugin/pkg/edns\<close>: the OPT record and the size of a reply.
  \<^item> \<open>DNS_Server\<close>: \<^verbatim>\<open>ServeDNS\<close> of \<^verbatim>\<open>core/dnsserver/server.go\<close>: checks, routing, error replies, recovery from panics.
  \<^item> \<open>Transfer_Plugin\<close>: \<^verbatim>\<open>plugin/transfer\<close>: transfers with access control and batching, and notifies. The
    locale \<open>zone_source\<close> is what it relies on; the file plugin interprets it.
  \<^item> \<open>DNS_Response\<close>: \<^verbatim>\<open>plugin/pkg/response\<close> and \<^verbatim>\<open>plugin/pkg/dnsutil/ttl.go\<close>: types of replies and their lowest TTL.
  \<^item> \<open>Sharded_Cache\<close>: \<^verbatim>\<open>plugin/pkg/cache\<close>. The entry that \<^verbatim>\<open>range\<close> visits first is an argument. The locale \<open>lossy_map\<close> is what users rely on.
  \<^item> \<open>DNS_Cache\<close>: \<^verbatim>\<open>plugin/cache\<close>, interpreting \<open>plugin_link\<close>. A request yields the answer, the new caches and the background task it
    started, if any; tasks run as events of their own, so that they interleave with requests in any order. What the code reads from outside
    during a request is a record \<open>env\<close>.
  \<^item> \<open>Rewrite_Plugin\<close>: \<^verbatim>\<open>plugin/rewrite\<close>: rules, the parser of their arguments, the handler and the writer that undoes them. The records of a
    reply are a heap shared by its sections, since rules change them in place. Compiled regular expressions are arguments.
  \<^item> \<open>Plugin_Chain\<close>: the plugins \<^verbatim>\<open>any\<close>, \<^verbatim>\<open>chaos\<close>, \<^verbatim>\<open>local\<close>, \<^verbatim>\<open>header\<close>, \<^verbatim>\<open>bufsize\<close>, \<^verbatim>\<open>loadbalance\<close>, \<^verbatim>\<open>acl\<close>, \<^verbatim>\<open>whoami\<close>,
    \<^verbatim>\<open>minimal\<close>; chains of plugins, interpreting \<open>plugin_link\<close>.
  \<^item> This theory: the properties that span components.

  \<^bold>\<open>What is shown.\<close> For the API: organisations are isolated in reading and writing, through the
  store and through the whole request path; tokens are accepted only when signed and in date;
  requests without a credential learn nothing. For the store: its invariant in every execution,
  what each operation does, that snapshots round-trip and survive a crash. For the zone tree: every
  sequence of operations completes without a nil dereference, keeps the tree balanced and sorted, and
  the tree holds exactly the live records. For lookups: they end, answer an existing name with
  exactly its records, never answer with authority below a delegation, and deny only names without
  records. For transfers: they go only to hosts that the configuration names, and a secondary ends up with the records of the
  primary's file. For the cache: it is a map that may forget, keeps its items apart by kind and within their times, and gives back what
  was stored with the time that remains. For rewriting: the client gets one reply to its own question, with names mapped back and times within
  the bounds of the rules. For the server: it answers every query exactly once, for every chain of the modelled plugins but \<^verbatim>\<open>minimal\<close>,
  whose panic is stated. Several lemmas state where the code departs from its documentation.

  \<^bold>\<open>Bounds.\<close> Loops over labels take fuel that exceeds the length of the name; recursions of the
  tree take its height. The lemmas of each theory show that this fuel is never used up, so \<open>None\<close> in a
  result stands for a panic of the code and nothing else. The alias chain of a lookup is cut by
  the code itself after eight steps.

  \<^bold>\<open>Not modelled.\<close> The network listeners and the HTTP server, the parser of the zone file syntax and of the configuration (in
  libraries), logging and metrics, and the context values of metadata and views. Of the remaining plugins, those that
  forward, sign, answer by text templates or from external services rest on code outside the repository; the
  plugins \<^verbatim>\<open>hosts\<close>, \<^verbatim>\<open>auto\<close> and the weighted load balancing are left for later. When a plugin changes the request in place, the
  next plugin gets the changed request, but the server's own error reply is made from the original.

\<close>

section \<open>From the zone file of a primary to the zone of a secondary\<close>

lemma Transfer_of_file:
  assumes "Envelope_ok D" and "SetReply_ok D" and "file_ok D f" and "map_of (fl_Z f) (req_Name D r) = Some (Some p)"
    and "a_SOA (z_Apex p) = Some soa" and "t_Transferers t = File_Transfer f # ts" and "req_QType r = TypeAXFR"
    and "req_Proto c = ''tcp''" and "longestMatch D (t_xfrs t) (req_Name D r) = Some x" and "allowed (x_to x) (cl_text c)"
  shows "\<exists>ws. Transfer_ServeDNS D c None t r = Some (RcodeSuccess, False, ws)
    \<and> concat (map m_Answer ws) = [soa] @ zone_records p @ [soa]"
proof -
  obtain bs where bs: "Zone_Transfer p 0 = Some bs" "concat bs = [soa] @ zone_records p @ [soa]"
    using concat_Zone_Transfer [OF assms(5)] by blast
  have src: "File_Transfer f (req_Name D r) 0 = Batches bs" using assms(4) bs(1) by (simp add: File_Transfer_def)
  have "client_serial r = Some 0" using assms(7) by (simp add: client_serial_def rr_types)
  then have "Transfer_ServeDNS D c None t r = send_zone D None r bs"
    using assms(6-10) src by (simp add: Transfer_ServeDNS_def)
  then show ?thesis using file_source.all_records_sent [OF assms(1-3) src, of r] bs(2) by simp
qed

text \<open>C10: A secondary ends up with the zone of its primary. The primary has loaded a zone file; its \<^verbatim>\<open>transfer\<close> plugin allows the
  client; the secondary asks its primaries in turn, those before this one do not answer, and it gets the messages the primary writes. Then the
  transfer succeeds, the zone of the secondary is well-formed and not expired, and it has the records and the SOA
  record of the zone that the primary loaded, in canonical form.\<close>

theorem axfr_end_to_end:
  assumes "PrevLabel_ok D" and "Envelope_ok D" and "SetReply_ok D"
    and "list_all rr_typed rrs" and "Parse D (rrs, False) origin file serial = Some (Inr p)"
    and "file_ok D f" and "map_of (fl_Z f) (req_Name D r) = Some (Some p)" and "t_Transferers t = File_Transfer f # ts"
    and "req_QType r = TypeAXFR" and "req_Proto c = ''tcp''"
    and "longestMatch D (t_xfrs t) (req_Name D r) = Some x" and "allowed (x_to x) (cl_text c)"
    and "z_TransferFrom z = dead @ tr # rest" and "list_all (\<lambda>tr. n_axfr net tr = None) dead"
    and "n_axfr net tr = map_option (\<lambda>(_, _, ws). map (\<lambda>m. Some (m_Answer m)) ws) (Transfer_ServeDNS D c None t r)"
  shows "\<exists>z'. TransferIn D net b z = Some (z', None, b) \<and> zone_ok D z' \<and> \<not> z_Expired z'
    \<and> mset (zone_records z') = mset (map (canonical_rr D) (zone_records p))
    \<and> a_SOA (z_Apex z') = map_option (canonical_rr D) (a_SOA (z_Apex p))"
proof -
  obtain soa where soa: "a_SOA (z_Apex p) = Some soa" using Parse_records(3) [OF assms(1,4,5)] by blast
  obtain ws where ws: "Transfer_ServeDNS D c None t r = Some (RcodeSuccess, False, ws)"
    "concat (map m_Answer ws) = [soa] @ zone_records p @ [soa]"
    using Transfer_of_file [OF assms(2,3,6,7) soa assms(8-12)] by blast
  have "n_axfr net tr = Some (map Some (map m_Answer ws))" using assms(15) ws(1) by (simp add: comp_def)
  from TransferIn_copy [OF assms(1,4,5) soa ws(2) assms(13,14) this] show ?thesis .
qed

definition ex_primary :: Transfer where
  "ex_primary = (ex_transfer [])\<lparr>t_Transferers := [File_Transfer (ex_file (ex_load ex_records))]\<rparr>"

definition ex_wire :: network where
  "ex_wire = ex_net ''10.0.0.2:53''
     (case Transfer_ServeDNS plain_lib ex_tcp None ex_primary ex_axfr of Some (_, _, ws) \<Rightarrow> map (\<lambda>m. Some (m_Answer m)) ws | None \<Rightarrow> [])"

theorem axfr_end_to_end_witness:
  "\<exists>z'. TransferIn plain_lib ex_wire True ex_secondary = Some (z', None, True) \<and> zone_ok plain_lib z' \<and> \<not> z_Expired z'
    \<and> mset (zone_records z') = mset (map (canonical_rr plain_lib) (zone_records (ex_load ex_records)))
    \<and> a_SOA (z_Apex z') = map_option (canonical_rr plain_lib) (a_SOA (z_Apex (ex_load ex_records)))"
proof (rule axfr_end_to_end [OF plain_PrevLabel_ok plain_Envelope_ok plain_SetReply_ok ex_records_typed ex_parse])
  show "file_ok plain_lib (ex_file (ex_load ex_records))" by (rule ex_file_ok)
  show "map_of (fl_Z (ex_file (ex_load ex_records))) (req_Name plain_lib ex_axfr) = Some (Some (ex_load ex_records))"
  proof -
    have "req_Name plain_lib ex_axfr = ''ex.''" by code_simp
    then show ?thesis by (simp add: ex_file_def)
  qed
  show "t_Transferers ex_primary = File_Transfer (ex_file (ex_load ex_records)) # []" by (simp add: ex_primary_def)
  show "req_QType ex_axfr = TypeAXFR" "req_Proto ex_tcp = ''tcp''" by code_simp+
  show "longestMatch plain_lib (t_xfrs ex_primary) (req_Name plain_lib ex_axfr) = Some \<lparr>x_Zones = [''ex.''], x_to = [''10.0.0.9:53'', ''*'']\<rparr>"
    by code_simp
  show "allowed (x_to \<lparr>x_Zones = [''ex.''], x_to = [''10.0.0.9:53'', ''*'']\<rparr>) (cl_text ex_tcp)" by code_simp
  show "z_TransferFrom ex_secondary = [''10.0.0.1:53''] @ ''10.0.0.2:53'' # []" by (simp add: ex_secondary_def)
  show "list_all (\<lambda>tr. n_axfr ex_wire tr = None) [''10.0.0.1:53'']" by (simp add: ex_wire_def ex_net_def)
  have "Transfer_ServeDNS plain_lib ex_tcp None ex_primary ex_axfr \<noteq> None" by code_simp
  then show "n_axfr ex_wire ''10.0.0.2:53'' = map_option (\<lambda>(_, _, ws). map (\<lambda>m. Some (m_Answer m)) ws)
      (Transfer_ServeDNS plain_lib ex_tcp None ex_primary ex_axfr)"
    by (auto simp: ex_wire_def ex_net_def)
qed

section \<open>The server with its plugins\<close>


definition ex_plugins :: "plugin list" where
  "ex_plugins = [P_acl ex_client [ex_allow, ex_block], P_loadbalance (\<lambda>k. k), P_local, P_any, P_whoami ex_client]"

definition ex_plugin_server :: Server where
  "ex_plugin_server =
     \<lparr>s_zones = [(''.'', [\<lparr>cf_Zone = ''.'', cf_pluginChain = map_option outcome_of (compile_plugins (map (plugin_handler plain_lib) ex_plugins)),
        cf_FilterFuncs = []\<rparr>])], s_debug = False, s_classChaos = False, s_options = []\<rparr>"


end
